(* ===== verification/Prelude.thy ===== *)
theory Prelude
  imports Main "HOL-Library.Word" "HOL-Library.AList" "HOL-Library.Multiset"
begin

unbundle bit_operations_syntax

text \<open>
  Shared vocabulary of the development: the machine integers of the C++ sources, byte strings
  for the fixed-size crypto PODs, the exceptions the code throws, and the generic facts on lists,
  association lists and words that the component theories rest on.

  \<^item> \<open>uint8_t\<close>, \<open>uint16_t\<close>, \<open>uint32_t\<close>, \<open>uint64_t\<close> and \<open>size_t\<close> are words of that width,
    so that \<open>+\<close>, \<open>-\<close> and \<open>*\<close> wrap exactly as they do in the code.
  \<^item> \<open>Crypto::Hash\<close>, \<open>Crypto::PublicKey\<close>, \<open>Crypto::SecretKey\<close>, \<open>Crypto::KeyImage\<close> and
    \<open>Crypto::KeyDerivation\<close> are 32-byte arrays in the code and byte lists here.
  \<^item> \<open>std::unordered_map\<close> is an association list in the container's iteration order.
\<close>

type_synonym u8 = "8 word"
type_synonym u16 = "16 word"
type_synonym u32 = "32 word"
type_synonym u64 = "64 word"

type_synonym bytes = "u8 list"
type_synonym hash = "u8 list"
type_synonym public_key = "u8 list"
type_synonym secret_key = "u8 list"
type_synonym key_image = "u8 list"
type_synonym key_derivation = "u8 list"

text \<open>The exceptions of the standard library that the modelled code throws.\<close>

datatype exc =
    RuntimeError string
  | InvalidArgument string
  | OutOfRange

named_theorems amount_simps \<open>sums of wrapping amounts\<close>
named_theorems key_simps \<open>key images of a vector of inputs\<close>


section \<open>Lists\<close>

text \<open>\<open>vec.erase(std::find_if(vec.begin(), vec.end(), P))\<close>: drop the first match only.\<close>

fun erase_first :: "('a \<Rightarrow> bool) \<Rightarrow> 'a list \<Rightarrow> 'a list" where
  "erase_first P [] = []"
| "erase_first P (x # xs) = (if P x then xs else x # erase_first P xs)"

lemma set_erase_first_subset: "set (erase_first P xs) \<subseteq> set xs"
  by (induction xs) auto

lemma mset_erase_first:
  "List.find P xs = Some x \<Longrightarrow> add_mset x (mset (erase_first P xs)) = mset xs"
  by (induction xs) (auto split: if_splits)

lemma find_Some_in: "List.find P xs = Some x \<Longrightarrow> x \<in> set xs \<and> P x"
  by (induction xs) (auto split: if_splits)

lemma find_None_iff_all: "List.find P xs = None \<longleftrightarrow> (\<forall>x \<in> set xs. \<not> P x)"
  by (induction xs) auto

lemma find_unique: "distinct (map f xs) \<Longrightarrow> x \<in> set xs \<Longrightarrow> List.find (\<lambda>y. f y = f x) xs = Some x"
  by (induction xs) (auto simp: image_iff)

lemma erase_first_none: "\<forall>x \<in> set xs. \<not> P x \<Longrightarrow> erase_first P xs = xs"
  by (induction xs) auto

lemma distinct_map_erase_first: "distinct (map f xs) \<Longrightarrow> distinct (map f (erase_first P xs))"
  proof (induction xs)
  case (Cons x xs)
  then show ?case using set_erase_first_subset [of P xs] by auto
qed simp

text \<open>On a vector whose keys are distinct, erasing the first match erases every match.\<close>

lemma erase_first_key_filter:
  "distinct (map f xs) \<Longrightarrow> erase_first (\<lambda>x. f x = k) xs = filter (\<lambda>x. f x \<noteq> k) xs"
proof (induction xs)
  case (Cons x xs)
  show ?case
  proof (cases "f x = k")
    case True
    with Cons.prems have "\<forall>y \<in> set xs. f y \<noteq> k" by (auto simp: image_iff)
    then have "filter (\<lambda>x. f x \<noteq> k) xs = xs" by (simp add: filter_id_conv)
    with True show ?thesis by simp
  next
    case False
    with Cons show ?thesis by simp
  qed
qed simp

lemma mset_filter_split: "mset (filter P xs) + mset (filter (\<lambda>x. \<not> P x) xs) = mset xs"
  by (induction xs) auto

lemma mset_map_filter_split:
  "mset (map f (filter P xs)) + mset (map f (filter (\<lambda>x. \<not> P x) xs)) = mset (map f xs)"
  by (induction xs) auto

lemma sum_list_filter_split [amount_simps]:
  "sum_list (map f (filter P xs)) + sum_list (map f (filter (\<lambda>x. \<not> P x) xs))
     = (sum_list (map f xs) :: 'b :: comm_monoid_add)"
  by (induction xs) (auto simp: algebra_simps)

lemma sum_list_erase_first [amount_simps]:
  "List.find P xs = Some x \<Longrightarrow>
     f x + sum_list (map f (erase_first P xs)) = (sum_list (map f xs) :: 'b :: comm_monoid_add)"
  by (induction xs) (auto simp: algebra_simps split: if_splits)

lemma sum_list_mset_cong:
  "mset xs = mset ys \<Longrightarrow> sum_list (xs :: 'a :: comm_monoid_add list) = sum_list ys"
  by (metis sum_mset_sum_list)


section \<open>Words read as natural numbers\<close>

text \<open>
  Amounts are added in \<open>uint64_t\<close>. A wrapping sum is the sum of the values modulo \<open>2 ^ 64\<close>;
  where the mathematical sum fits, it is that sum.
\<close>

definition total :: "u64 list \<Rightarrow> nat" where
  "total xs = sum_list (map unat xs)"

lemma total_simps [simp]: "total [] = 0" "total (x # xs) = unat x + total xs"
  "total (xs @ ys) = total xs + total ys"
  by (simp_all add: total_def)

lemma unat_sum_list_mod: "unat (sum_list xs) = total xs mod 2 ^ 64"
proof (induction xs)
  case (Cons x xs)
  have "unat (sum_list (x # xs)) = (unat x + unat (sum_list xs)) mod 2 ^ 64"
    by (simp add: unat_word_ariths)
  also have "\<dots> = (unat x + total xs) mod 2 ^ 64"
    unfolding Cons.IH by (rule mod_add_right_eq)
  finally show ?case by simp
qed simp

lemma unat_sum_list: "total xs < 2 ^ 64 \<Longrightarrow> unat (sum_list xs) = total xs"
  by (simp add: unat_sum_list_mod)

lemma foldl_plus_sum_list: "foldl (\<lambda>s x. s + f x) a xs = a + (sum_list (map f xs) :: 'b :: comm_monoid_add)"
  by (induction xs arbitrary: a) (auto simp: algebra_simps)

lemma unat_lt_u64 [simp]: "unat (x :: u64) < 18446744073709551616"
  using unsigned_less [of x, where ?'a = nat] by simp

lemma unat_lt_u32 [simp]: "unat (x :: u32) < 4294967296"
  using unsigned_less [of x, where ?'a = nat] by simp

lemma unat_lt_u16 [simp]: "unat (x :: u16) < 65536"
  using unsigned_less [of x, where ?'a = nat] by simp

lemma unat_lt_u8 [simp]: "unat (x :: u8) < 256"
  using unsigned_less [of x, where ?'a = nat] by simp

lemma unat_sub_ge: "(b :: 'a :: len word) \<le> a \<Longrightarrow> unat (a - b) = unat a - unat b"
  by (rule unat_sub)

lemma unat_ucast: "unat (ucast (w :: 'a :: len word) :: 'b :: len word) = unat w mod 2 ^ LENGTH('b)"
  unfolding unsigned_ucast_eq by (rule take_bit_eq_mod)

lemma unat_ucast_up:
  assumes "LENGTH('a) \<le> LENGTH('b)"
  shows "unat (ucast (w :: 'a :: len word) :: 'b :: len word) = unat w"
proof -
  have "unat w < 2 ^ LENGTH('b)"
    by (rule less_le_trans [OF unsigned_less power_increasing [OF assms]]) simp
  then show ?thesis by (simp add: unat_ucast)
qed

lemma unat_word_of_nat: "n < 2 ^ LENGTH('a) \<Longrightarrow> unat (word_of_nat n :: 'a :: len word) = n"
  by (simp add: unat_of_nat)

lemma unat_drop_bit: "unat (drop_bit n (w :: 'a :: len word)) = unat w div 2 ^ n"
  unfolding unat_drop_bit_eq by (rule drop_bit_eq_div)

lemma unat_take_bit: "unat (take_bit n (w :: 'a :: len word)) = unat w mod 2 ^ n"
  unfolding unsigned_take_bit_eq by (rule take_bit_eq_mod)

lemma unat_push_bit: "unat (push_bit n (w :: 'a :: len word)) = (unat w * 2 ^ n) mod 2 ^ LENGTH('a)"
  unfolding unsigned_push_bit_eq unfolding take_bit_eq_mod push_bit_eq_mult ..

lemma unat_or_push_bit:
  fixes a b :: "'a :: len word"
  assumes a: "unat a < 2 ^ n" and fits: "unat a + unat b * 2 ^ n < 2 ^ LENGTH('a)"
  shows "unat (a OR push_bit n b) = unat a + unat b * 2 ^ n"
proof -
  have "unat (take_bit n a) = unat a" using a by (simp only: unat_take_bit mod_less)
  then have "a = take_bit n a" by (simp only: word_unat_eq_iff)
  then have "a AND push_bit n b = take_bit n a AND push_bit n b" by simp
  also have "\<dots> = 0"
    by (rule bit_eqI) (auto simp: bit_simps)
  finally have "a OR push_bit n b = a + push_bit n b"
    by (rule disjunctive_add_eq_or [symmetric])
  moreover note unat_push_bit [of n b]
  moreover have "unat b * 2 ^ n < 2 ^ LENGTH('a)" using fits by simp
  ultimately show ?thesis
    using unat_add_lem [of a "push_bit n b"] fits by simp
qed

lemma nat_shift_less: "l < B \<Longrightarrow> l + B * X < B * Y \<longleftrightarrow> X < (Y :: nat)"
proof
  assume "l + B * X < B * Y"
  then have "B * X < B * Y" by linarith
  then show "X < Y" by simp
next
  assume l: "l < B" and "X < Y"
  then have "B * Suc X \<le> B * Y" by (intro mult_le_mono2) simp
  with l show "l + B * X < B * Y" by simp
qed

text \<open>A digit string that fits leaves room for one more digit below it.\<close>

lemma shifted_sum_fits:
  assumes "m * 2 ^ s < 2 ^ (w :: nat)" and "s \<le> w" and "(a :: nat) < 2 ^ s" and "x \<le> m"
  shows "a + x * 2 ^ s < 2 ^ w"
proof -
  have w: "(2 :: nat) ^ w = 2 ^ s * 2 ^ (w - s)" using assms(2) by (simp flip: power_add)
  with assms(1) have "2 ^ s * m < 2 ^ s * 2 ^ (w - s)" by (simp only: mult.commute)
  then have "m < 2 ^ (w - s)" by simp
  with assms(4) have "x < 2 ^ (w - s)" by simp
  with nat_shift_less [OF assms(3), of x] show ?thesis
    unfolding w by (simp only: mult.commute [of x])
qed

lemma nat_add_carry:
  "a < m \<Longrightarrow> b < m \<Longrightarrow> a + b = (if m \<le> a + b then m else 0) + (a + b) mod (m :: nat)"
  by (auto simp: le_mod_geq)

text \<open>The guard \<open>money > amount + money\<close> is the code's test for a wrapping addition.\<close>

lemma add_wraps_iff: "(a :: u64) > b + a \<longleftrightarrow> 2 ^ 64 \<le> unat a + unat b"
proof -
  have "a \<le> a + b \<longleftrightarrow> unat a + unat b < 2 ^ 64"
    using no_plus_overflow_unat_size [of a b] by (simp add: word_size)
  then show ?thesis by (simp only: add.commute [of b a] not_le [symmetric]) auto
qed

lemma unat_add_fits: "unat (a :: u64) + unat b < 2 ^ 64 \<Longrightarrow> unat (a + b) = unat a + unat b"
  by (simp add: unat_add_lem [THEN iffD1])

lemma product_fits:
  assumes "unat (hi :: u64) * 2 ^ 64 + unat (lo :: u64) = p" and "p < 2 ^ 64"
  shows "hi = 0" "unat lo = p"
proof -
  have "unat hi = 0" using assms by (cases "unat hi") simp_all
  then show "hi = 0" by (simp only: unat_eq_zero)
  with assms show "unat lo = p" by simp
qed

lemma mod_neg_shift: "(k :: int) < 0 \<Longrightarrow> 0 \<le> k + l \<Longrightarrow> k mod l = k + l"
  using mod_pos_pos_trivial [of "k + l" l] by simp

lemma int_unat_word_of_int: "int (unat (word_of_int v :: 'a :: len word)) = v mod 2 ^ LENGTH('a)"
  by (simp add: unsigned_of_int take_bit_eq_mod)


section \<open>Positional notation\<close>

text \<open>The \<open>k\<close> lowest digits of a number in base \<open>B\<close>, the most significant first, and back.\<close>

fun digits :: "nat \<Rightarrow> nat \<Rightarrow> nat \<Rightarrow> nat list" where
  "digits B 0 n = []"
| "digits B (Suc k) n = digits B k (n div B) @ [n mod B]"

definition of_digits :: "nat \<Rightarrow> nat list \<Rightarrow> nat" where
  "of_digits B ds = foldl (\<lambda>a d. a * B + d) 0 ds"

lemma of_digits_simps [simp]:
  "of_digits B [] = 0" "of_digits B (ds @ [d]) = of_digits B ds * B + d"
  by (simp_all add: of_digits_def)

lemma length_digits [simp]: "length (digits B k n) = k"
  by (induction k arbitrary: n) auto

lemma digits_less: "0 < B \<Longrightarrow> d \<in> set (digits B k n) \<Longrightarrow> d < B"
  by (induction k arbitrary: n) auto

lemma of_digits_digits: "of_digits B (digits B k n) = n mod B ^ k"
proof (induction k arbitrary: n)
  case (Suc k)
  have "n mod (B * B ^ k) = B * (n div B mod B ^ k) + n mod B" by (rule mod_mult2_eq)
  then show ?case using Suc by (simp add: mult.commute)
qed simp

lemma of_digits_less: "\<forall>d \<in> set ds. d < B \<Longrightarrow> of_digits B ds < B ^ length ds"
proof (induction ds rule: rev_induct)
  case (snoc d ds)
  then have "Suc (of_digits B ds) * B \<le> B ^ length ds * B" by (intro mult_le_mono1) auto
  with snoc.prems show ?case by (simp add: mult.commute)
qed simp

lemma digits_of_digits: "\<forall>d \<in> set ds. d < B \<Longrightarrow> digits B (length ds) (of_digits B ds) = ds"
proof (induction ds rule: rev_induct)
  case (snoc d ds)
  then have "(of_digits B ds * B + d) div B = of_digits B ds" "(of_digits B ds * B + d) mod B = d" by auto
  with snoc show ?case by simp
qed simp

lemma digits_zero: "digits B k 0 = replicate k 0"
  by (induction k) (simp_all add: replicate_append_same)

lemma digits_nth: "digits B k n = map (\<lambda>i. n div B ^ i mod B) (rev [0..<k])"
proof (induction k arbitrary: n)
  case (Suc k)
  have "rev [0..<Suc k] = map Suc (rev [0..<k]) @ [0]"
    by (simp only: upt_conv_Cons [of 0 "Suc k"] map_Suc_upt [symmetric] rev_map rev.simps zero_less_Suc)
  then show ?case using Suc by (simp add: div_mult2_eq)
qed simp


section \<open>Association lists with distinct keys\<close>

abbreviation keys :: "('k \<times> 'v) list \<Rightarrow> 'k list" where
  "keys m \<equiv> map fst m"

lemma keys_map_snd [simp]: "keys (map (\<lambda>(k, v). (k, f k v)) m) = keys m"
  by (induction m) auto

lemma map_of_map_snd: "map_of (map (\<lambda>(k, v). (k, f k v)) m) k = map_option (f k) (map_of m k)"
  by (induction m) auto

lemma set_keys_update: "set (keys (AList.update k v m)) = insert k (set (keys m))"
  by (simp add: dom_map_of_conv_image_fst [symmetric] AList.update_conv')

lemma distinct_keys_update: "distinct (keys m) \<Longrightarrow> distinct (keys (AList.update k v m))"
  by (rule distinct_update)

lemma update_new_append: "map_of m k = None \<Longrightarrow> AList.update k v m = m @ [(k, v)]"
  by (induction m) (auto split: if_splits)

end
