(* ===== verification/Config.thy ===== *)
theory Config
  imports Prelude
begin

text \<open>
  The consensus and wallet parameters the modelled code reads: \<open>src/config/CryptoNoteConfig.h\<close>,
  \<open>src/config/Constants.h\<close> and \<open>src/walletbackend/Constants.h\<close>, under the names they have there.
  Every definition is in the collection \<open>config\<close>, so that a proof that depends on a value says
  so by naming that collection.
\<close>

named_theorems config \<open>the values of the compile-time parameters\<close>


section \<open>Consensus parameters\<close>

definition DIFFICULTY_TARGET :: u64 where [config]: "DIFFICULTY_TARGET = 10"
definition DIFFICULTY_TARGET_V2 :: u64 where [config]: "DIFFICULTY_TARGET_V2 = 20"
definition DIFFICULTY_TARGET_V3 :: u64 where [config]: "DIFFICULTY_TARGET_V3 = 300"
definition DIFFICULTY_TARGET_V2_HEIGHT :: u64 where [config]: "DIFFICULTY_TARGET_V2_HEIGHT = 700000"
definition DIFFICULTY_TARGET_V3_HEIGHT :: u64 where [config]: "DIFFICULTY_TARGET_V3_HEIGHT = 2325000"
definition CRYPTONOTE_MAX_BLOCK_NUMBER :: u64 where [config]: "CRYPTONOTE_MAX_BLOCK_NUMBER = 500000000"
definition CRYPTONOTE_PUBLIC_ADDRESS_BASE58_PREFIX :: u64 where [config]: "CRYPTONOTE_PUBLIC_ADDRESS_BASE58_PREFIX = 8411"
definition CRYPTONOTE_MINED_MONEY_UNLOCK_WINDOW :: u32 where [config]: "CRYPTONOTE_MINED_MONEY_UNLOCK_WINDOW = 120"
definition CRYPTONOTE_MINED_MONEY_UNLOCK_WINDOW_V2 :: u32 where [config]: "CRYPTONOTE_MINED_MONEY_UNLOCK_WINDOW_V2 = 8"
definition CRYPTONOTE_MINED_MONEY_UNLOCK_WINDOW_V2_HEIGHT :: u64 where [config]: "CRYPTONOTE_MINED_MONEY_UNLOCK_WINDOW_V2_HEIGHT = 2325000"
definition CRYPTONOTE_BLOCK_FUTURE_TIME_LIMIT :: u64 where [config]: "CRYPTONOTE_BLOCK_FUTURE_TIME_LIMIT = 6 * DIFFICULTY_TARGET_V3"
definition MONEY_SUPPLY :: u64 where [config]: "MONEY_SUPPLY = 10000000000000000"
definition EMISSION_SPEED_FACTOR :: nat where [config]: "EMISSION_SPEED_FACTOR = 23"
definition EMISSION_SPEED_FACTOR_V2 :: nat where [config]: "EMISSION_SPEED_FACTOR_V2 = 24"
definition EMISSION_SPEED_FACTOR_V2_HEIGHT :: u64 where [config]: "EMISSION_SPEED_FACTOR_V2_HEIGHT = 700000"
definition GENESIS_BLOCK_TIMESTAMP :: u64 where [config]: "GENESIS_BLOCK_TIMESTAMP = 1545261161"
definition CRYPTONOTE_BLOCK_GRANTED_FULL_REWARD_ZONE :: u64 where [config]: "CRYPTONOTE_BLOCK_GRANTED_FULL_REWARD_ZONE = 100000"
definition CRYPTONOTE_BLOCK_GRANTED_FULL_REWARD_ZONE_V2 :: u64 where [config]: "CRYPTONOTE_BLOCK_GRANTED_FULL_REWARD_ZONE_V2 = 20000"
definition CRYPTONOTE_BLOCK_GRANTED_FULL_REWARD_ZONE_V1 :: u64 where [config]: "CRYPTONOTE_BLOCK_GRANTED_FULL_REWARD_ZONE_V1 = 10000"
definition CRYPTONOTE_COINBASE_BLOB_RESERVED_SIZE :: u64 where [config]: "CRYPTONOTE_COINBASE_BLOB_RESERVED_SIZE = 600"
definition CRYPTONOTE_DISPLAY_DECIMAL_POINT :: nat where [config]: "CRYPTONOTE_DISPLAY_DECIMAL_POINT = 2"
definition MINIMUM_FEE :: u64 where [config]: "MINIMUM_FEE = 10"
definition MINIMUM_FEE_V1 :: u64 where [config]: "MINIMUM_FEE_V1 = 1000000"
definition MINIMUM_FEE_V1_HEIGHT :: u64 where [config]: "MINIMUM_FEE_V1_HEIGHT = 1470000"
definition MINIMUM_FEE_V2 :: u64 where [config]: "MINIMUM_FEE_V2 = 10000"
definition MINIMUM_FEE_V2_HEIGHT :: u64 where [config]: "MINIMUM_FEE_V2_HEIGHT = 2517000"
definition MINIMUM_MIXIN_V1 :: u64 where [config]: "MINIMUM_MIXIN_V1 = 0"
definition MAXIMUM_MIXIN_V1 :: u64 where [config]: "MAXIMUM_MIXIN_V1 = 3"
definition MIXIN_LIMITS_V1_HEIGHT :: u64 where [config]: "MIXIN_LIMITS_V1_HEIGHT = 1470000"
definition DEFAULT_MIXIN_V0 :: u64 where [config]: "DEFAULT_MIXIN_V0 = 3"
definition DEFAULT_MIXIN_V1 :: u64 where [config]: "DEFAULT_MIXIN_V1 = 1"
definition DEFAULT_DUST_THRESHOLD :: u64 where [config]: "DEFAULT_DUST_THRESHOLD = 0"
definition DIFFICULTY_WINDOW :: nat where [config]: "DIFFICULTY_WINDOW = 60"
definition DIFFICULTY_CUT :: nat where [config]: "DIFFICULTY_CUT = 0"
definition DIFFICULTY_CUT_V1 :: nat where [config]: "DIFFICULTY_CUT_V1 = 60"
definition DIFFICULTY_CUT_V2 :: nat where [config]: "DIFFICULTY_CUT_V2 = 60"
definition DIFFICULTY_LAG :: nat where [config]: "DIFFICULTY_LAG = 0"
definition DIFFICULTY_LAG_V1 :: nat where [config]: "DIFFICULTY_LAG_V1 = 15"
definition DIFFICULTY_LAG_V2 :: nat where [config]: "DIFFICULTY_LAG_V2 = 15"
definition MAX_BLOCK_SIZE_INITIAL :: u64 where [config]: "MAX_BLOCK_SIZE_INITIAL = 100000"
definition MAX_BLOCK_SIZE_V1_HEIGHT :: u64 where [config]: "MAX_BLOCK_SIZE_V1_HEIGHT = 2361823"
definition MAX_BLOCK_SIZE_V1 :: u64 where [config]: "MAX_BLOCK_SIZE_V1 = 614400"
definition MAX_BLOCK_SIZE_GROWTH_SPEED_NUMERATOR :: u64 where [config]: "MAX_BLOCK_SIZE_GROWTH_SPEED_NUMERATOR = 100 * 1024"
definition MAX_BLOCK_SIZE_GROWTH_SPEED_DENOMINATOR :: u64 where [config]: "MAX_BLOCK_SIZE_GROWTH_SPEED_DENOMINATOR = 365 * 24 * 60 * 60 div DIFFICULTY_TARGET_V3"
definition MAX_EXTRA_SIZE :: u64 where [config]: "MAX_EXTRA_SIZE = 140000"
definition MAX_EXTRA_SIZE_V2 :: u64 where [config]: "MAX_EXTRA_SIZE_V2 = 1024"
definition MAX_EXTRA_SIZE_V2_HEIGHT :: u64 where [config]: "MAX_EXTRA_SIZE_V2_HEIGHT = 700000"
definition MAX_EXTRA_SIZE_V3 :: u64 where [config]: "MAX_EXTRA_SIZE_V3 = 512"
definition MAX_EXTRA_SIZE_V3_HEIGHT :: u64 where [config]: "MAX_EXTRA_SIZE_V3_HEIGHT = 1470000"
definition TRANSACTION_POW_HEIGHT :: u64 where [config]: "TRANSACTION_POW_HEIGHT = 2370000"
definition TRANSACTION_POW_DIFFICULTY :: u64 where [config]: "TRANSACTION_POW_DIFFICULTY = 17000"
definition TRANSACTION_SIGNATURE_COUNT_VALIDATION_HEIGHT :: u64 where [config]: "TRANSACTION_SIGNATURE_COUNT_VALIDATION_HEIGHT = 700000"
definition TRANSACTION_INPUT_BLOCKTIME_VALIDATION_HEIGHT :: u64 where [config]: "TRANSACTION_INPUT_BLOCKTIME_VALIDATION_HEIGHT = 1600000"
definition CRYPTONOTE_LOCKED_TX_ALLOWED_DELTA_BLOCKS :: u64 where [config]: "CRYPTONOTE_LOCKED_TX_ALLOWED_DELTA_BLOCKS = 1"
definition CRYPTONOTE_LOCKED_TX_ALLOWED_DELTA_SECONDS :: u64 where [config]: "CRYPTONOTE_LOCKED_TX_ALLOWED_DELTA_SECONDS = DIFFICULTY_TARGET_V3 * CRYPTONOTE_LOCKED_TX_ALLOWED_DELTA_BLOCKS"
definition FUSION_TX_MAX_SIZE :: u64 where [config]: "FUSION_TX_MAX_SIZE = CRYPTONOTE_BLOCK_GRANTED_FULL_REWARD_ZONE * 30 div 100"
definition FUSION_TX_MIN_INPUT_COUNT :: u64 where [config]: "FUSION_TX_MIN_INPUT_COUNT = 12"
definition FUSION_TX_MIN_IN_OUT_COUNT_RATIO :: u64 where [config]: "FUSION_TX_MIN_IN_OUT_COUNT_RATIO = 4"
definition FUSION_FEE_V1_HEIGHT :: u64 where [config]: "FUSION_FEE_V1_HEIGHT = 2325000"
definition FUSION_FEE_V1_EXIT_HEIGHT :: u64 where [config]: "FUSION_FEE_V1_EXIT_HEIGHT = 2361823"
definition FUSION_FEE_V1 :: u64 where [config]: "FUSION_FEE_V1 = 1000000"
definition UPGRADE_HEIGHT_V2 :: u32 where [config]: "UPGRADE_HEIGHT_V2 = 1"
definition UPGRADE_HEIGHT_V3 :: u32 where [config]: "UPGRADE_HEIGHT_V3 = 2"
definition UPGRADE_HEIGHT_V4 :: u32 where [config]: "UPGRADE_HEIGHT_V4 = 3"
definition UPGRADE_HEIGHT_V5 :: u32 where [config]: "UPGRADE_HEIGHT_V5 = 4"
definition UPGRADE_HEIGHT_V6 :: u32 where [config]: "UPGRADE_HEIGHT_V6 = 2325000"
definition UPGRADE_HEIGHT_V7 :: u32 where [config]: "UPGRADE_HEIGHT_V7 = 2420000"
definition INPUT_NOT_SENDING :: u64 where [config]: "INPUT_NOT_SENDING = 1000"
definition TRANSACTION_VERSION_1 :: u8 where [config]: "TRANSACTION_VERSION_1 = 1"
definition TRANSACTION_VERSION_2 :: u8 where [config]: "TRANSACTION_VERSION_2 = 2"
definition CURRENT_TRANSACTION_VERSION :: u8 where [config]: "CURRENT_TRANSACTION_VERSION = TRANSACTION_VERSION_1"
definition BLOCK_MAJOR_VERSION_1 :: u8 where [config]: "BLOCK_MAJOR_VERSION_1 = 1"
definition BLOCK_MAJOR_VERSION_2 :: u8 where [config]: "BLOCK_MAJOR_VERSION_2 = 2"
definition BLOCK_MAJOR_VERSION_3 :: u8 where [config]: "BLOCK_MAJOR_VERSION_3 = 3"
definition BLOCK_MAJOR_VERSION_4 :: u8 where [config]: "BLOCK_MAJOR_VERSION_4 = 4"
definition BLOCK_MAJOR_VERSION_5 :: u8 where [config]: "BLOCK_MAJOR_VERSION_5 = 5"
definition BLOCK_MAJOR_VERSION_6 :: u8 where [config]: "BLOCK_MAJOR_VERSION_6 = 6"
definition BLOCK_MAJOR_VERSION_7 :: u8 where [config]: "BLOCK_MAJOR_VERSION_7 = 7"
definition RPC_DEFAULT_PORT :: u16 where [config]: "RPC_DEFAULT_PORT = 6969"

definition CRYPTONOTE_MAX_BLOCK_BLOB_SIZE :: u64 where [config]: "CRYPTONOTE_MAX_BLOCK_BLOB_SIZE = 500000000"
definition CRYPTONOTE_MAX_TX_SIZE :: u64 where [config]: "CRYPTONOTE_MAX_TX_SIZE = 1000000000"
definition BLOCKCHAIN_TIMESTAMP_CHECK_WINDOW :: u64 where [config]: "BLOCKCHAIN_TIMESTAMP_CHECK_WINDOW = 11"
definition CRYPTONOTE_REWARD_BLOCKS_WINDOW :: u64 where [config]: "CRYPTONOTE_REWARD_BLOCKS_WINDOW = 100"
definition EXPECTED_NUMBER_OF_BLOCKS_PER_DAY :: u64 where [config]: "EXPECTED_NUMBER_OF_BLOCKS_PER_DAY = 24 * 60 * 60 div DIFFICULTY_TARGET_V3"
definition CRYPTONOTE_MEMPOOL_TX_LIVETIME :: u64 where [config]: "CRYPTONOTE_MEMPOOL_TX_LIVETIME = 60 * 60 * 24"
definition CRYPTONOTE_MEMPOOL_TX_FROM_ALT_BLOCK_LIVETIME :: u64 where [config]: "CRYPTONOTE_MEMPOOL_TX_FROM_ALT_BLOCK_LIVETIME = 60 * 60 * 24 * 7"
definition CRYPTONOTE_NUMBER_OF_PERIODS_TO_FORGET_TX_DELETED_FROM_POOL :: u64 where [config]: "CRYPTONOTE_NUMBER_OF_PERIODS_TO_FORGET_TX_DELETED_FROM_POOL = 7"
definition FUSION_TX_MAX_POOL_COUNT :: u64 where [config]: "FUSION_TX_MAX_POOL_COUNT = 130"
definition UPGRADE_VOTING_THRESHOLD :: u32 where [config]: "UPGRADE_VOTING_THRESHOLD = 90"
definition UPGRADE_VOTING_WINDOW :: u32 where [config]: "UPGRADE_VOTING_WINDOW = ucast EXPECTED_NUMBER_OF_BLOCKS_PER_DAY"
definition UPGRADE_WINDOW :: u32 where [config]: "UPGRADE_WINDOW = ucast EXPECTED_NUMBER_OF_BLOCKS_PER_DAY"
definition BLOCK_MINOR_VERSION_0 :: u8 where [config]: "BLOCK_MINOR_VERSION_0 = 0"
definition BLOCK_MINOR_VERSION_1 :: u8 where [config]: "BLOCK_MINOR_VERSION_1 = 1"

text \<open>The coinbase transaction of the genesis block.\<close>

definition GENESIS_COINBASE_TX_HEX :: string where
  "GENESIS_COINBASE_TX_HEX =
     ''010a01ff000188f3b501029b2e4c0281c0b02e7c53291a94d1d0cbff8883f8024f51'' @
     ''42ee494ffbbd088071210142694232c5b04151d9e4c27d31ec7a68ea568b19488cfcb422659a07a0e44dd5''"


section \<open>Wallet and transaction-extra constants\<close>

definition LAST_KNOWN_BLOCK_HASHES_SIZE :: nat where [config]: "LAST_KNOWN_BLOCK_HASHES_SIZE = 50"
definition BLOCK_HASH_CHECKPOINTS_INTERVAL :: u64 where [config]: "BLOCK_HASH_CHECKPOINTS_INTERVAL = 5000"
definition TX_EXTRA_PAYMENT_ID_IDENTIFIER :: u8 where [config]: "TX_EXTRA_PAYMENT_ID_IDENTIFIER = 0x00"
definition TX_EXTRA_PUBKEY_IDENTIFIER :: u8 where [config]: "TX_EXTRA_PUBKEY_IDENTIFIER = 0x01"
definition TX_EXTRA_NONCE_IDENTIFIER :: u8 where [config]: "TX_EXTRA_NONCE_IDENTIFIER = 0x02"
definition TX_EXTRA_MERGE_MINING_IDENTIFIER :: u8 where [config]: "TX_EXTRA_MERGE_MINING_IDENTIFIER = 0x03"
definition TX_EXTRA_TRANSACTION_POW_NONCE_IDENTIFIER :: u8 where [config]: "TX_EXTRA_TRANSACTION_POW_NONCE_IDENTIFIER = 0x04"
definition TX_EXTRA_ARBITRARY_DATA_IDENTIFIER :: u8 where [config]: "TX_EXTRA_ARBITRARY_DATA_IDENTIFIER = 0x7f"
definition NULL_HASH :: hash where [config]: "NULL_HASH = replicate 32 0"
definition NULL_PUBLIC_KEY :: public_key where [config]: "NULL_PUBLIC_KEY = replicate 32 0"
definition NULL_SECRET_KEY :: secret_key where [config]: "NULL_SECRET_KEY = replicate 32 0"

text \<open>The denominations outputs are made of, as the table is written in the source.\<close>

definition PRETTY_AMOUNTS :: "u64 list" where
  "PRETTY_AMOUNTS = [
    1, 2, 3, 4, 5, 6, 7, 8, 9, 10, 20, 30, 40, 50, 60, 70, 80, 90, 100, 200, 300, 400, 500, 600,
    700, 800, 900, 1000, 2000, 3000, 4000, 5000, 6000, 7000, 8000, 9000, 10000, 20000, 30000,
    40000, 50000, 60000, 70000, 80000, 90000, 100000, 200000, 300000, 400000, 500000, 600000,
    700000, 800000, 900000, 1000000, 2000000, 3000000, 4000000, 5000000, 6000000, 7000000,
    8000000, 9000000, 10000000, 20000000, 30000000, 40000000, 50000000, 60000000, 70000000,
    80000000, 90000000, 100000000, 200000000, 300000000, 400000000, 500000000, 600000000,
    700000000, 800000000, 900000000, 1000000000, 2000000000, 3000000000, 4000000000, 5000000000,
    6000000000, 7000000000, 8000000000, 9000000000, 10000000000, 20000000000, 30000000000,
    40000000000, 50000000000, 60000000000, 70000000000, 80000000000, 90000000000, 100000000000,
    200000000000, 300000000000, 400000000000, 500000000000, 600000000000, 700000000000,
    800000000000, 900000000000, 1000000000000, 2000000000000, 3000000000000, 4000000000000,
    5000000000000, 6000000000000, 7000000000000, 8000000000000, 9000000000000, 10000000000000,
    20000000000000, 30000000000000, 40000000000000, 50000000000000, 60000000000000,
    70000000000000, 80000000000000, 90000000000000, 100000000000000, 200000000000000,
    300000000000000, 400000000000000, 500000000000000, 600000000000000, 700000000000000,
    800000000000000, 900000000000000, 1000000000000000, 2000000000000000, 3000000000000000,
    4000000000000000, 5000000000000000, 6000000000000000, 7000000000000000, 8000000000000000,
    9000000000000000, 10000000000000000, 20000000000000000, 30000000000000000, 40000000000000000,
    50000000000000000, 60000000000000000, 70000000000000000, 80000000000000000,
    90000000000000000, 100000000000000000, 200000000000000000, 300000000000000000,
    400000000000000000, 500000000000000000, 600000000000000000, 700000000000000000,
    800000000000000000, 900000000000000000, 1000000000000000000, 2000000000000000000,
    3000000000000000000, 4000000000000000000, 5000000000000000000, 6000000000000000000,
    7000000000000000000, 8000000000000000000, 9000000000000000000, 10000000000000000000]"


section \<open>Parameters that depend on the height\<close>

definition getCurrentDifficultyTarget :: "u64 \<Rightarrow> u64" where
  "getCurrentDifficultyTarget networkHeight =
     (if networkHeight \<ge> DIFFICULTY_TARGET_V3_HEIGHT then DIFFICULTY_TARGET_V3
      else if networkHeight \<ge> DIFFICULTY_TARGET_V2_HEIGHT then DIFFICULTY_TARGET_V2
      else DIFFICULTY_TARGET)"

end
