(* ===== verification/IntUtil.thy ===== *)
theory IntUtil
  imports Config
begin

text \<open>
  The 128-bit arithmetic under the consensus rules: \<open>mul128\<close>, \<open>div_with_reminder\<close> and
  \<open>div128_32\<close> of \<open>src/common/int-util.h\<close>, the proof-of-work test \<open>check_hash\<close> of
  \<open>src/common/CheckDifficulty.cpp\<close>, and \<open>getPenalizedAmount\<close> of
  \<open>src/cryptonotecore/CryptoNoteBasicImpl.cpp\<close>, which cuts the reward of a block that is larger
  than the median. Each is shown equal to the arithmetic on unbounded integers it stands for.

  A division by zero traps in C++; the division routines here return an option, \<open>None\<close> being that
  trap. The \<open>assert\<close>s of \<open>getPenalizedAmount\<close> are branches to \<open>None\<close> as well, so that a theorem
  that it returns \<open>Some\<close> shows that no assertion fails.
\<close>

unbundle bit_operations_syntax


section \<open>64 by 64 multiplication, 128 by 32 division\<close>

definition hi_dword :: "u64 \<Rightarrow> u64" where
  "hi_dword val = drop_bit 32 val"

definition lo_dword :: "u64 \<Rightarrow> u64" where
  "lo_dword val = val AND 0xFFFFFFFF"

text \<open>The product as \<open>(product_lo, product_hi)\<close>.\<close>

definition mul128 :: "u64 \<Rightarrow> u64 \<Rightarrow> u64 \<times> u64" where
  "mul128 multiplier multiplicand =
     (let a = hi_dword multiplier;
          b = lo_dword multiplier;
          c = hi_dword multiplicand;
          d = lo_dword multiplicand;
          ac = a * c;
          ad = a * d;
          bc = b * c;
          bd = b * d;
          adbc = ad + bc;
          adbc_carry = (if adbc < ad then 1 else 0);
          product_lo = bd + push_bit 32 adbc;
          product_lo_carry = (if product_lo < bd then 1 else 0);
          product_hi = ac + drop_bit 32 adbc + push_bit 32 adbc_carry + product_lo_carry
      in (product_lo, product_hi))"

text \<open>One digit of the long division: the quotient and the new remainder.\<close>

definition div_with_reminder :: "u64 \<Rightarrow> u32 \<Rightarrow> u32 \<Rightarrow> (u64 \<times> u32) option" where
  "div_with_reminder dividend divisor remainder =
     (let dividend' = dividend OR push_bit 32 (ucast remainder)
      in if divisor = 0 then None
         else Some (dividend' div ucast divisor, ucast (dividend' mod ucast divisor)))"

text \<open>Long division in base \<open>2 ^ 32\<close>: \<open>(remainder, quotient_hi, quotient_lo)\<close>.\<close>

definition div128_32 :: "u64 \<Rightarrow> u64 \<Rightarrow> u32 \<Rightarrow> (u32 \<times> u64 \<times> u64) option" where
  "div128_32 dividend_hi dividend_lo divisor =
     Option.bind (div_with_reminder (hi_dword dividend_hi) divisor 0) (\<lambda>(q3, r3).
     Option.bind (div_with_reminder (lo_dword dividend_hi) divisor r3) (\<lambda>(q2, r2).
     Option.bind (div_with_reminder (hi_dword dividend_lo) divisor r2) (\<lambda>(q1, r1).
     Option.bind (div_with_reminder (lo_dword dividend_lo) divisor r1) (\<lambda>(q0, r0).
       Some (r0, push_bit 32 q3 OR q2, push_bit 32 q1 OR q0)))))"


section \<open>Proof of work\<close>

text \<open>The \<open>i\<close>-th little-endian 64-bit word of a 32-byte hash.\<close>

fun le_nat :: "bytes \<Rightarrow> nat" where
  "le_nat [] = 0"
| "le_nat (b # bs) = unat b + 256 * le_nat bs"

definition hash_word :: "hash \<Rightarrow> nat \<Rightarrow> u64" where
  "hash_word h i = word_of_nat (le_nat (take 8 (drop (8 * i) h)))"

text \<open>The build uses the \<open>__int128\<close> variant where the compiler has it: \<open>(low, high)\<close>.\<close>

definition mul :: "u64 \<Rightarrow> u64 \<Rightarrow> u64 \<times> u64" where
  "mul a b =
     (let res = (ucast a :: 128 word) * ucast b
      in (ucast res, ucast (drop_bit 64 res)))"

definition cadd :: "u64 \<Rightarrow> u64 \<Rightarrow> bool" where
  "cadd a b \<longleftrightarrow> a + b < a"

definition cadc :: "u64 \<Rightarrow> u64 \<Rightarrow> bool \<Rightarrow> bool" where
  "cadc a b c \<longleftrightarrow> a + b < a \<or> (c \<and> a + b = -1)"

definition check_hash :: "hash \<Rightarrow> u64 \<Rightarrow> bool" where
  "check_hash hash difficulty =
     (let (top, high) = mul (hash_word hash 3) difficulty
      in if high \<noteq> 0 then False
         else
           let (_, cur) = mul (hash_word hash 0) difficulty;
               (low, high) = mul (hash_word hash 1) difficulty;
               carry = cadd cur low;
               cur = high;
               (low, high) = mul (hash_word hash 2) difficulty;
               carry = cadc cur low carry;
               carry = cadc high top carry
           in \<not> carry)"


section \<open>Penalised amounts\<close>

definition getPenalizedAmount :: "u64 \<Rightarrow> u64 \<Rightarrow> u64 \<Rightarrow> u64 option" where
  "getPenalizedAmount amount medianSize currentBlockSize =
     (if \<not> (currentBlockSize \<le> 2 * medianSize) \<or> \<not> (medianSize \<le> 0xFFFFFFFF)
         \<or> \<not> (currentBlockSize \<le> 0xFFFFFFFF) then None
      else if amount = 0 then Some 0
      else if currentBlockSize \<le> medianSize then Some amount
      else
        let (productLo, productHi) =
              mul128 amount (currentBlockSize * (2 * medianSize - currentBlockSize))
        in Option.bind (div128_32 productHi productLo (ucast medianSize)) (\<lambda>(_, hi, lo).
           Option.bind (div128_32 hi lo (ucast medianSize)) (\<lambda>(_, hi', lo').
             if 0 \<noteq> hi' \<or> \<not> (lo' < amount) then None else Some lo')))"


section \<open>Correctness of the 128-bit routines\<close>

text \<open>
  The proofs read every word as a natural number: a wrapping sum plus its carry is the sum.
\<close>

lemma unat_hi_dword: "unat (hi_dword v) = unat v div 2 ^ 32"
  unfolding hi_dword_def by (rule unat_drop_bit)

lemma lo_dword_mask: "lo_dword v = take_bit 32 v"
  by (simp add: lo_dword_def take_bit_eq_mask mask_eq_exp_minus_1)

lemma unat_lo_dword: "unat (lo_dword v) = unat v mod 2 ^ 32"
  unfolding lo_dword_mask by (rule unat_take_bit)

lemma unat_push_bit_32: "unat (push_bit 32 (v :: u64)) = (unat v mod 2 ^ 32) * 2 ^ 32"
proof -
  have "unat (push_bit 32 v) = (unat v * 2 ^ 32) mod 2 ^ (32 + 32)"
    using unat_push_bit [of 32 v] by simp
  then show ?thesis by (simp only: power_add mult_mod_left)
qed

lemma dword_split: "unat v = unat (hi_dword v) * 2 ^ 32 + unat (lo_dword v)"
  by (simp only: unat_hi_dword unat_lo_dword div_mult_mod_eq)

lemma dword_bounds: "unat (hi_dword v) < 2 ^ 32" "unat (lo_dword v) < 2 ^ 32"
  unfolding unat_hi_dword unat_lo_dword
  using unsigned_less [of v, where ?'a = nat] by (simp_all add: less_mult_imp_div_less)

lemma add_carry:
  "unat (x :: u64) + unat y = (if x + y < x then 2 ^ 64 else 0) + unat (x + y)"
proof -
  have w: "x + y < x \<longleftrightarrow> 2 ^ 64 \<le> unat x + unat y"
    using add_wraps_iff [of y x] by (simp only: add.commute)
  have m: "unat (x + y) = (unat x + unat y) mod 2 ^ 64"
    using unat_word_ariths(1) [of x y] by simp
  have "unat x < 2 ^ 64" "unat y < 2 ^ 64"
    by simp_all
  from nat_add_carry [OF this] show ?thesis unfolding w m .
qed

lemma unat_mult_dwords:
  assumes "unat (x :: u64) < 2 ^ 32" and "unat y < 2 ^ 32"
  shows "unat (x * y) = unat x * unat y"
proof -
  have "unat x * unat y < 2 ^ 32 * 2 ^ 32"
    by (rule mult_strict_mono) (use assms in simp_all)
  then have "unat x * unat y < 2 ^ LENGTH(64)" by simp
  then show ?thesis by (simp only: unat_mult_lem)
qed

lemma mul128_nat:
  fixes M A B C D :: nat
  assumes mid: "A * D + B * C = c1 * (M * M) + adbc"
    and low: "B * D + (adbc mod M) * M = c2 * (M * M) + lo"
  shows "(A * M + B) * (C * M + D) = (A * C + adbc div M + c1 * M + c2) * (M * M) + lo"
proof -
  have "(A * M + B) * (C * M + D) = A * C * (M * M) + (A * D + B * C) * M + B * D"
    by (simp add: algebra_simps)
  also have "\<dots> = A * C * (M * M) + c1 * M * (M * M) + adbc * M + B * D"
    unfolding mid by (simp add: algebra_simps)
  also have "\<dots> = (A * C + adbc div M + c1 * M) * (M * M) + (B * D + (adbc mod M) * M)"
  proof -
    define q r where qr: "q = adbc div M" "r = adbc mod M"
    then have "adbc = q * M + r" by simp
    then show ?thesis unfolding qr [symmetric] by (simp add: algebra_simps)
  qed
  finally show ?thesis unfolding low by (simp add: algebra_simps)
qed

lemma mul128_correct_aux:
  assumes "mul128 x y = (lo, hi)"
  shows "unat hi * 2 ^ 64 + unat lo = unat x * unat y"
proof -
  define a b c d where abcd: "a = hi_dword x" "b = lo_dword x" "c = hi_dword y" "d = lo_dword y"
  define adbc where adbc: "adbc = a * d + b * c"
  define c1 :: u64 where c1: "c1 = (if adbc < a * d then 1 else 0)"
  define l where l: "l = b * d + push_bit 32 adbc"
  define c2 :: u64 where c2: "c2 = (if l < b * d then 1 else 0)"
  from assms have lo: "lo = l" and hi: "hi = a * c + drop_bit 32 adbc + push_bit 32 c1 + c2"
    by (auto simp: mul128_def Let_def abcd adbc c1 l c2)
  let ?M = "2 ^ 32 :: nat"
  have MM: "?M * ?M = 2 ^ 64" by simp
  have dw: "unat (a * c) = unat a * unat c" "unat (a * d) = unat a * unat d"
    "unat (b * c) = unat b * unat c" "unat (b * d) = unat b * unat d"
    unfolding abcd by (intro unat_mult_dwords dword_bounds)+
  have "unat (a * d) + unat (b * c) = unat c1 * (?M * ?M) + unat adbc"
    using add_carry [of "a * d" "b * c"] unfolding MM adbc [symmetric] c1 by simp
  then have mid: "unat a * unat d + unat b * unat c = unat c1 * (?M * ?M) + unat adbc"
    by (simp only: dw)
  have "unat (b * d) + unat (push_bit 32 adbc) = unat c2 * (?M * ?M) + unat l"
    using add_carry [of "b * d" "push_bit 32 adbc"] unfolding MM l [symmetric] c2 by simp
  then have low: "unat b * unat d + (unat adbc mod ?M) * ?M = unat c2 * (?M * ?M) + unat l"
    by (simp only: dw unat_push_bit_32)
  define H where H: "H = unat a * unat c + unat adbc div ?M + unat c1 * ?M + unat c2"
  have prod: "unat x * unat y = H * 2 ^ 64 + unat lo"
    unfolding H lo MM [symmetric]
    unfolding dword_split [of x] dword_split [of y] abcd [symmetric]
    by (rule mul128_nat [OF mid low])
  have "unat x * unat y < 2 ^ 64 * 2 ^ 64"
    by (rule mult_strict_mono) simp_all
  with prod have "H * 2 ^ 64 < 2 ^ 64 * 2 ^ 64" by linarith
  then have "H < 2 ^ 64" by (simp only: mult_less_cancel2)
  moreover have "hi = word_of_nat H"
  proof -
    have "push_bit 32 c1 = word_of_nat (unat c1 * ?M)"
      unfolding c1 by (simp add: push_bit_eq_mult)
    moreover have "drop_bit 32 adbc = word_of_nat (unat adbc div ?M)"
      using unat_hi_dword [of adbc] by (simp only: hi_dword_def of_nat_unat flip: unat_hi_dword) simp
    ultimately show ?thesis unfolding hi H by simp
  qed
  ultimately have "unat hi = H" by (simp add: unat_of_nat)
  with prod show ?thesis by simp
qed
lemma mul_correct_aux:
  assumes "mul x y = (lo, hi)"
  shows "unat hi * 2 ^ 64 + unat lo = unat x * unat y"
proof -
  define res where res: "res = (ucast x :: 128 word) * ucast y"
  have u: "unat (ucast x :: 128 word) = unat x" "unat (ucast y :: 128 word) = unat y"
    by (simp_all add: unat_ucast_up)
  have "unat x * unat y < 2 ^ 64 * 2 ^ 64"
    by (rule mult_strict_mono) simp_all
  then have "unat (ucast x :: 128 word) * unat (ucast y :: 128 word) < 2 ^ LENGTH(128)"
    unfolding u by simp
  from unat_mult_lem [THEN iffD1, OF this] have r: "unat res = unat x * unat y"
    unfolding res u .
  have lo: "unat lo = unat res mod 2 ^ 64"
    using assms by (auto simp: mul_def Let_def res [symmetric] unat_ucast)
  have "unat res < 2 ^ 64 * 2 ^ 64" using unsigned_less [of res, where ?'a = nat] by simp
  then have "unat res div 2 ^ 64 < 2 ^ 64" by (rule less_mult_imp_div_less)
  then have "unat res div 2 ^ 64 mod 2 ^ 64 = unat res div 2 ^ 64" by (rule mod_less)
  moreover have "hi = ucast (drop_bit 64 res)"
    using assms unfolding mul_def Let_def res [symmetric] by (simp only: prod.inject)
  then have "unat hi = unat (drop_bit 64 res) mod 2 ^ LENGTH(64)"
    by (simp only: unat_ucast)
  then have "unat hi = unat res div 2 ^ 64 mod 2 ^ LENGTH(64)"
    unfolding unat_drop_bit_eq unfolding drop_bit_eq_div .
  ultimately have hi: "unat hi = unat res div 2 ^ 64" by simp
  show ?thesis unfolding lo hi r [symmetric] by (rule div_mult_mod_eq)
qed

text \<open>\<open>mul128\<close> computes the full 128-bit product of its operands, for every pair of operands.\<close>

lemma mul128_exact:
  "unat (snd (mul128 x y)) * 2 ^ 64 + unat (fst (mul128 x y)) = unat x * unat y"
  by (rule mul128_correct_aux) simp

lemma unat_or_dwords:
  assumes l: "unat (l :: u64) < 2 ^ 32" and h: "unat (h :: u64) < 2 ^ 32"
  shows "unat (push_bit 32 h OR l) = unat h * 2 ^ 32 + unat l"
    and "unat (l OR push_bit 32 h) = unat h * 2 ^ 32 + unat l"
proof -
  have "(unat h + 1) * 2 ^ 32 \<le> 2 ^ 32 * 2 ^ 32" using h by (intro mult_le_mono1) simp
  with l have "unat l + unat h * 2 ^ 32 < 2 ^ LENGTH(64)" by simp
  from unat_or_push_bit [OF l this]
  show "unat (l OR push_bit 32 h) = unat h * 2 ^ 32 + unat l" by (simp only: add.commute)
  then show "unat (push_bit 32 h OR l) = unat h * 2 ^ 32 + unat l"
    by (simp only: or.commute)
qed

lemma div_with_reminder_spec:
  assumes d: "divisor \<noteq> 0" and x: "unat x < 2 ^ 32" and r: "unat r < unat divisor"
  shows "\<exists>q r'. div_with_reminder x divisor r = Some (q, r')
     \<and> unat q = (unat r * 2 ^ 32 + unat x) div unat divisor
     \<and> unat r' = (unat r * 2 ^ 32 + unat x) mod unat divisor
     \<and> unat q < 2 ^ 32 \<and> unat r' < unat divisor"
proof -
  define n where n: "n = unat r * 2 ^ 32 + unat x"
  have ud: "unat (ucast divisor :: u64) = unat divisor" "unat (ucast r :: u64) = unat r"
    by (simp_all add: unat_ucast_up)
  have dpos: "0 < unat divisor" using d by (simp add: unat_gt_0)
  have sum: "unat (x OR push_bit 32 (ucast r)) = n"
    using unat_or_dwords(2) [OF x, of "ucast r"] unfolding ud n by simp
  have rem: "n mod unat divisor < unat divisor" using dpos by simp
  from less_trans [OF rem unsigned_less]
  have rem32: "n mod unat divisor mod 2 ^ LENGTH(32) = n mod unat divisor"
    by (rule mod_less)
  have "(unat r + 1) * 2 ^ 32 \<le> unat divisor * 2 ^ 32" using r by (intro mult_le_mono1) simp
  then have "n < 2 ^ 32 * unat divisor" using x unfolding n by simp
  then have q: "n div unat divisor < 2 ^ 32" by (rule less_mult_imp_div_less)
  let ?x = "x OR push_bit 32 (ucast r)"
  have "unat (?x div ucast divisor) = n div unat divisor"
    by (simp only: unat_div sum ud)
  moreover have "unat (ucast (?x mod ucast divisor) :: u32) = n mod unat divisor"
    unfolding unat_ucast [where ?'b = 32] by (simp only: unat_mod sum ud rem32)
  ultimately show ?thesis
    unfolding div_with_reminder_def Let_def n [symmetric] using d q rem by simp
qed
lemma long_division_step:
  assumes "0 < (d :: nat)"
  shows "(N * M + a) div d = (N div d) * M + ((N mod d) * M + a) div d"
    and "(N * M + a) mod d = ((N mod d) * M + a) mod d"
proof -
  have eq: "N * M + a = d * (N div d * M) + ((N mod d) * M + a)"
  proof -
    define q r where qr: "q = N div d" "r = N mod d"
    then have "N = d * q + r" by simp
    then show ?thesis unfolding qr [symmetric] by (simp add: algebra_simps)
  qed
  have "(d * K + X) div d = K + X div d" "(d * K + X) mod d = X mod d" for K X
    using assms by simp_all
  from this [of "N div d * M" "(N mod d) * M + a", folded eq]
  show "(N * M + a) div d = (N div d) * M + ((N mod d) * M + a) div d"
    and "(N * M + a) mod d = ((N mod d) * M + a) mod d" .
qed

lemma div128_32_spec:
  assumes d: "divisor \<noteq> 0"
  shows "\<exists>r qhi qlo. div128_32 hi lo divisor = Some (r, qhi, qlo)
     \<and> unat qhi * 2 ^ 64 + unat qlo = (unat hi * 2 ^ 64 + unat lo) div unat divisor
     \<and> unat r = (unat hi * 2 ^ 64 + unat lo) mod unat divisor"
proof -
  let ?d = "unat divisor" and ?M = "2 ^ 32 :: nat"
  have dpos: "0 < ?d" using d by (simp add: unat_gt_0)
  have r0: "unat (0 :: u32) < ?d" using dpos by simp
  obtain q3 r3 where 3: "div_with_reminder (hi_dword hi) divisor 0 = Some (q3, r3)"
      "unat q3 = unat (hi_dword hi) div ?d" "unat r3 = unat (hi_dword hi) mod ?d"
      "unat q3 < ?M" "unat r3 < ?d"
    using div_with_reminder_spec [OF d dword_bounds(1) [of hi] r0] by auto
  obtain q2 r2 where 2: "div_with_reminder (lo_dword hi) divisor r3 = Some (q2, r2)"
      "unat q2 = (unat r3 * ?M + unat (lo_dword hi)) div ?d"
      "unat r2 = (unat r3 * ?M + unat (lo_dword hi)) mod ?d" "unat q2 < ?M" "unat r2 < ?d"
    using div_with_reminder_spec [OF d dword_bounds(2) [of hi] 3(5)] by blast
  obtain q1 r1 where 1: "div_with_reminder (hi_dword lo) divisor r2 = Some (q1, r1)"
      "unat q1 = (unat r2 * ?M + unat (hi_dword lo)) div ?d"
      "unat r1 = (unat r2 * ?M + unat (hi_dword lo)) mod ?d" "unat q1 < ?M" "unat r1 < ?d"
    using div_with_reminder_spec [OF d dword_bounds(1) [of lo] 2(5)] by blast
  obtain q0 r0 where 0: "div_with_reminder (lo_dword lo) divisor r1 = Some (q0, r0)"
      "unat q0 = (unat r1 * ?M + unat (lo_dword lo)) div ?d"
      "unat r0 = (unat r1 * ?M + unat (lo_dword lo)) mod ?d" "unat q0 < ?M" "unat r0 < ?d"
    using div_with_reminder_spec [OF d dword_bounds(2) [of lo] 1(5)] by blast
  define N2 N1 where N: "N2 = unat hi" "N1 = N2 * ?M + unat (hi_dword lo)"
  have e2: "N2 div ?d = unat q3 * ?M + unat q2" "N2 mod ?d = unat r2"
    unfolding N(1) dword_split [of hi] long_division_step [OF dpos, of "unat (hi_dword hi)"]
      2(2,3) 3(2,3) by (rule refl)+
  have e1: "N1 div ?d = (unat q3 * ?M + unat q2) * ?M + unat q1" "N1 mod ?d = unat r1"
    unfolding N(2) long_division_step [OF dpos, of N2] e2 1(2,3) by (rule refl)+
  have tot: "unat hi * 2 ^ 64 + unat lo = N1 * ?M + unat (lo_dword lo)"
    unfolding N dword_split [of lo] by simp
  have "(unat hi * 2 ^ 64 + unat lo) div ?d
      = ((unat q3 * ?M + unat q2) * ?M + unat q1) * ?M + unat q0"
    "(unat hi * 2 ^ 64 + unat lo) mod ?d = unat r0"
    unfolding tot long_division_step [OF dpos, of N1] e1 0(2,3) by (rule refl)+
  moreover have "div128_32 hi lo divisor
      = Some (r0, push_bit 32 q3 OR q2, push_bit 32 q1 OR q0)"
    unfolding div128_32_def by (simp add: 0 1 2 3)
  ultimately show ?thesis
    using unat_or_dwords(1) [OF 2(4) 3(4)] unat_or_dwords(1) [OF 0(4) 1(4)] by simp
qed


section \<open>The proof-of-work test\<close>

lemma nat_carry_chain:
  fixes B :: nat
  assumes "l0 < B" and s1: "a1 + b1 = c1 * B + r1" "r1 < B"
    and s2: "a2 + b2 + c1 = c2 * B + r2" "r2 < B"
  shows "l0 + B * (a1 + b1 + B * (a2 + b2 + B * (a3 + b3))) < B * (B * (B * B))
     \<longleftrightarrow> a3 + b3 + c2 < B"
proof -
  have "a1 + b1 + B * (a2 + b2 + B * (a3 + b3)) = r1 + B * (c1 + (a2 + b2 + B * (a3 + b3)))"
    unfolding s1(1) by (simp add: algebra_simps)
  moreover have "c1 + (a2 + b2 + B * (a3 + b3)) = r2 + B * (a3 + b3 + c2)"
    using s2(1) by (simp add: algebra_simps)
  ultimately show ?thesis
    using nat_shift_less [OF assms(1)] nat_shift_less [OF s1(2)] nat_shift_less [OF s2(2)]
    by simp
qed
lemma le_nat_append: "le_nat (xs @ ys) = le_nat xs + 256 ^ length xs * le_nat ys"
  by (induction xs) (simp_all add: algebra_simps)

lemma le_nat_bound: "le_nat xs < 256 ^ length xs"
proof (induction xs)
  case (Cons b xs)
  have "unat b < 256" by simp
  with Cons.IH show ?case using nat_shift_less [of "unat b" 256 "le_nat xs" "256 ^ length xs"] by simp
qed simp

lemma hash_words:
  assumes "length h = 32"
  shows "le_nat h = unat (hash_word h 0) + 2 ^ 64 * (unat (hash_word h 1)
     + 2 ^ 64 * (unat (hash_word h 2) + 2 ^ 64 * unat (hash_word h 3)))"
proof -
  have e: "(256 :: nat) ^ 8 = 2 ^ 64" by simp
  have w: "unat (hash_word h i) = le_nat (take 8 (drop (8 * i) h))" if "i < 4" for i
  proof -
    have "length (take 8 (drop (8 * i) h)) = 8" using that assms by simp
    then have "le_nat (take 8 (drop (8 * i) h)) < 2 ^ 64"
      using le_nat_bound [of "take 8 (drop (8 * i) h)"] e by simp
    then show ?thesis by (simp add: hash_word_def unat_word_of_nat)
  qed
  have len: "8 \<le> length h" "8 \<le> length (drop 8 h)" "8 \<le> length (drop 16 h)"
    using assms by simp_all
  have cut: "le_nat xs = le_nat (take 8 xs) + 2 ^ 64 * le_nat (drop 8 xs)"
    if "8 \<le> length xs" for xs
    using le_nat_append [of "take 8 xs" "drop 8 xs"] that e by simp
  have "le_nat h = le_nat (take 8 h) + 2 ^ 64 * (le_nat (take 8 (drop 8 h))
      + 2 ^ 64 * (le_nat (take 8 (drop 16 h)) + 2 ^ 64 * le_nat (take 8 (drop 24 h))))"
    
    using cut [OF len(1)] cut [OF len(2)] cut [OF len(3)] assms
    by (simp only: drop_drop) (simp del: power_numeral add: algebra_simps)
  then show ?thesis
    using w [of 0] w [of 1] w [of 2] w [of 3] by simp
qed

lemma cadd_iff: "cadd a b \<longleftrightarrow> 2 ^ 64 \<le> unat a + unat b"
  using add_wraps_iff [of b a] by (simp only: cadd_def add.commute)

lemma cadc_iff: "cadc a b c \<longleftrightarrow> 2 ^ 64 \<le> unat a + unat b + (if c then 1 else 0)"
proof -
  have "unat (-1 :: u64) = 2 ^ 64 - 1"
    by (simp add: unsigned_minus_1_eq_mask mask_eq_exp_minus_1)
  then have m1: "a + b = -1 \<longleftrightarrow> unat (a + b) = 2 ^ 64 - 1"
    by (simp only: word_unat_eq_iff)
  have w: "a + b < a \<longleftrightarrow> 2 ^ 64 \<le> unat a + unat b"
    using cadd_iff [of a b] by (simp only: cadd_def)
  show ?thesis
  proof (cases "2 ^ 64 \<le> unat a + unat b")
    case True
    then show ?thesis unfolding cadc_def w by auto
  next
    case False
    then have "unat (a + b) = unat a + unat b"
      using add_carry [of a b] unfolding w by simp
    with False show ?thesis unfolding cadc_def w m1 by (cases c) auto
  qed
qed


lemma hash_product:
  assumes "length h = 32"
    and m: "mul (hash_word h 0) d = (l0, h0)" "mul (hash_word h 1) d = (l1, h1)"
      "mul (hash_word h 2) d = (l2, h2)" "mul (hash_word h 3) d = (l3, h3)"
  shows "le_nat h * unat d = unat l0 + 2 ^ 64 * (unat h0 + unat l1 + 2 ^ 64 * (unat h1 + unat l2
      + 2 ^ 64 * (unat h2 + unat l3 + 2 ^ 64 * unat h3)))"
proof -
  define B where B: "B = (2 :: nat) ^ 64"
  have "le_nat h * unat d = unat (hash_word h 0) * unat d + B * (unat (hash_word h 1) * unat d
      + B * (unat (hash_word h 2) * unat d + B * (unat (hash_word h 3) * unat d)))"
    unfolding hash_words [OF assms(1)] B by (simp only: algebra_simps)
  then show ?thesis
    unfolding m [THEN mul_correct_aux, symmetric] B [symmetric] by (simp only: algebra_simps)
qed

lemma carry_chain:
  "unat (l0 :: u64) + 2 ^ 64 * (unat a1 + unat b1 + 2 ^ 64 * (unat a2 + unat b2
      + 2 ^ 64 * (unat a3 + unat b3))) < 2 ^ 256
    \<longleftrightarrow> \<not> cadc a3 b3 (cadc a2 b2 (cadd a1 b1))"
proof -
  define B where B: "B = (2 :: nat) ^ 64"
  define c1 c2 where c: "c1 = cadd a1 b1" "c2 = cadc a2 b2 c1"
  define k1 k2 where k: "k1 = (if c1 then 1 else 0 :: nat)" "k2 = (if c2 then 1 else 0 :: nat)"
  have B4: "(2 :: nat) ^ 256 = B * (B * (B * B))" unfolding B by simp
  have lt: "unat x < B" for x :: u64 unfolding B by simp
  have s1: "unat a1 + unat b1 = k1 * B + unat (a1 + b1)"
    using add_carry [of a1 b1] unfolding k c(1) cadd_def B by simp
  have "c2 \<longleftrightarrow> B \<le> unat a2 + unat b2 + k1"
    unfolding c(2) cadc_iff k(1) B ..
  moreover have "unat a2 + unat b2 + k1 < B + B"
    using lt [of a2] lt [of b2] unfolding k(1) by (auto split: if_splits)
  ultimately have s2: "unat a2 + unat b2 + k1 = k2 * B + (unat a2 + unat b2 + k1 - k2 * B)"
      "unat a2 + unat b2 + k1 - k2 * B < B"
    unfolding k(2) by auto
  have "\<not> cadc a3 b3 c2 \<longleftrightarrow> unat a3 + unat b3 + k2 < B"
    unfolding cadc_iff k(2) B by (rule not_le)
  with nat_carry_chain [OF lt [of l0] s1 lt s2] show ?thesis
    unfolding B4 B [symmetric] c by simp
qed

text \<open>
  C4: the carry chain of \<open>check_hash\<close> is exact: a hash meets a difficulty just when the hash, read
  as a little-endian 256-bit number, times the difficulty does not overflow 256 bits.
\<close>

theorem check_hash_exact:
  assumes "length h = 32"
  shows "check_hash h d \<longleftrightarrow> le_nat h * unat d < 2 ^ 256"
proof -
  obtain top hi3 where m3: "mul (hash_word h 3) d = (top, hi3)" by fastforce
  obtain l0 cur where m0: "mul (hash_word h 0) d = (l0, cur)" by fastforce
  obtain l1 hi1 where m1: "mul (hash_word h 1) d = (l1, hi1)" by fastforce
  obtain l2 hi2 where m2: "mul (hash_word h 2) d = (l2, hi2)" by fastforce
  note prod = hash_product [OF assms m0 m1 m2 m3]
  have unfold: "check_hash h d \<longleftrightarrow> hi3 = 0 \<and> \<not> cadc hi2 top (cadc hi1 l2 (cadd cur l1))"
    unfolding check_hash_def m0 m1 m2 m3 by simp
  show ?thesis
  proof (cases "hi3 = 0")
    case True
    then show ?thesis unfolding unfold prod using carry_chain [of l0 cur l1 hi1 l2 hi2 top] by simp
  next
    case False
    then have "1 \<le> unat hi3" by (simp add: Suc_le_eq unat_gt_0)
    then have "2 ^ 256 \<le> le_nat h * unat d" unfolding prod by simp
    with False show ?thesis unfolding unfold by simp
  qed
qed

theorem check_hash_exact_witness:
  "length (replicate 31 0 @ [1 :: u8]) = 32
     \<and> check_hash (replicate 31 0 @ [1]) 255 = (le_nat (replicate 31 0 @ [1]) * unat (255 :: u64) < 2 ^ 256)"
  using check_hash_exact [of "replicate 31 0 @ [1]" 255] by simp


section \<open>The size penalty\<close>

text \<open>The penalty on unbounded integers: \<open>amount * size * (2 * median - size) / median\<^sup>2\<close>.\<close>

lemma penalty_factor_bound:
  assumes "(m :: nat) < c" "c \<le> 2 * m"
  shows "c * (2 * m - c) < m * m"
proof -
  obtain k where k: "c = m + k" "0 < k" "k \<le> m"
    using assms by (metis add_diff_cancel_left' less_imp_add_positive mult_2 nat_add_left_cancel_le)
  then have "2 * m - c = m - k" by simp
  then have "c * (2 * m - c) = m * m - k * k"
    using k by (simp add: algebra_simps diff_mult_distrib2)
  moreover have "0 < k * k" "k * k \<le> m * m" using k by (simp_all add: mult_le_mono)
  ultimately show ?thesis by linarith
qed

definition penalized :: "nat \<Rightarrow> nat \<Rightarrow> nat \<Rightarrow> nat" where
  "penalized amount median sz =
     (if sz \<le> median then amount else amount * (sz * (2 * median - sz)) div (median * median))"

lemma penalized_le: "sz \<le> 2 * median \<Longrightarrow> penalized amount median sz \<le> amount"
proof (cases "sz \<le> median")
  case False
  assume "sz \<le> 2 * median"
  with False have "sz * (2 * median - sz) < median * median"
    by (intro penalty_factor_bound) simp_all
  then have "amount * (sz * (2 * median - sz)) \<le> amount * (median * median)" by simp
  then have "amount * (sz * (2 * median - sz)) div (median * median)
      \<le> amount * (median * median) div (median * median)" by (rule div_le_mono)
  also have "\<dots> \<le> amount" by simp
  finally show ?thesis using False by (simp add: penalized_def)
qed (simp add: penalized_def)

lemma getPenalizedAmount_spec_aux:
  assumes s: "unat sz \<le> 2 * unat median" and m: "unat median < 2 ^ 32" and c: "unat sz < 2 ^ 32"
  shows "\<exists>r. getPenalizedAmount amount median sz = Some r
     \<and> unat r = penalized (unat amount) (unat median) (unat sz)"
proof -
  have two: "unat (2 * median) = 2 * unat median"
    using m by (simp add: unat_word_ariths)
  have guards: "sz \<le> 2 * median" "median \<le> 0xFFFFFFFF" "sz \<le> 0xFFFFFFFF"
    using s m c two by (simp_all add: word_le_nat_alt)
  consider (zero) "amount = 0" | (small) "amount \<noteq> 0" "sz \<le> median"
    | (large) "amount \<noteq> 0" "\<not> sz \<le> median" by blast
  then show ?thesis
  proof cases
    case zero
    with guards show ?thesis by (simp add: getPenalizedAmount_def penalized_def)
  next
    case small
    with guards show ?thesis
      by (simp add: getPenalizedAmount_def penalized_def word_le_nat_alt)
  next
    case large
    define X where X: "X = unat sz * (2 * unat median - unat sz)"
    let ?m = "unat median" and ?a = "unat amount"
    have gt: "?m < unat sz" using large by (simp add: word_le_nat_alt)
    have Xm: "X < ?m * ?m" unfolding X by (rule penalty_factor_bound [OF gt s])
    have mpos: "0 < ?m" using Xm by (cases "?m = 0") auto
    have apos: "0 < ?a" using large by (simp add: unat_gt_0)
    have sub: "unat (2 * median - sz) = 2 * ?m - unat sz"
      using unat_sub [OF guards(1)] two by simp
    have "?m * ?m < 2 ^ 32 * 2 ^ 32" by (rule mult_strict_mono) (use m mpos in simp_all)
    with Xm have X64: "X < 2 ^ LENGTH(64)" by simp
    have factor: "unat (sz * (2 * median - sz)) = X"
      using unat_mult_lem [of sz "2 * median - sz"] X64 unfolding sub X by simp
    obtain lo hi where mul: "mul128 amount (sz * (2 * median - sz)) = (lo, hi)" by fastforce
    have P: "unat hi * 2 ^ 64 + unat lo = ?a * X"
      using mul128_correct_aux [OF mul] unfolding factor .
    have ud: "unat (ucast median :: u32) = ?m" using m by (simp add: unat_ucast)
    then have d: "(ucast median :: u32) \<noteq> 0" using mpos by (metis unat_0 less_irrefl)
    obtain r1 h1 l1 where q1: "div128_32 hi lo (ucast median) = Some (r1, h1, l1)"
        "unat h1 * 2 ^ 64 + unat l1 = ?a * X div ?m"
      using div128_32_spec [OF d, of hi lo] unfolding P ud by blast
    obtain r2 h2 l2 where q2: "div128_32 h1 l1 (ucast median) = Some (r2, h2, l2)"
        "unat h2 * 2 ^ 64 + unat l2 = ?a * X div ?m div ?m"
      using div128_32_spec [OF d, of h1 l1] unfolding q1(2) ud by blast
    have val: "unat h2 * 2 ^ 64 + unat l2 = ?a * X div (?m * ?m)"
      unfolding q2(2) by (rule div_mult2_eq [symmetric])
    have "?a * X < ?a * (?m * ?m)" using Xm apos by simp
    then have small: "?a * X div (?m * ?m) < ?a" by (rule less_mult_imp_div_less)
    have "unat h2 = 0"
    proof (rule ccontr)
      assume "unat h2 \<noteq> 0"
      then have "1 * 2 ^ 64 \<le> unat h2 * 2 ^ 64" by (intro mult_le_mono1) simp
      moreover have "?a < 2 ^ 64" by simp
      ultimately show False using val small by linarith
    qed
    then have h2: "h2 = 0" and l2: "unat l2 = ?a * X div (?m * ?m)"
      using val by (simp_all add: unat_0_iff)
    with small have "l2 < amount" by (simp add: word_less_nat_alt)
    then have "getPenalizedAmount amount median sz = Some l2"
      using guards large by (simp add: getPenalizedAmount_def mul q1(1) q2(1) h2)
    moreover have "penalized ?a ?m (unat sz) = unat l2"
      using gt l2 by (simp add: penalized_def X)
    ultimately show ?thesis by simp
  qed
qed

text \<open>
  C15: for sizes that pass the caller's checks, \<open>getPenalizedAmount\<close> returns (no assertion fails and
  no division traps), its two chained 128-by-32 divisions give exactly the quotient by the squared
  median, and the penalised amount never exceeds the amount.
\<close>

theorem getPenalizedAmount_exact:
  assumes "unat sz \<le> 2 * unat median" and "unat median < 2 ^ 32" and "unat sz < 2 ^ 32"
  shows "\<exists>r. getPenalizedAmount amount median sz = Some r
     \<and> unat r = penalized (unat amount) (unat median) (unat sz) \<and> r \<le> amount"
  using getPenalizedAmount_spec_aux [OF assms] penalized_le [OF assms(1)]
  by (fastforce simp: word_le_nat_alt)

theorem getPenalizedAmount_exact_witness:
  "\<exists>r. getPenalizedAmount 1000 100000 150000 = Some r \<and> unat r = 750 \<and> r \<le> 1000"
  using getPenalizedAmount_exact [of 150000 100000 1000] by (simp add: penalized_def)

end
