(* ===== verification/Varint.thy ===== *)
theory Varint
  imports IntUtil
begin

text \<open>
  Variable-length integers, \<open>src/common/Varint.h\<close>: \<open>write_varint\<close> and \<open>uintToVarintVector\<close> at
  \<open>uint64_t\<close> (the width every modelled caller uses), and \<open>read_varint\<close>, which returns the number of
  bytes read or a negative code (\<open>-1\<close> overflow, \<open>-2\<close> non-canonical), beside the value it has
  accumulated in its reference parameter.
\<close>


section \<open>Writing and reading\<close>

function write_varint :: "u64 \<Rightarrow> bytes" where
  "write_varint i =
     (if i \<ge> 0x80 then ((ucast i AND 0x7f) OR 0x80) # write_varint (drop_bit 7 i)
      else [ucast i])"
  by pat_completeness auto
termination
proof (relation "measure unat")
  fix i :: u64
  assume "0x80 \<le> i"
  then have "0 < unat i" by (simp add: word_le_nat_alt)
  then show "(drop_bit 7 i, i) \<in> measure unat"
    by (simp add: unat_drop_bit)
qed simp

declare write_varint.simps [simp del]

text \<open>\<open>uintToVarintVector\<close> is the same loop into a vector.\<close>

function uintToVarintVector :: "u64 \<Rightarrow> bytes" where
  "uintToVarintVector i =
     (if i \<ge> 0x80 then ((ucast i AND 0x7f) OR 0x80) # uintToVarintVector (drop_bit 7 i)
      else [ucast i])"
  by pat_completeness auto
termination
proof (relation "measure unat")
  fix i :: u64
  assume "0x80 \<le> i"
  then have "0 < unat i" by (simp add: word_le_nat_alt)
  then show "(drop_bit 7 i, i) \<in> measure unat"
    by (simp add: unat_drop_bit)
qed simp

declare uintToVarintVector.simps [simp del]

text \<open>
  The loop of \<open>read_varint<bits>\<close> from a given shift: the result code and the accumulated value. Running
  out of input is not an error: the number of bytes read so far is returned.
\<close>

fun read_varint_loop :: "nat \<Rightarrow> bytes \<Rightarrow> nat \<Rightarrow> int \<Rightarrow> u64 \<Rightarrow> int \<times> u64" where
  "read_varint_loop bits [] shift read i = (read, i)"
| "read_varint_loop bits (byte # rest) shift read i =
     (if shift + 7 \<ge> bits \<and> unat byte \<ge> 2 ^ (bits - shift) then (-1, i)
      else if byte = 0 \<and> shift \<noteq> 0 then (-2, i)
      else
        let i' = i OR push_bit shift (ucast (byte AND 0x7f))
        in if byte AND 0x80 = 0 then (read + 1, i')
           else read_varint_loop bits rest (shift + 7) (read + 1) i')"

definition read_varint :: "bytes \<Rightarrow> int \<times> u64" where
  "read_varint bs = read_varint_loop 64 bs 0 0 0"


section \<open>Round trip\<close>

lemma varint_byte:
  "unat (((ucast (m :: u64) :: u8) AND 0x7f) OR 0x80) = 128 + unat m mod 128"
  "((ucast (m :: u64) :: u8) AND 0x7f OR 0x80) AND 0x7f = ucast m AND 0x7f"
  "((ucast (m :: u64) :: u8) AND 0x7f OR 0x80) AND 0x80 = 0x80"
  "unat (ucast ((ucast m :: u8) AND 0x7f) :: u64) = unat m mod 128"
proof -
  show "((ucast (m :: u64) :: u8) AND 0x7f OR 0x80) AND 0x7f = ucast m AND 0x7f"
    by (simp add: bit.conj_disj_distrib2 and.assoc)
  show "((ucast (m :: u64) :: u8) AND 0x7f OR 0x80) AND 0x80 = 0x80"
    by (simp add: bit.conj_disj_distrib2 and.assoc)
  have and7f: "x AND 0x7f = take_bit 7 x" for x :: u8
    by (simp add: take_bit_eq_mask mask_eq_exp_minus_1)
  have u: "unat (take_bit 7 (ucast m :: u8)) = unat m mod 128"
    by (simp add: unat_take_bit unat_ucast mod_mod_cancel)
  show "unat (ucast ((ucast m :: u8) AND 0x7f) :: u64) = unat m mod 128"
    unfolding and7f by (subst unat_ucast_up) (simp_all add: u)
  show "unat (((ucast (m :: u64) :: u8) AND 0x7f) OR 0x80) = 128 + unat m mod 128"
    using unat_or_push_bit [of "take_bit 7 (ucast m :: u8)" 7 1] u unfolding and7f by simp
qed

lemma small_varint_byte:
  assumes "unat (m :: u64) < 128"
  shows "unat (ucast m :: u8) = unat m" "(ucast m :: u8) AND 0x80 = 0"
    "unat (ucast ((ucast m :: u8) AND 0x7f) :: u64) = unat m"
proof -
  show u: "unat (ucast m :: u8) = unat m" using assms by (simp add: unat_ucast)
  have "unat (take_bit 7 (ucast m :: u8)) = unat (ucast m :: u8)"
    using assms by (simp add: unat_take_bit u)
  then have "take_bit 7 (ucast m :: u8) = ucast m" by (simp only: word_unat_eq_iff)
  moreover have "take_bit 7 x AND 0x80 = 0" for x :: u8
  proof -
    have "take_bit 7 x AND 0x80 = (x AND 0x7f) AND 0x80"
      by (simp add: take_bit_eq_mask mask_eq_exp_minus_1)
    then show ?thesis by (simp add: and.assoc)
  qed
  ultimately show "(ucast m :: u8) AND 0x80 = 0" by metis
  show "unat (ucast ((ucast m :: u8) AND 0x7f) :: u64) = unat m"
    using varint_byte(4) [of m] assms by simp
qed

lemma read_write_loop:
  assumes "unat m * 2 ^ shift < 2 ^ 64" and "unat acc < 2 ^ shift" and "shift \<noteq> 0 \<longrightarrow> m \<noteq> 0"
  shows "\<exists>i. read_varint_loop 64 (write_varint m @ rest) shift k acc
       = (k + int (length (write_varint m)), i) \<and> unat i = unat acc + unat m * 2 ^ shift"
  using assms
proof (induction m arbitrary: shift k acc rule: write_varint.induct)
  case (1 m)
  let ?low = "ucast ((ucast m :: u8) AND 0x7f) :: u64"
  let ?acc = "acc OR push_bit shift ?low"
  have s64: "shift < 64"
  proof (cases "shift = 0")
    case False
    with "1.prems"(3) have "1 \<le> unat m" by (simp add: Suc_le_eq unat_gt_0)
    then have "1 * 2 ^ shift \<le> unat m * 2 ^ shift" by (rule mult_le_mono1)
    with "1.prems"(1) have "2 ^ shift < (2 ^ 64 :: nat)" by linarith
    then show ?thesis by (rule power_less_imp_less_exp [rotated]) simp
  qed simp
  have "unat acc + (unat m mod 128) * 2 ^ shift < 2 ^ 64"
    by (rule shifted_sum_fits [OF "1.prems"(1) _ "1.prems"(2)]) (use s64 in simp_all)
  then have acc: "unat ?acc = unat acc + (unat m mod 128) * 2 ^ shift"
    using unat_or_push_bit [OF "1.prems"(2), of ?low] varint_byte(4) [of m] by simp
  show ?case
  proof (cases "m \<ge> 0x80")
    case True
    then have m: "128 \<le> unat m" by (simp add: word_le_nat_alt)
    then have "128 * 2 ^ shift \<le> unat m * 2 ^ shift" by simp
    moreover have p7: "(2 :: nat) ^ (shift + 7) = 128 * 2 ^ shift" by (simp add: power_add)
    ultimately have "2 ^ (shift + 7) < (2 ^ 64 :: nat)" using "1.prems"(1) by linarith
    then have sh: "shift + 7 < 64" by (rule power_less_imp_less_exp [rotated]) simp
    let ?b = "((ucast m :: u8) AND 0x7f) OR 0x80"
    have b0: "?b \<noteq> 0" using varint_byte(1) [of m] by (metis unat_0 add_is_0 zero_neq_numeral)
    have div: "unat (drop_bit 7 m) = unat m div 128" using unat_drop_bit [of 7 m] by simp
    have split: "unat m * 2 ^ shift = (unat m mod 128) * 2 ^ shift + (unat m div 128) * 2 ^ (shift + 7)"
    proof -
      have "unat m * 2 ^ shift = (unat m mod 128 + 128 * (unat m div 128)) * 2 ^ shift"
        by (simp only: mod_mult_div_eq)
      then show ?thesis unfolding p7 by (simp only: add_mult_distrib add_mult_distrib2 ac_simps)
    qed
    have "\<exists>i. read_varint_loop 64 (write_varint (drop_bit 7 m) @ rest) (shift + 7) (k + 1) ?acc
        = (k + 1 + int (length (write_varint (drop_bit 7 m))), i)
        \<and> unat i = unat ?acc + unat (drop_bit 7 m) * 2 ^ (shift + 7)"
    proof (rule "1.IH" [OF True])
      show "unat (drop_bit 7 m) * 2 ^ (shift + 7) < 2 ^ 64"
        using "1.prems"(1) split unfolding div by linarith
      show "unat ?acc < 2 ^ (shift + 7)"
        using nat_shift_less [OF "1.prems"(2), of "unat m mod 128" 128]
        unfolding acc p7 by (simp only: mult.commute)
      have "unat (drop_bit 7 m) \<noteq> 0" using m div by simp
      then show "shift + 7 \<noteq> 0 \<longrightarrow> drop_bit 7 m \<noteq> 0" by (metis unat_0)
    qed
    then obtain i where i: "read_varint_loop 64 (write_varint (drop_bit 7 m) @ rest) (shift + 7) (k + 1) ?acc
        = (k + 1 + int (length (write_varint (drop_bit 7 m))), i)"
        "unat i = unat ?acc + unat (drop_bit 7 m) * 2 ^ (shift + 7)" by blast
    have "read_varint_loop 64 (write_varint m @ rest) shift k acc
        = read_varint_loop 64 (write_varint (drop_bit 7 m) @ rest) (shift + 7) (k + 1) ?acc"
      using True sh b0 varint_byte(2,3) [of m]
      by (simp add: write_varint.simps [of m])
    moreover have "length (write_varint m) = Suc (length (write_varint (drop_bit 7 m)))"
      using True by (simp add: write_varint.simps [of m])
    ultimately show ?thesis using i acc div split by simp
  next
    case False
    then have m: "unat m < 128" by (simp add: word_le_nat_alt)
    note small = small_varint_byte [OF m]
    have "\<not> (unat (ucast m :: u8) \<ge> 2 ^ (64 - shift))"
    proof
      assume "unat (ucast m :: u8) \<ge> 2 ^ (64 - shift)"
      then have "2 ^ (64 - shift) * 2 ^ shift \<le> unat m * 2 ^ shift"
        unfolding small(1) by (rule mult_le_mono1)
      with "1.prems"(1) s64 show False by (simp flip: power_add)
    qed
    moreover have "\<not> ((ucast m :: u8) = 0 \<and> shift \<noteq> 0)"
      using "1.prems"(3) small(1) by (metis unat_0 unat_0_iff)
    ultimately show ?thesis
      using False small acc m by (auto simp: write_varint.simps [of m])
  qed
qed

lemma uintToVarintVector_eq: "uintToVarintVector i = write_varint i"
proof (induction i rule: write_varint.induct)
  case (1 i)
  then show ?case by (subst uintToVarintVector.simps, subst write_varint.simps) simp
qed

lemma read_varint_write: "read_varint (write_varint n @ rest) = (int (length (write_varint n)), n)"
  using read_write_loop [of n 0 0 rest 0] by (auto simp: read_varint_def word_unat_eq_iff)

lemma write_varint_nonempty: "write_varint n \<noteq> []"
  by (subst write_varint.simps) simp

text \<open>
  Reading a written varint gives the value back and the exact number of bytes it took, whatever
  follows it in the buffer; both writers produce the same bytes.
\<close>

lemma read_write_varint:
  "read_varint (write_varint n @ rest) = (int (length (write_varint n)), n)
     \<and> uintToVarintVector n = write_varint n"
  using read_varint_write [of n rest] uintToVarintVector_eq [of n] by blast


section \<open>Canonicity\<close>

lemma byte_high_bit_iff: "(b :: u8) AND 0x80 = 0 \<longleftrightarrow> unat b < 128"
proof
  assume "unat b < 128"
  then have "unat (take_bit 7 b) = unat b" by (simp add: unat_take_bit)
  then have "b = take_bit 7 b" by (simp only: word_unat_eq_iff)
  then have "b AND 0x80 = (b AND 0x7f) AND 0x80" by (simp add: take_bit_eq_mask mask_eq_exp_minus_1)
  then show "b AND 0x80 = 0" by (simp add: and.assoc)
next
  assume a: "b AND 0x80 = 0"
  have "0x7f OR 0x80 = (-1 :: u8)" by simp
  then have "b = b AND (0x7f OR 0x80)" by (simp only: and.right_neutral)
  also have "\<dots> = b AND 0x7f" using a by (simp only: bit.conj_disj_distrib or.right_neutral)
  finally have "b = take_bit 7 b" by (simp add: take_bit_eq_mask mask_eq_exp_minus_1)
  then have "unat b = unat b mod 2 ^ 7" by (metis unat_take_bit)
  moreover have "unat b mod 2 ^ 7 < 2 ^ 7" by simp
  ultimately show "unat b < 128" by simp
qed

lemma unat_low7: "unat (ucast ((b :: u8) AND 0x7f) :: u64) = unat b mod 128"
proof -
  have "b AND 0x7f = take_bit 7 b" by (simp add: take_bit_eq_mask mask_eq_exp_minus_1)
  then show ?thesis using unat_take_bit [of 7 b] by (simp add: unat_ucast_up)
qed

text \<open>A byte that passes the overflow check adds its low seven bits above the bits read so far.\<close>

lemma accumulated_byte:
  assumes novf: "\<not> (shift + 7 \<ge> 64 \<and> unat (byte :: u8) \<ge> 2 ^ (64 - shift))"
    and acc: "unat (i :: u64) < 2 ^ shift" and sh: "shift < 64"
  shows "unat (i OR push_bit shift (ucast (byte AND 0x7f))) = unat i + (unat byte mod 128) * 2 ^ shift"
proof -
  have fit: "(unat byte mod 128) * 2 ^ shift < 2 ^ 64"
  proof (cases "shift + 7 \<ge> 64")
    case True
    with novf have "unat byte * 2 ^ shift < 2 ^ (64 - shift) * 2 ^ shift" by simp
    then have "unat byte * 2 ^ shift < 2 ^ 64" using sh by (simp flip: power_add)
    moreover have "(unat byte mod 128) * 2 ^ shift \<le> unat byte * 2 ^ shift" by simp
    ultimately show ?thesis by linarith
  next
    case False
    have "(unat byte mod 128) * 2 ^ shift < 2 ^ 7 * 2 ^ shift" by simp
    also have "\<dots> = 2 ^ (7 + shift)" by (rule power_add [symmetric])
    also have "\<dots> \<le> 2 ^ 64" by (rule power_increasing) (use False in simp_all)
    finally show ?thesis .
  qed
  have "unat i + (unat byte mod 128) * 2 ^ shift < 2 ^ 64"
    by (rule shifted_sum_fits [OF fit]) (use acc sh in simp_all)
  then show ?thesis
    using unat_or_push_bit [OF acc, of "ucast (byte AND 0x7f)"] unat_low7 [of byte] by simp
qed

text \<open>A continuation byte in front of a canonical encoding is a canonical encoding.\<close>

lemma write_varint_cons:
  assumes b: "128 \<le> unat b" and m: "unat m = unat b - 128 + unat m' * 128" and m': "m' \<noteq> 0"
  shows "write_varint m = b # write_varint m'"
proof -
  have "unat b < 256" by simp
  with b obtain c where c: "unat b = 128 + c" "c < 128" by (metis le_iff_add nat_add_left_cancel_less numeral_Bit0)
  with m have m: "unat m = c + unat m' * 128" by simp
  have "0 < unat m'" using m' by (simp add: unat_gt_0)
  then have ge: "m \<ge> 0x80" using m by (simp add: word_le_nat_alt)
  have "unat (drop_bit 7 m) = unat m'" unfolding unat_drop_bit m using c by simp
  then have d: "drop_bit 7 m = m'" by (simp only: word_unat_eq_iff)
  have "unat ((ucast m AND 0x7f) OR 0x80 :: u8) = unat b"
    unfolding varint_byte(1) m using c by simp
  then have "(ucast m AND 0x7f) OR 0x80 = b" by (simp only: word_unat_eq_iff)
  with ge d show ?thesis by (subst write_varint.simps) simp
qed

lemma write_varint_small: "unat m < 128 \<Longrightarrow> write_varint m = [ucast m]"
  by (subst write_varint.simps) (simp add: word_le_nat_alt)

text \<open>The value of a byte and of what follows it is below \<open>2^64\<close>, so it is the value of a word.\<close>

lemma continued_value:
  assumes big: "128 \<le> unat (byte :: u8)" and m': "(m' :: u64) \<noteq> 0"
    and n: "unat (n :: u64) = unat (i :: u64) + (unat byte mod 128) * 2 ^ shift + unat m' * 2 ^ (shift + 7)"
  shows "\<exists>m :: u64. unat m = unat byte - 128 + unat m' * 128 \<and> m \<noteq> 0
    \<and> unat n = unat i + unat m * 2 ^ shift"
proof -
  define M where M: "M = unat byte - 128 + unat m' * 128"
  have mod: "unat byte mod 128 = unat byte - 128"
    using big less_diff_conv2 [OF big, of 128] by (simp add: le_mod_geq)
  have p7: "(2 :: nat) ^ (shift + 7) = 128 * 2 ^ shift" by (simp add: power_add)
  have n': "unat n = unat i + M * 2 ^ shift"
    unfolding n mod p7 M by (simp add: algebra_simps)
  have "M * 1 \<le> M * 2 ^ shift" by (intro mult_le_mono2) simp
  with n' have "M \<le> unat n" by linarith
  moreover have "unat n < 2 ^ 64" by simp
  ultimately have "M < 2 ^ 64" by linarith
  then have "unat (word_of_nat M :: u64) = M" by (intro unat_word_of_nat) simp
  then obtain m :: u64 where m: "unat m = M" by blast
  have "0 < unat m'" using m' by (simp add: unat_gt_0)
  then have "0 < unat m" unfolding m M by simp
  then have m0: "m \<noteq> 0" by auto
  show ?thesis using m m0 n' unfolding M by (intro exI [of _ m]) simp
qed

lemma read_loop_canonical:
  assumes "read_varint_loop 64 bs shift k acc = (k', n)" and "0 \<le> k" and "k < k'"
    and "bs ! nat (k' - k - 1) AND 0x80 = 0" and "unat acc < 2 ^ shift" and "shift < 64"
  shows "\<exists>m. unat n = unat acc + unat m * 2 ^ shift \<and> write_varint m = take (nat (k' - k)) bs
     \<and> (shift \<noteq> 0 \<longrightarrow> m \<noteq> 0)"
  using assms
proof (induction bs arbitrary: shift k acc)
  case Nil
  then show ?case by simp
next
  case (Cons byte rest shift k i)
  let ?i = "i OR push_bit shift (ucast (byte AND 0x7f))"
  have novf: "\<not> (shift + 7 \<ge> 64 \<and> unat byte \<ge> 2 ^ (64 - shift))"
    and nz: "\<not> (byte = 0 \<and> shift \<noteq> 0)"
    using Cons.prems by (auto split: if_splits)
  note i = accumulated_byte [OF novf Cons.prems(5,6)]
  show ?case
  proof (cases "byte AND 0x80 = 0")
    case True
    then have small: "unat byte < 128" by (simp only: byte_high_bit_iff)
    have kn: "k' = k + 1" "n = ?i" using Cons.prems(1) novf nz True by (auto split: if_splits)
    have u: "unat (ucast byte :: u64) = unat byte" by (simp add: unat_ucast_up)
    have "unat (ucast (ucast byte :: u64) :: u8) = unat byte"
      using unat_ucast [of "ucast byte :: u64", where ?'b = 8] u by simp
    then have "ucast (ucast byte :: u64) = byte" by (simp only: word_unat_eq_iff)
    then have "write_varint (ucast byte) = [byte]" using small u by (simp add: write_varint_small)
    moreover have "shift \<noteq> 0 \<longrightarrow> (ucast byte :: u64) \<noteq> 0" using nz u by (metis unat_0 unat_0_iff)
    ultimately show ?thesis using kn i small u by (intro exI [of _ "ucast byte"]) simp
  next
    case False
    then have big: "128 \<le> unat byte" by (simp only: byte_high_bit_iff not_less)
    have sh: "shift + 7 < 64"
    proof (rule ccontr)
      assume "\<not> shift + 7 < 64"
      then have "(2 :: nat) ^ (64 - shift) \<le> 2 ^ 7" by (intro power_increasing) simp_all
      with novf \<open>\<not> shift + 7 < 64\<close> big show False by simp
    qed
    have loop: "read_varint_loop 64 rest (shift + 7) (k + 1) ?i = (k', n)"
      using Cons.prems(1) novf nz False by (auto simp: Let_def split: if_splits)
    have kk: "k + 1 < k'"
    proof (rule ccontr)
      assume "\<not> k + 1 < k'"
      with Cons.prems(3) have "k' = k + 1" by simp
      with Cons.prems(4) False show False by simp
    qed
    have nat_k: "nat (k' - k) = Suc (nat (k' - (k + 1)))" "nat (k' - k - 1) = Suc (nat (k' - (k + 1) - 1))"
      using kk by simp_all
    have p7: "(2 :: nat) ^ (shift + 7) = 128 * 2 ^ shift" by (simp add: power_add)
    have i7: "unat ?i < 2 ^ (shift + 7)"
      using nat_shift_less [OF Cons.prems(5), of "unat byte mod 128" 128]
      unfolding i p7 by (simp add: mult.commute)
    have trm: "rest ! nat (k' - (k + 1) - 1) AND 0x80 = 0" using Cons.prems(4) nat_k by simp
    obtain m' where m': "unat n = unat ?i + unat m' * 2 ^ (shift + 7)"
        "write_varint m' = take (nat (k' - (k + 1))) rest" "m' \<noteq> 0"
      using Cons.IH [OF loop _ kk trm i7 sh] Cons.prems(2) by auto
    obtain m :: u64 where m: "unat m = unat byte - 128 + unat m' * 128" "m \<noteq> 0"
        "unat n = unat i + unat m * 2 ^ shift"
      using continued_value [OF big m'(3) m'(1) [unfolded i]] by blast
    have "write_varint m = byte # write_varint m'"
      by (rule write_varint_cons [OF big _ m'(3)]) (rule m(1))
    then have "write_varint m = take (nat (k' - k)) (byte # rest)" using m'(2) nat_k(1) by simp
    with m show ?thesis by (intro exI [of _ m]) blast
  qed
qed
lemma read_canonical:
  assumes "read_varint bs = (k, n)" and "0 < k" and "bs ! nat (k - 1) AND 0x80 = 0"
  shows "write_varint n = take (nat k) bs"
proof -
  from assms have "read_varint_loop 64 bs 0 0 0 = (k, n)" by (simp add: read_varint_def)
  from read_loop_canonical [OF this] assms(2,3) obtain m
    where "unat n = unat m" "write_varint m = take (nat k) bs" by auto
  moreover from this have "n = m" by (simp only: word_unat_eq_iff)
  ultimately show ?thesis by simp
qed

text \<open>A reader that stops before the end of its input has met a byte without the continuation bit.\<close>

lemma read_loop_advances:
  "read_varint_loop bits bs shift k acc = (k', n) \<Longrightarrow> 0 \<le> k' \<Longrightarrow> bs \<noteq> [] \<Longrightarrow> k < k'"
proof (induction bs arbitrary: shift k acc)
  case (Cons b bs)
  from Cons.prems consider "k' = k + 1" | acc' where "read_varint_loop bits bs (shift + 7) (k + 1) acc' = (k', n)"
    by (auto simp: Let_def split: if_splits)
  then show ?case
  proof cases
    case 2
    with Cons.IH [OF 2] Cons.prems(2) show ?thesis by (cases "bs = []") simp_all
  qed simp
qed simp

lemma read_loop_stops:
  "read_varint_loop bits bs shift k acc = (k', n) \<Longrightarrow> 0 \<le> k \<Longrightarrow> k < k' \<Longrightarrow> k' < k + int (length bs) \<Longrightarrow>
   bs ! nat (k' - k - 1) AND 0x80 = 0"
proof (induction bs arbitrary: shift k acc)
  case (Cons b bs)
  show ?case
  proof (cases "b AND 0x80 = 0")
    case True
    with Cons.prems show ?thesis by (auto simp: Let_def split: if_splits)
  next
    case False
    with Cons.prems obtain acc' where loop: "read_varint_loop bits bs (shift + 7) (k + 1) acc' = (k', n)"
      by (auto simp: Let_def split: if_splits)
    have "k' \<noteq> k + 1"
    proof
      assume "k' = k + 1"
      with loop Cons.prems show False using read_loop_advances [OF loop] by (cases bs) auto
    qed
    with Cons.IH [OF loop] Cons.prems(2-4) have "bs ! nat (k' - (k + 1) - 1) AND 0x80 = 0" by simp
    moreover have "nat (k' - k - 1) = Suc (nat (k' - (k + 1) - 1))"
      using \<open>k' \<noteq> k + 1\<close> Cons.prems(3) by simp
    ultimately show ?thesis by simp
  qed
qed simp

lemma read_varint_stops:
  "read_varint bs = (k, n) \<Longrightarrow> 0 < k \<Longrightarrow> nat k < length bs \<Longrightarrow> bs ! nat (k - 1) AND 0x80 = 0"
  using read_loop_stops [of 64 bs 0 0 0 k n] by (simp add: read_varint_def)



end
