(* ===== verification/Strings.thy ===== *)
theory Strings
  imports IntUtil
begin

text \<open>
  Text and hexadecimal: \<open>src/common/StringTools.cpp\<close>, \<open>StringTools.h\<close> and
  \<open>src/utilities/String.cpp\<close>. A \<open>std::string\<close> is a \<open>string\<close> (its \<open>char\<close>s are bytes), a
  \<open>std::vector<uint8_t>\<close> is a list of bytes; \<open>asString\<close> and \<open>asBinaryArray\<close> reinterpret one as the
  other. A function with a reference parameter returns the new value of that parameter beside its
  result; the overloads of \<open>fromHex\<close>, \<open>toHex\<close> and \<open>extract\<close> have a suffix each.
\<close>

section \<open>Bytes and characters\<close>

definition asString :: "bytes \<Rightarrow> string" where
  "asString data = map (\<lambda>b. char_of (unat b)) data"

definition asBinaryArray :: "string \<Rightarrow> bytes" where
  "asBinaryArray data = map (\<lambda>c. word_of_nat (of_char c)) data"


section \<open>Hexadecimal\<close>

definition characterValues :: bytes where
  "characterValues = [
     0xff, 0xff, 0xff, 0xff, 0xff, 0xff, 0xff, 0xff, 0xff, 0xff, 0xff, 0xff, 0xff, 0xff, 0xff, 0xff,
     0xff, 0xff, 0xff, 0xff, 0xff, 0xff, 0xff, 0xff, 0xff, 0xff, 0xff, 0xff, 0xff, 0xff, 0xff, 0xff,
     0xff, 0xff, 0xff, 0xff, 0xff, 0xff, 0xff, 0xff, 0xff, 0xff, 0xff, 0xff, 0xff, 0xff, 0xff, 0xff,
     0x00, 0x01, 0x02, 0x03, 0x04, 0x05, 0x06, 0x07, 0x08, 0x09, 0xff, 0xff, 0xff, 0xff, 0xff, 0xff,
     0xff, 0x0a, 0x0b, 0x0c, 0x0d, 0x0e, 0x0f, 0xff, 0xff, 0xff, 0xff, 0xff, 0xff, 0xff, 0xff, 0xff,
     0xff, 0xff, 0xff, 0xff, 0xff, 0xff, 0xff, 0xff, 0xff, 0xff, 0xff, 0xff, 0xff, 0xff, 0xff, 0xff,
     0xff, 0x0a, 0x0b, 0x0c, 0x0d, 0x0e, 0x0f, 0xff, 0xff, 0xff, 0xff, 0xff, 0xff, 0xff, 0xff, 0xff,
     0xff, 0xff, 0xff, 0xff, 0xff, 0xff, 0xff, 0xff, 0xff, 0xff, 0xff, 0xff, 0xff, 0xff, 0xff, 0xff,
     0xff, 0xff, 0xff, 0xff, 0xff, 0xff, 0xff, 0xff, 0xff, 0xff, 0xff, 0xff, 0xff, 0xff, 0xff, 0xff,
     0xff, 0xff, 0xff, 0xff, 0xff, 0xff, 0xff, 0xff, 0xff, 0xff, 0xff, 0xff, 0xff, 0xff, 0xff, 0xff,
     0xff, 0xff, 0xff, 0xff, 0xff, 0xff, 0xff, 0xff, 0xff, 0xff, 0xff, 0xff, 0xff, 0xff, 0xff, 0xff,
     0xff, 0xff, 0xff, 0xff, 0xff, 0xff, 0xff, 0xff, 0xff, 0xff, 0xff, 0xff, 0xff, 0xff, 0xff, 0xff,
     0xff, 0xff, 0xff, 0xff, 0xff, 0xff, 0xff, 0xff, 0xff, 0xff, 0xff, 0xff, 0xff, 0xff, 0xff, 0xff,
     0xff, 0xff, 0xff, 0xff, 0xff, 0xff, 0xff, 0xff, 0xff, 0xff, 0xff, 0xff, 0xff, 0xff, 0xff, 0xff,
     0xff, 0xff, 0xff, 0xff, 0xff, 0xff, 0xff, 0xff, 0xff, 0xff, 0xff, 0xff, 0xff, 0xff, 0xff, 0xff,
     0xff, 0xff, 0xff, 0xff, 0xff, 0xff, 0xff, 0xff, 0xff, 0xff, 0xff, 0xff, 0xff, 0xff, 0xff, 0xff]"

definition fromHex_char_throw :: "char \<Rightarrow> exc + u8" where
  "fromHex_char_throw character =
     (let value = characterValues ! of_char character
      in if value > 0x0f then Inl (RuntimeError ''fromHex: invalid character'') else Inr value)"

text \<open>The flag and the new value of the reference parameter.\<close>

definition fromHex_char :: "char \<Rightarrow> u8 \<Rightarrow> bool \<times> u8" where
  "fromHex_char character value =
     (if characterValues ! of_char character > 0x0f then (False, value)
      else (True, characterValues ! of_char character))"

text \<open>
  The loop over the character pairs that throws, writing from index \<open>i\<close> into the buffer. A
  trailing odd character is never read.
\<close>

fun fromHex_loop_throw :: "string \<Rightarrow> nat \<Rightarrow> bytes \<Rightarrow> exc + bytes" where
  "fromHex_loop_throw (a # b # rest) i data =
     (case fromHex_char_throw a of Inl e \<Rightarrow> Inl e
      | Inr v1 \<Rightarrow> (case fromHex_char_throw b of Inl e \<Rightarrow> Inl e
         | Inr v2 \<Rightarrow> fromHex_loop_throw rest (Suc i) (data[i := push_bit 4 v1 OR v2])))"
| "fromHex_loop_throw _ i data = Inr data"

text \<open>The loop that reports failure, leaving in the buffer what it has written so far.\<close>

fun fromHex_loop :: "string \<Rightarrow> nat \<Rightarrow> bytes \<Rightarrow> bool \<times> bytes" where
  "fromHex_loop (a # b # rest) i data =
     (case fromHex_char a 0 of (False, _) \<Rightarrow> (False, data)
      | (True, value1) \<Rightarrow> (case fromHex_char b 0 of (False, _) \<Rightarrow> (False, data)
         | (True, value2) \<Rightarrow> fromHex_loop rest (Suc i) (data[i := push_bit 4 value1 OR value2])))"
| "fromHex_loop _ i data = (True, data)"

fun fromHex_append_loop :: "string \<Rightarrow> bytes \<Rightarrow> bool \<times> bytes" where
  "fromHex_append_loop (a # b # rest) data =
     (case fromHex_char a 0 of (False, _) \<Rightarrow> (False, data)
      | (True, value1) \<Rightarrow> (case fromHex_char b 0 of (False, _) \<Rightarrow> (False, data)
         | (True, value2) \<Rightarrow> fromHex_append_loop rest (data @ [push_bit 4 value1 OR value2])))"
| "fromHex_append_loop _ data = (True, data)"

text \<open>
  \<open>fromHex(text, data, bufferSize)\<close>: the buffer is a list of \<open>bufferSize\<close> bytes; the result is the
  number of bytes written and the buffer.
\<close>

definition fromHex_buffer_throw :: "string \<Rightarrow> bytes \<Rightarrow> exc + nat \<times> bytes" where
  "fromHex_buffer_throw text data =
     (if length text mod 2 \<noteq> 0 then Inl (RuntimeError ''fromHex: invalid string size'')
      else if length text div 2 > length data then Inl (RuntimeError ''fromHex: invalid buffer size'')
      else case fromHex_loop_throw text 0 data of Inl e \<Rightarrow> Inl e
        | Inr data' \<Rightarrow> Inr (length text div 2, data'))"

text \<open>The success flag, the new \<open>size\<close> (\<open>None\<close>: not assigned) and the buffer.\<close>

definition fromHex_buffer :: "string \<Rightarrow> bytes \<Rightarrow> bool \<times> nat option \<times> bytes" where
  "fromHex_buffer text data =
     (if length text mod 2 \<noteq> 0 then (False, None, data)
      else if length text div 2 > length data then (False, None, data)
      else case fromHex_loop text 0 data of
          (False, data') \<Rightarrow> (False, None, data')
        | (True, data') \<Rightarrow> (True, Some (length text div 2), data'))"

definition fromHex :: "string \<Rightarrow> exc + bytes" where
  "fromHex text =
     (if length text mod 2 \<noteq> 0 then Inl (RuntimeError ''fromHex: invalid string size'')
      else fromHex_loop_throw text 0 (replicate (length text div 2) 0))"

definition fromHex_append :: "string \<Rightarrow> bytes \<Rightarrow> bool \<times> bytes" where
  "fromHex_append text data =
     (if length text mod 2 \<noteq> 0 then (False, data) else fromHex_append_loop text data)"

text \<open>\<open>podFromHex\<close> for a POD of \<open>length val\<close> bytes: the flag and the new value.\<close>

definition podFromHex :: "string \<Rightarrow> bytes \<Rightarrow> bool \<times> bytes" where
  "podFromHex text val =
     (case fromHex_buffer text val of
        (False, _, val') \<Rightarrow> (False, val')
      | (True, outSize, val') \<Rightarrow> (outSize = Some (length val), val'))"

definition hexDigits :: string where
  "hexDigits = ''0123456789abcdef''"

definition toHex_append :: "bytes \<Rightarrow> string \<Rightarrow> string" where
  "toHex_append data text =
     foldl (\<lambda>text b. text @ [hexDigits ! unat (drop_bit 4 b)] @ [hexDigits ! unat (b AND 15)]) text data"

definition toHex :: "bytes \<Rightarrow> string" where
  "toHex data =
     foldl (\<lambda>text b. text @ [hexDigits ! unat (drop_bit 4 b)] @ [hexDigits ! unat (b AND 15)]) [] data"

definition podToHex :: "bytes \<Rightarrow> string" where
  "podToHex s = toHex s"


section \<open>Trimming, prefixes, splitting\<close>

text \<open>\<open>std::string::find_first_not_of\<close> and \<open>find_last_not_of\<close> on the whitespace set of the code.\<close>

definition whitespace :: string where
  "whitespace = [CHR '' '', CHR 0x09, CHR 0x0A, CHR 0x0D, CHR 0x0C, CHR 0x0B]"

definition removeCharFromString :: "string \<Rightarrow> char \<Rightarrow> string" where
  "removeCharFromString str c = filter (\<lambda>x. x \<noteq> c) str"

definition leftTrim :: "string \<Rightarrow> string" where
  "leftTrim str = dropWhile (\<lambda>c. c \<in> set whitespace) str"

definition rightTrim :: "string \<Rightarrow> string" where
  "rightTrim str = rev (dropWhile (\<lambda>c. c \<in> set whitespace) (rev str))"

definition trim :: "string \<Rightarrow> string" where
  "trim str = leftTrim (rightTrim str)"

text \<open>\<open>str.rfind(substring, 0) == 0\<close>: the substring occurs at position 0.\<close>

definition startsWith :: "string \<Rightarrow> string \<Rightarrow> bool" where
  "startsWith str substring \<longleftrightarrow> take (length substring) str = substring"

definition removePrefix :: "string \<Rightarrow> string \<Rightarrow> string" where
  "removePrefix str prefix =
     (if take (length prefix) str = prefix then drop (length prefix) str else str)"

text \<open>
  Repeated \<open>std::getline\<close>: a token up to the delimiter, which is dropped; no token is produced
  when nothing is left.
\<close>

function split :: "string \<Rightarrow> char \<Rightarrow> string list" where
  "split str delimiter =
     (if str = [] then []
      else takeWhile (\<lambda>c. c \<noteq> delimiter) str
         # split (tl (dropWhile (\<lambda>c. c \<noteq> delimiter) str)) delimiter)"
  by pat_completeness auto
termination
proof (relation "measure (\<lambda>(str, _). length str)")
  fix str :: string and delimiter :: char
  assume "str \<noteq> []"
  then have "0 < length str" by simp
  with length_dropWhile_le [of "\<lambda>c. c \<noteq> delimiter" str]
  have "length (dropWhile (\<lambda>c. c \<noteq> delimiter) str) - 1 < length str" by linarith
  then show "((tl (dropWhile (\<lambda>c. c \<noteq> delimiter) str), delimiter), str, delimiter)
      \<in> measure (\<lambda>(str, _). length str)" by simp
qed simp

declare split.simps [simp del]

text \<open>\<open>extract(text, delimiter)\<close>: the part before the delimiter, and the new \<open>text\<close>.\<close>

definition extract_text :: "string \<Rightarrow> char \<Rightarrow> string \<times> string" where
  "extract_text text delimiter =
     (if delimiter \<in> set text
      then (takeWhile (\<lambda>c. c \<noteq> delimiter) text, tl (dropWhile (\<lambda>c. c \<noteq> delimiter) text))
      else (text, []))"

text \<open>
  \<open>extract(text, delimiter, offset)\<close>: the result and the new offset. \<open>substr(pos, n)\<close> is
  \<open>take n (drop pos text)\<close>.
\<close>

definition extract_offset :: "string \<Rightarrow> char \<Rightarrow> nat \<Rightarrow> string \<times> nat" where
  "extract_offset text delimiter offset =
     (let rest = drop offset text
      in if delimiter \<in> set rest
         then let delimiterPosition = offset + length (takeWhile (\<lambda>c. c \<noteq> delimiter) rest);
                  offset' = delimiterPosition + 1
              in (take delimiterPosition (drop offset' text), offset')
         else let offset' = length text in (drop offset' text, offset'))"


section \<open>Numbers as text\<close>

text \<open>\<open>std::to_string\<close> and \<open>operator<<\<close> on an unsigned integer.\<close>

function to_string :: "nat \<Rightarrow> string" where
  "to_string n =
     (if n < 10 then [char_of (48 + n)] else to_string (n div 10) @ [char_of (48 + n mod 10)])"
  by pat_completeness auto
termination by (relation "measure id") auto

declare to_string.simps [simp del]

text \<open>\<open>std::setw(2)\<close> with fill character \<open>0\<close>.\<close>

definition setw2 :: "string \<Rightarrow> string" where
  "setw2 s = replicate (2 - length s) (CHR ''0'') @ s"

definition ipAddressToString :: "u32 \<Rightarrow> string" where
  "ipAddressToString ip =
     (let b0 = ip AND 0xFF;
          b1 = drop_bit 8 ip AND 0xFF;
          b2 = drop_bit 16 ip AND 0xFF;
          b3 = drop_bit 24 ip AND 0xFF
      in to_string (unat b0) @ ''.'' @ to_string (unat b1) @ ''.'' @ to_string (unat b2) @ ''.''
           @ to_string (unat b3))"

definition timeIntervalToString :: "u64 \<Rightarrow> string" where
  "timeIntervalToString intervalInSeconds =
     (let tail = intervalInSeconds;
          days = tail div (60 * 60 * 24);
          tail = tail mod (60 * 60 * 24);
          hours = tail div (60 * 60);
          tail = tail mod (60 * 60);
          minutes = tail div 60;
          tail = tail mod 60;
          seconds = tail
      in ''d'' @ to_string (unat days) @ ''.h'' @ setw2 (to_string (unat hours))
           @ ''.m'' @ setw2 (to_string (unat minutes)) @ ''.s'' @ setw2 (to_string (unat seconds)))"


section \<open>Lemmas\<close>

lemma of_char_less [simp]: "of_char c < (256 :: nat)"
proof -
  have "of_char c mod (256 :: nat) < 256" by (rule mod_less_divisor) simp
  then show ?thesis by (simp only: of_char_mod_256)
qed

lemma length_asString [simp]: "length (asString data) = length data"
  by (simp add: asString_def)

lemma length_asBinaryArray [simp]: "length (asBinaryArray s) = length s"
  by (simp add: asBinaryArray_def)

lemma asString_append [simp]: "asString (a @ b) = asString a @ asString b"
  by (simp add: asString_def)

lemma asBinaryArray_append [simp]: "asBinaryArray (a @ b) = asBinaryArray a @ asBinaryArray b"
  by (simp add: asBinaryArray_def)

lemma asBinaryArray_asString [simp]: "asBinaryArray (asString data) = data"
proof -
  have "unat b mod 256 = unat b" for b :: u8 by simp
  then show ?thesis by (simp add: asBinaryArray_def asString_def comp_def map_idI)
qed

lemma asString_asBinaryArray [simp]: "asString (asBinaryArray s) = s"
proof -
  have "unat (word_of_nat (of_char c) :: u8) = of_char c" for c
    by (rule unat_word_of_nat) simp
  then show ?thesis by (simp add: asBinaryArray_def asString_def comp_def map_idI)
qed

text \<open>The value of a hexadecimal digit, and its lower-case spelling.\<close>

definition toLower :: "char \<Rightarrow> char" where
  "toLower c = (if 65 \<le> (of_char c :: nat) \<and> (of_char c :: nat) \<le> 90 then char_of (of_char c + 32 :: nat) else c)"

lemma hex_digit_value:
  "n < 16 \<Longrightarrow> characterValues ! of_char (hexDigits ! n) = word_of_nat n"
proof -
  have "list_all (\<lambda>n. characterValues ! of_char (hexDigits ! n) = word_of_nat n) [0..<16]"
    by code_simp
  then show "n < 16 \<Longrightarrow> ?thesis" by (simp add: list_all_iff)
qed

lemma hex_digit_spelling:
  assumes "\<not> characterValues ! of_char c > 0x0f"
  shows "unat (characterValues ! of_char c) < 16"
    and "hexDigits ! unat (characterValues ! of_char c) = toLower c"
proof -
  have "list_all (\<lambda>(n, v). v > 0x0f \<or> (unat v < 16 \<and> hexDigits ! unat v = toLower (char_of n)))
      (enumerate 0 characterValues)"
    by code_simp
  moreover have "length characterValues = 256" by (simp add: characterValues_def)
  then have "(of_char c, characterValues ! of_char c) \<in> set (enumerate 0 characterValues)"
    by (simp add: in_set_enumerate_eq)
  ultimately show "unat (characterValues ! of_char c) < 16"
    and "hexDigits ! unat (characterValues ! of_char c) = toLower c"
    using assms by (fastforce simp: list_all_iff)+
qed

text \<open>What the six loops compute, as one function on the pairs of digits.\<close>

definition hexValue :: "char \<Rightarrow> u8 option" where
  "hexValue c = (if characterValues ! of_char c > 0x0f then None else Some (characterValues ! of_char c))"

fun unhex :: "string \<Rightarrow> bytes option" where
  "unhex (a # b # rest) =
     (case (hexValue a, hexValue b, unhex rest) of
        (Some v1, Some v2, Some ds) \<Rightarrow> Some ((push_bit 4 v1 OR v2) # ds)
      | _ \<Rightarrow> None)"
| "unhex _ = Some []"

lemma fromHex_char_hexValue:
  "fromHex_char c v = (case hexValue c of None \<Rightarrow> (False, v) | Some w \<Rightarrow> (True, w))"
  "fromHex_char_throw c = (case hexValue c of
     None \<Rightarrow> Inl (RuntimeError ''fromHex: invalid character'') | Some w \<Rightarrow> Inr w)"
  by (simp_all add: fromHex_char_def fromHex_char_throw_def hexValue_def)

lemma length_unhex: "unhex t = Some ds \<Longrightarrow> length ds = length t div 2"
  by (induction t arbitrary: ds rule: unhex.induct) (auto split: option.splits)

lemma write_prefix:
  "i < length data \<Longrightarrow> take (Suc i) (data[i := v]) @ ds @ drop (Suc i + length ds) (data[i := v])
     = take i data @ (v # ds) @ drop (i + length (v # ds)) data"
  by (simp add: take_Suc_conv_app_nth)

lemma fromHex_loop_throw_unhex:
  "i + length t div 2 \<le> length data \<Longrightarrow>
   fromHex_loop_throw t i data = (case unhex t of
       None \<Rightarrow> Inl (RuntimeError ''fromHex: invalid character'')
     | Some ds \<Rightarrow> Inr (take i data @ ds @ drop (i + length ds) data))"
proof (induction t arbitrary: i data rule: unhex.induct)
  case (1 a b rest)
  have "i < length data" using "1.prems" by simp
  then show ?case
    using 1 by (auto simp: fromHex_char_hexValue take_Suc_conv_app_nth split: option.splits)
qed auto

lemma fromHex_loop_unhex:
  "i + length t div 2 \<le> length data \<Longrightarrow>
   (case unhex t of
       None \<Rightarrow> \<not> fst (fromHex_loop t i data)
     | Some ds \<Rightarrow> fromHex_loop t i data = (True, take i data @ ds @ drop (i + length ds) data))"
proof (induction t arbitrary: i data rule: unhex.induct)
  case (1 a b rest)
  have "i < length data" using "1.prems" by simp
  then show ?case
    using 1 by (auto simp: fromHex_char_hexValue take_Suc_conv_app_nth split: option.splits)
qed auto

lemma fromHex_append_loop_unhex:
  "case unhex t of
       None \<Rightarrow> \<not> fst (fromHex_append_loop t data)
     | Some ds \<Rightarrow> fromHex_append_loop t data = (True, data @ ds)"
  by (induction t arbitrary: data rule: unhex.induct)
     (auto simp: fromHex_char_hexValue split: option.splits)

lemma foldl_append: "foldl (\<lambda>t b. t @ f b) acc xs = acc @ concat (map f xs)"
  by (induction xs arbitrary: acc) auto

lemma toHex_simps:
  "toHex [] = []"
  "toHex (b # bs) = (hexDigits ! unat (drop_bit 4 b)) # (hexDigits ! unat (b AND 15)) # toHex bs"
  by (simp_all add: toHex_def foldl_append)

lemma toHex_append_eq: "toHex_append data text = text @ toHex data"
  by (simp add: toHex_append_def toHex_def foldl_append)

lemma length_toHex [simp]: "length (toHex d) = 2 * length d"
  by (induction d) (simp_all add: toHex_simps)

lemma nibbles:
  fixes b :: u8
  shows "unat (drop_bit 4 b) < 16" "unat (b AND 15) < 16"
    "push_bit 4 (drop_bit 4 b) OR (b AND 15) = b"
proof -
  have u: "unat b < 256" by simp
  then show "unat (drop_bit 4 b) < 16" unfolding unat_drop_bit by (simp add: less_mult_imp_div_less)
  have m: "b AND 15 = take_bit 4 b" by (simp add: take_bit_eq_mask mask_eq_exp_minus_1)
  show "unat (b AND 15) < 16" unfolding m unat_take_bit by simp
  show "push_bit 4 (drop_bit 4 b) OR (b AND 15) = b"
    unfolding m by (rule bit_eqI) (auto simp: bit_simps)
qed

lemma nibbles_of:
  fixes v w :: u8
  assumes v: "unat v < 16" and w: "unat w < 16"
  shows "drop_bit 4 (push_bit 4 v OR w) = v" "(push_bit 4 v OR w) AND 15 = w"
proof -
  have "unat (w OR push_bit 4 v) = unat w + unat v * 2 ^ 4"
    by (rule unat_or_push_bit) (use v w in simp_all)
  then have u: "unat (push_bit 4 v OR w) = unat w + unat v * 16" by (simp add: or.commute)
  have "unat (drop_bit 4 (push_bit 4 v OR w)) = unat v" unfolding unat_drop_bit u using w by simp
  then show "drop_bit 4 (push_bit 4 v OR w) = v" by (simp only: word_unat_eq_iff)
  have m: "x AND 15 = take_bit 4 x" for x :: u8 by (simp add: take_bit_eq_mask mask_eq_exp_minus_1)
  have "unat ((push_bit 4 v OR w) AND 15) = unat w" unfolding m unat_take_bit u using w by simp
  then show "(push_bit 4 v OR w) AND 15 = w" by (simp only: word_unat_eq_iff)
qed

lemma hexValue_digit: "unat v < 16 \<Longrightarrow> hexValue (hexDigits ! unat v) = Some v"
  using hex_digit_value [of "unat v"] by (auto simp: hexValue_def word_less_nat_alt)

lemma unhex_toHex: "unhex (toHex d) = Some d"
  by (induction d) (simp_all add: toHex_simps hexValue_digit nibbles)

lemma hexValue_spelling:
  "hexValue c = Some v \<Longrightarrow> unat v < 16 \<and> hexDigits ! unat v = toLower c"
  using hex_digit_spelling [of c] by (auto simp: hexValue_def split: if_splits)

lemma toHex_unhex: "unhex t = Some d \<Longrightarrow> even (length t) \<Longrightarrow> toHex d = map toLower t"
proof (induction t arbitrary: d rule: unhex.induct)
  case (1 a b rest)
  then show ?case
    by (auto simp: toHex_simps nibbles_of simp del: drop_bit_or dest!: hexValue_spelling split: option.splits)
qed (auto simp: toHex_simps)


text \<open>
  The three-argument \<open>extract\<close> moves \<open>offset\<close> before it takes the substring: on \<open>a:b\<close> from 0 it
  returns what follows the delimiter, where the two-argument overload returns what precedes it.
\<close>

lemma extract_offset_returns_next:
  "extract_offset ''a:b'' (CHR '':'') 0 = (''b'', 2)" "extract_text ''a:b'' (CHR '':'') = (''a'', ''b'')"
  by code_simp+


section \<open>Properties\<close>

text \<open>
  Hexadecimal round trip. What \<open>toHex\<close> writes is read back exactly by every overload of
  \<open>fromHex\<close>: the one that returns a vector, the one that appends to a vector, and \<open>podFromHex\<close> on
  a POD of the right size; \<open>podFromHex\<close> refuses text for a POD of any other size.
\<close>

lemma hex_round_trip:
  "fromHex (toHex d) = Inr d
   \<and> fromHex_append (toHex d) acc = (True, acc @ d)
   \<and> (podFromHex (podToHex d) val = (True, d) \<longleftrightarrow> length val = length d)
   \<and> (fst (podFromHex (podToHex d) val) \<longleftrightarrow> length val = length d)"
proof -
  have "fromHex (toHex d) = Inr d"
    by (simp add: fromHex_def fromHex_loop_throw_unhex unhex_toHex)
  moreover have "fromHex_append (toHex d) acc = (True, acc @ d)"
    using fromHex_append_loop_unhex [of "toHex d" acc] by (simp add: fromHex_append_def unhex_toHex)
  moreover have "podFromHex (podToHex d) val =
      (if length d \<le> length val then (length val = length d, d @ drop (length d) val) else (False, val))"
    using fromHex_loop_unhex [of 0 "toHex d" val]
    by (auto simp: podFromHex_def podToHex_def fromHex_buffer_def unhex_toHex split: prod.splits)
  ultimately show ?thesis by auto
qed

text \<open>
  A text that \<open>fromHex\<close> accepts is the hexadecimal form of its result, up to the case of the
  letters: no other text decodes to the same bytes.
\<close>

lemma toHex_fromHex:
  assumes "fromHex t = Inr d"
  shows "toHex d = map toLower t"
proof -
  have even: "even (length t)" using assms by (auto simp: fromHex_def even_iff_mod_2_eq_zero split: if_splits)
  with assms have "unhex t = Some d"
    by (auto simp: fromHex_def fromHex_loop_throw_unhex dest: length_unhex split: if_splits option.splits)
  then show ?thesis using even by (rule toHex_unhex)
qed

lemma toHex_fromHex_witness:
  "fromHex ''0aFf'' = Inr [0x0a, 0xff] \<and> toHex [0x0a, 0xff] = map toLower ''0aFf''"
proof -
  have "fromHex ''0aFf'' = Inr [0x0a, 0xff]" by code_simp
  with toHex_fromHex [OF this] show ?thesis by blast
qed

end
