(* ===== verification/Streams.thy ===== *)
theory Streams
  imports Varint Strings
begin

text \<open>
  Binary streams: \<open>src/common/StreamTools.cpp\<close>, \<open>src/common/MemoryInputStream.cpp\<close>,
  \<open>BinaryInputStreamSerializer.cpp\<close>, \<open>BinaryOutputStreamSerializer.cpp\<close>,
  \<open>SerializationOverloads.h\<close> and \<open>SerializationTools.h\<close> of \<open>src/serialization\<close>.

  A \<open>MemoryInputStream\<close> is the list of its unread bytes; reading returns the exception thrown or the
  value with the stream that is left. A writer returns the exception thrown or the bytes written.
  \<open>serialize(value, serializer)\<close> is one C++ function for both directions; here each type has a
  writer (\<open>type() == OUTPUT\<close>) and a reader (\<open>type() == INPUT\<close>). A reader that runs out of bytes throws;
  where the code first resizes a container to a size it has read, an allocation failure is also
  an exception, and the reader of the model then fails at the missing bytes.

  The locale \<open>codec\<close> is the contract of a pair of a writer and a reader; \<open>canonical_codec\<close> adds that the
  reader accepts nothing but what the writer produces.
\<close>

type_synonym 'a reader = "bytes \<Rightarrow> exc + 'a \<times> bytes"
type_synonym 'a writer = "'a \<Rightarrow> exc + bytes"

named_theorems stream_simps \<open>running readers and writers\<close>


section \<open>Sequencing\<close>

definition bindR :: "'a reader \<Rightarrow> ('a \<Rightarrow> 'b reader) \<Rightarrow> 'b reader" where
  "bindR r f bs = (case r bs of Inl e \<Rightarrow> Inl e | Inr (x, rest) \<Rightarrow> f x rest)"

definition returnR :: "'a \<Rightarrow> 'a reader" where
  "returnR x bs = Inr (x, bs)"

definition throwR :: "exc \<Rightarrow> 'a reader" where
  "throwR e bs = Inl e"

definition appendW :: "exc + bytes \<Rightarrow> exc + bytes \<Rightarrow> exc + bytes" where
  "appendW a b = (case a of Inl e \<Rightarrow> Inl e | Inr x \<Rightarrow> (case b of Inl e \<Rightarrow> Inl e | Inr y \<Rightarrow> Inr (x @ y)))"


section \<open>Raw bytes and varints\<close>

text \<open>\<open>Common::read(stream, data, size)\<close>.\<close>

definition read_bytes :: "nat \<Rightarrow> bytes reader" where
  "read_bytes n bs =
     (if n \<le> length bs then Inr (take n bs, drop n bs)
      else Inl (RuntimeError ''Failed to read from IInputStream''))"

text \<open>\<open>readVarint\<close> at the width of the result, \<open>uint8_t\<close> to \<open>uint64_t\<close>.\<close>

fun readVarint_loop :: "bytes \<Rightarrow> nat \<Rightarrow> 'a :: len word \<Rightarrow> exc + 'a word \<times> bytes" where
  "readVarint_loop [] shift temp = Inl (RuntimeError ''Failed to read from IInputStream'')"
| "readVarint_loop (piece # rest) shift temp =
     (if shift \<ge> LENGTH('a) - 7 \<and> unat piece \<ge> 2 ^ (LENGTH('a) - shift)
      then Inl (RuntimeError ''readVarint, value overflow'')
      else
        let temp' = temp OR ucast (push_bit shift (ucast (piece AND 0x7f)) :: u64)
        in if piece AND 0x80 = 0 then
             if piece = 0 \<and> shift \<noteq> 0
             then Inl (RuntimeError ''readVarint, invalid value representation'')
             else Inr (temp', rest)
           else readVarint_loop rest (shift + 7) temp')"

definition readVarint :: "'a :: len word reader" where
  "readVarint bs = readVarint_loop bs 0 0"

function writeVarint :: "u64 \<Rightarrow> bytes" where
  "writeVarint value =
     (if value \<ge> 0x80 then ucast (value OR 0x80) # writeVarint (drop_bit 7 value)
      else [ucast value])"
  by pat_completeness auto
termination
proof (relation "measure unat")
  fix i :: u64
  assume "0x80 \<le> i"
  then have "0 < unat i" by (simp add: word_le_nat_alt)
  then show "(drop_bit 7 i, i) \<in> measure unat"
    by (simp add: unat_drop_bit)
qed simp

declare writeVarint.simps [simp del]


section \<open>Serializer operations\<close>

text \<open>An unsigned integer: a varint of its width. All widths are written through \<open>uint64_t\<close>.\<close>

definition serialize_uint :: "'a :: len word writer" where
  "serialize_uint value = Inr (writeVarint (ucast value))"

definition deserialize_uint :: "'a :: len word reader" where
  "deserialize_uint = readVarint"

text \<open>\<open>binary(value, size)\<close> for a POD of \<open>size\<close> bytes.\<close>

definition serialize_binary :: "bytes writer" where
  "serialize_binary value = Inr value"

definition deserialize_binary :: "nat \<Rightarrow> bytes reader" where
  "deserialize_binary size' = read_bytes size'"

text \<open>
  A string with its size in front. Under the name \<open>mm_tag\<close> the reader skips a string larger than
  \<open>MAX_EXTRA_SIZE\<close> and returns the empty string.
\<close>

definition serialize_string :: "bytes writer" where
  "serialize_string value = Inr (writeVarint (word_of_nat (length value)) @ value)"

definition deserialize_string :: "bool \<Rightarrow> bytes reader" where
  "deserialize_string named_mm_tag =
     bindR (readVarint :: u64 reader) (\<lambda>size'.
       if size' > MAX_EXTRA_SIZE \<and> named_mm_tag
       then bindR (read_bytes (unat size')) (\<lambda>_. returnR [])
       else if size' > 0 then read_bytes (unat size') else returnR [])"

text \<open>\<open>bool\<close>: one byte.\<close>

definition serialize_bool :: "bool writer" where
  "serialize_bool value = Inr [if value then 1 else 0]"

definition deserialize_bool :: "bool reader" where
  "deserialize_bool = bindR (read_bytes 1) (\<lambda>b. returnR (b \<noteq> [0]))"

text \<open>\<open>serializeContainer\<close>: the size and then the items.\<close>

fun serialize_items :: "'a writer \<Rightarrow> 'a list writer" where
  "serialize_items ser [] = Inr []"
| "serialize_items ser (x # xs) = appendW (ser x) (serialize_items ser xs)"

fun deserialize_items :: "'a reader \<Rightarrow> nat \<Rightarrow> 'a list reader" where
  "deserialize_items des 0 = returnR []"
| "deserialize_items des (Suc n) = bindR des (\<lambda>x. bindR (deserialize_items des n) (\<lambda>xs. returnR (x # xs)))"

definition serializeContainer :: "'a writer \<Rightarrow> 'a list writer" where
  "serializeContainer ser value =
     appendW (Inr (writeVarint (word_of_nat (length value)))) (serialize_items ser value)"

definition deserializeContainer :: "'a reader \<Rightarrow> 'a list reader" where
  "deserializeContainer des =
     bindR (readVarint :: u64 reader) (\<lambda>size'. deserialize_items des (unat size'))"

text \<open>\<open>serializeAsBinary\<close> on a vector of bytes: a string.\<close>

definition serializeAsBinary :: "bytes writer" where
  "serializeAsBinary value = serialize_string value"

definition deserializeAsBinary :: "bytes reader" where
  "deserializeAsBinary = deserialize_string False"

text \<open>\<open>toBinaryArray(object)\<close> and \<open>fromBinaryArray<T>(data)\<close>: all of the data must be consumed.\<close>

definition toBinaryArray :: "'a writer \<Rightarrow> 'a writer" where
  "toBinaryArray ser object = ser object"

definition fromBinaryArray :: "'a reader \<Rightarrow> bytes \<Rightarrow> exc + 'a" where
  "fromBinaryArray des binaryArray =
     (case des binaryArray of Inl e \<Rightarrow> Inl e
      | Inr (object, rest) \<Rightarrow>
          if rest \<noteq> [] then Inl (RuntimeError ''failed to unpack type'') else Inr object)"

text \<open>\<open>serializeBlockHeight\<close>: written as \<open>uint32_t\<close>, read as \<open>uint64_t\<close> and checked.\<close>

definition serializeBlockHeight :: "u32 writer" where
  "serializeBlockHeight blockHeight = serialize_uint blockHeight"

definition deserializeBlockHeight :: "u32 reader" where
  "deserializeBlockHeight =
     bindR (deserialize_uint :: u64 reader) (\<lambda>height.
       if height = -1 then returnR (-1)
       else if height > 0xFFFFFFFF \<and> height < -1
       then throwR (RuntimeError ''Deserialization error: wrong value'')
       else returnR (ucast height))"


section \<open>Codecs\<close>

locale codec =
  fixes wf :: "'a \<Rightarrow> bool"
    and enc :: "'a writer"
    and dec :: "'a reader"
  assumes enc_dec: "wf x \<Longrightarrow> \<exists>p. enc x = Inr p \<and> (\<forall>rest. dec (p @ rest) = Inr (x, rest))"
begin

lemma encE:
  assumes "wf x"
  obtains p where "enc x = Inr p" "\<And>rest. dec (p @ rest) = Inr (x, rest)"
  using enc_dec [OF assms] by blast

text \<open>No encoding is a proper prefix of another: a stream of encodings has one reading.\<close>

lemma prefix_free:
  assumes "wf x" and "wf y" and "enc x = Inr p" and "enc y = Inr q" and "p @ r = q @ s"
  shows "x = y \<and> r = s"
  using assms(3-) encE [OF assms(1)] encE [OF assms(2)] by (metis sum.inject(2) prod.inject)

lemma items_codec:
  assumes "\<forall>x \<in> set xs. wf x"
  shows "\<exists>p. serialize_items enc xs = Inr p
    \<and> (\<forall>rest. deserialize_items dec (length xs) (p @ rest) = Inr (xs, rest))"
  using assms
proof (induction xs)
  case (Cons x xs)
  then obtain p where p: "enc x = Inr p" "\<And>rest. dec (p @ rest) = Inr (x, rest)" by (auto elim: encE)
  from Cons obtain q where q: "serialize_items enc xs = Inr q"
      "\<And>rest. deserialize_items dec (length xs) (q @ rest) = Inr (xs, rest)" by auto
  show ?case using p q by (simp add: appendW_def bindR_def returnR_def)
qed (simp add: returnR_def)

end

locale canonical_codec = codec +
  assumes dec_enc: "dec bs = Inr (x, rest) \<Longrightarrow> wf x \<and> (\<exists>p. enc x = Inr p \<and> bs = p @ rest)"
begin

lemma decE:
  assumes "dec bs = Inr (x, rest)"
  obtains p where "wf x" "enc x = Inr p" "bs = p @ rest"
  using dec_enc [OF assms] by blast

lemma items_canonical:
  "deserialize_items dec n bs = Inr (xs, rest) \<Longrightarrow>
     length xs = n \<and> (\<forall>x \<in> set xs. wf x) \<and> (\<exists>p. serialize_items enc xs = Inr p \<and> bs = p @ rest)"
proof (induction n arbitrary: bs xs)
  case (Suc n)
  from Suc.prems obtain x xs' bs' where x: "dec bs = Inr (x, bs')"
      and xs': "deserialize_items dec n bs' = Inr (xs', rest)" "xs = x # xs'"
    by (auto simp: bindR_def returnR_def split: sum.splits prod.splits)
  from x obtain p where p: "wf x" "enc x = Inr p" "bs = p @ bs'" by (rule decE)
  with Suc.IH [OF xs'(1)] xs'(2) show ?case by (auto simp: appendW_def)
qed (simp add: returnR_def)

text \<open>A whole byte array is accepted exactly when it is the encoding of a well-formed object.\<close>

lemma binary_array_exact:
  "fromBinaryArray dec bs = Inr x \<longleftrightarrow> wf x \<and> toBinaryArray enc x = Inr bs"
proof
  assume "fromBinaryArray dec bs = Inr x"
  then have "dec bs = Inr (x, [])" by (auto simp: fromBinaryArray_def split: sum.splits prod.splits if_splits)
  then show "wf x \<and> toBinaryArray enc x = Inr bs" using dec_enc by (fastforce simp: toBinaryArray_def)
next
  assume x: "wf x \<and> toBinaryArray enc x = Inr bs"
  then obtain p where "enc x = Inr p" "\<And>rest. dec (p @ rest) = Inr (x, rest)" by (auto elim: encE)
  then have "dec bs = Inr (x, [])" using x by (metis append_Nil2 sum.inject(2) toBinaryArray_def)
  then show "fromBinaryArray dec bs = Inr x" by (simp add: fromBinaryArray_def)
qed

end


section \<open>Integers\<close>

lemma writeVarint_eq: "writeVarint i = write_varint i"
proof (induction i rule: write_varint.induct)
  case (1 i)
  have "(ucast (i OR 0x80) :: u8) = ucast i OR 0x80"
    by (simp add: unsigned_or_eq)
  also have "\<dots> = (ucast i AND 0x7f) OR 0x80"
  proof -
    have "0x7f OR 0x80 = (-1 :: u8)" by simp
    then show ?thesis by (simp only: bit.disj_conj_distrib2 and.right_neutral)
  qed
  finally show ?case using 1 by (subst writeVarint.simps, subst write_varint.simps) simp
qed

lemma ucast_push_bit_low:
  assumes "LENGTH('a :: len) \<le> 64"
  shows "(ucast (push_bit shift (x :: u64)) :: 'a word) = push_bit shift (ucast x)"
proof -
  have "unat (ucast (push_bit shift x) :: 'a word) = (unat x * 2 ^ shift) mod 2 ^ 64 mod 2 ^ LENGTH('a)"
    by (simp only: unat_ucast unat_push_bit) simp
  also have "\<dots> = (unat x * 2 ^ shift) mod 2 ^ LENGTH('a)"
    using assms by (intro mod_mod_cancel le_imp_power_dvd)
  also have "\<dots> = unat (push_bit shift (ucast x) :: 'a word)"
    by (simp only: unat_push_bit unat_ucast mod_mult_left_eq)
  finally show ?thesis by (simp only: word_unat_eq_iff)
qed

text \<open>A byte that passes the overflow check adds its low seven bits above the bits read so far.\<close>

lemma accumulated_piece:
  fixes temp :: "'a :: len word"
  assumes novf: "\<not> (shift \<ge> LENGTH('a) - 7 \<and> unat (piece :: u8) \<ge> 2 ^ (LENGTH('a) - shift))"
    and temp: "unat temp < 2 ^ shift" and sh: "shift < LENGTH('a)" and w: "7 \<le> LENGTH('a)" "LENGTH('a) \<le> 64"
  shows "unat (temp OR ucast (push_bit shift (ucast (piece AND 0x7f)) :: u64))
    = unat temp + (unat piece mod 128) * 2 ^ shift"
proof -
  have fit: "(unat piece mod 128) * 2 ^ shift < 2 ^ LENGTH('a)"
  proof (cases "shift \<ge> LENGTH('a) - 7")
    case True
    with novf have "unat piece * 2 ^ shift < 2 ^ (LENGTH('a) - shift) * 2 ^ shift" by simp
    then have "unat piece * 2 ^ shift < 2 ^ LENGTH('a)" using sh by (simp flip: power_add)
    moreover have "(unat piece mod 128) * 2 ^ shift \<le> unat piece * 2 ^ shift" by simp
    ultimately show ?thesis by linarith
  next
    case False
    have "(unat piece mod 128) * 2 ^ shift < 2 ^ 7 * 2 ^ shift" by simp
    also have "\<dots> = 2 ^ (7 + shift)" by (rule power_add [symmetric])
    also have "\<dots> \<le> 2 ^ LENGTH('a)" by (rule power_increasing) (use False w in simp_all)
    finally show ?thesis .
  qed
  let ?p = "ucast (ucast (piece AND 0x7f) :: u64) :: 'a word"
  have "unat piece mod 128 < 2 ^ LENGTH('a)"
  proof -
    have "unat piece mod 128 < 2 ^ 7" by simp
    also have "(2 :: nat) ^ 7 \<le> 2 ^ LENGTH('a)" using w by (intro power_increasing) simp_all
    finally show ?thesis .
  qed
  then have p: "unat ?p = unat piece mod 128"
    by (simp only: unat_ucast [of "ucast (piece AND 0x7f) :: u64"] unat_low7 mod_less)
  have "unat temp + (unat piece mod 128) * 2 ^ shift < 2 ^ LENGTH('a)"
    by (rule shifted_sum_fits [OF fit]) (use temp sh in simp_all)
  then show ?thesis
    using unat_or_push_bit [OF temp, of ?p] p ucast_push_bit_low [OF w(2)] by simp
qed

lemma write_varint_cases:
  obtains (last) "unat m < 128" "write_varint m = [ucast m]" "unat (ucast m :: u8) = unat m"
      "(ucast m :: u8) AND 0x80 = 0"
  | (more) b where "128 \<le> unat m" "write_varint m = b # write_varint (drop_bit 7 m)"
      "unat b = 128 + unat m mod 128" "b AND 0x80 \<noteq> 0" "unat (drop_bit 7 m) = unat m div 128"
proof (cases "unat m < 128")
  case True
  then show thesis using last write_varint_small [OF True] small_varint_byte [OF True] by blast
next
  case False
  let ?b = "((ucast m :: u8) AND 0x7f) OR 0x80"
  have "write_varint m = ?b # write_varint (drop_bit 7 m)"
    using False by (subst write_varint.simps) (simp add: word_le_nat_alt)
  moreover have "unat (drop_bit 7 m) = unat m div 128" using unat_drop_bit [of 7 m] by simp
  moreover have "?b AND 0x80 \<noteq> 0" using varint_byte(3) [of m] by simp
  ultimately show thesis using more [of ?b] False varint_byte(1) [of m] by simp
qed

lemma readVarint_loop_write:
  fixes temp :: "'a :: len word"
  assumes "unat m * 2 ^ shift < 2 ^ LENGTH('a)" and "unat temp < 2 ^ shift" and "shift \<noteq> 0 \<longrightarrow> m \<noteq> 0"
    and w: "7 \<le> LENGTH('a)" "LENGTH('a) \<le> 64"
  shows "\<exists>i :: 'a word. readVarint_loop (write_varint m @ rest) shift temp = Inr (i, rest)
      \<and> unat i = unat temp + unat m * 2 ^ shift"
  using assms(1-3)
proof (induction m arbitrary: shift temp rule: write_varint.induct)
  case (1 m)
  have sw: "shift < LENGTH('a)"
  proof (cases "shift = 0")
    case False
    with "1.prems"(3) have "1 \<le> unat m" by (simp add: Suc_le_eq unat_gt_0)
    then have "1 * 2 ^ shift \<le> unat m * 2 ^ shift" by (rule mult_le_mono1)
    with "1.prems"(1) have "2 ^ shift < (2 ^ LENGTH('a) :: nat)" by linarith
    then show ?thesis by (rule power_less_imp_less_exp [rotated]) simp
  qed simp
  show ?case
  proof (cases m rule: write_varint_cases)
    case last
    have novf: "\<not> (shift \<ge> LENGTH('a) - 7 \<and> unat (ucast m :: u8) \<ge> 2 ^ (LENGTH('a) - shift))"
    proof (rule notI, elim conjE)
      assume "2 ^ (LENGTH('a) - shift) \<le> unat (ucast m :: u8)"
      then have "2 ^ (LENGTH('a) - shift) * 2 ^ shift \<le> unat m * 2 ^ shift"
        unfolding last(3) by (rule mult_le_mono1)
      with "1.prems"(1) sw show False by (simp flip: power_add)
    qed
    have "\<not> ((ucast m :: u8) = 0 \<and> shift \<noteq> 0)"
      using "1.prems"(3) last(3) by (metis unat_0 unat_0_iff)
    with last novf accumulated_piece [OF novf "1.prems"(2) sw w] show ?thesis by auto
  next
    case (more b)
    have p7: "(2 :: nat) ^ (shift + 7) = 128 * 2 ^ shift" by (simp add: power_add)
    have "128 * 2 ^ shift \<le> unat m * 2 ^ shift" using more(1) by simp
    with p7 "1.prems"(1) have "2 ^ (shift + 7) < (2 ^ LENGTH('a) :: nat)" by linarith
    then have sh: "shift + 7 < LENGTH('a)" by (rule power_less_imp_less_exp [rotated]) simp
    then have ns: "\<not> shift \<ge> LENGTH('a) - 7" by linarith
    then have novf: "\<not> (shift \<ge> LENGTH('a) - 7 \<and> unat b \<ge> 2 ^ (LENGTH('a) - shift))" by blast
    let ?temp = "temp OR ucast (push_bit shift (ucast (b AND 0x7f)) :: u64)"
    have temp: "unat ?temp = unat temp + (unat m mod 128) * 2 ^ shift"
      using accumulated_piece [OF novf "1.prems"(2) sw w] more(3) by simp
    have split: "unat m * 2 ^ shift = (unat m mod 128) * 2 ^ shift + (unat m div 128) * 2 ^ (shift + 7)"
    proof -
      have "unat m * 2 ^ shift = (unat m mod 128 + 128 * (unat m div 128)) * 2 ^ shift"
        by (simp only: mod_mult_div_eq)
      then show ?thesis unfolding p7 by (simp only: add_mult_distrib add_mult_distrib2 ac_simps)
    qed
    have "\<exists>i. readVarint_loop (write_varint (drop_bit 7 m) @ rest) (shift + 7) ?temp = Inr (i, rest)
        \<and> unat i = unat ?temp + unat (drop_bit 7 m) * 2 ^ (shift + 7)"
    proof (rule "1.IH")
      show "0x80 \<le> m" using more(1) by (simp add: word_le_nat_alt)
      show "unat (drop_bit 7 m) * 2 ^ (shift + 7) < 2 ^ LENGTH('a)"
        using "1.prems"(1) split unfolding more(5) by linarith
      show "unat ?temp < 2 ^ (shift + 7)"
        using nat_shift_less [OF "1.prems"(2), of "unat m mod 128" 128]
        unfolding temp p7 by (simp only: mult.commute)
      have "unat (drop_bit 7 m) \<noteq> 0" using more(1,5) by simp
      then show "shift + 7 \<noteq> 0 \<longrightarrow> drop_bit 7 m \<noteq> 0" by (metis unat_0)
    qed
    moreover have "readVarint_loop (write_varint m @ rest) shift temp
        = readVarint_loop (write_varint (drop_bit 7 m) @ rest) (shift + 7) ?temp"
      using more(2,4) ns by simp
    ultimately show ?thesis using temp more(5) split by auto
  qed
qed

lemma readVarint_loop_canonical:
  fixes temp :: "'a :: len word"
  assumes "readVarint_loop bs shift temp = Inr (n, rest)" and "unat temp < 2 ^ shift" and "shift < LENGTH('a)"
    and w: "8 \<le> LENGTH('a)" "LENGTH('a) \<le> 64"
  shows "\<exists>m. bs = write_varint m @ rest \<and> unat n = unat temp + unat m * 2 ^ shift \<and> (shift \<noteq> 0 \<longrightarrow> m \<noteq> 0)"
  using assms(1-3)
proof (induction bs arbitrary: shift temp)
  case (Cons piece bs)
  let ?temp = "temp OR ucast (push_bit shift (ucast (piece AND 0x7f)) :: u64)"
  have novf: "\<not> (shift \<ge> LENGTH('a) - 7 \<and> unat piece \<ge> 2 ^ (LENGTH('a) - shift))"
    using Cons.prems(1) by (auto split: if_splits)
  have w7: "7 \<le> LENGTH('a)" using w by simp
  note temp = accumulated_piece [OF novf Cons.prems(2,3) w7 w(2)]
  show ?case
  proof (cases "piece AND 0x80 = 0")
    case True
    then have small: "unat piece < 128" by (simp only: byte_high_bit_iff)
    have nz: "\<not> (piece = 0 \<and> shift \<noteq> 0)" and n: "n = ?temp" "rest = bs"
      using Cons.prems(1) novf True by (auto split: if_splits)
    have u: "unat (ucast piece :: u64) = unat piece" by (simp add: unat_ucast_up)
    have "unat (ucast (ucast piece :: u64) :: u8) = unat piece"
      using unat_ucast [of "ucast piece :: u64", where ?'b = 8] u by simp
    then have "ucast (ucast piece :: u64) = piece" by (simp only: word_unat_eq_iff)
    then have "write_varint (ucast piece) = [piece]" using small u by (simp add: write_varint_small)
    moreover have "shift \<noteq> 0 \<longrightarrow> (ucast piece :: u64) \<noteq> 0" using nz u by (metis unat_0 unat_0_iff)
    ultimately show ?thesis using n temp small u by (intro exI [of _ "ucast piece"]) simp
  next
    case False
    then have big: "128 \<le> unat piece" by (simp only: byte_high_bit_iff not_less)
    have sh: "shift + 7 < LENGTH('a)"
    proof (rule ccontr)
      assume c: "\<not> shift + 7 < LENGTH('a)"
      then have "(2 :: nat) ^ (LENGTH('a) - shift) \<le> 2 ^ 7" by (intro power_increasing) simp_all
      with novf c big show False by simp
    qed
    have loop: "readVarint_loop bs (shift + 7) ?temp = Inr (n, rest)"
      using Cons.prems(1) novf False by (auto simp: Let_def split: if_splits)
    have p7: "(2 :: nat) ^ (shift + 7) = 128 * 2 ^ shift" by (simp add: power_add)
    have t7: "unat ?temp < 2 ^ (shift + 7)"
      using nat_shift_less [OF Cons.prems(2), of "unat piece mod 128" 128]
      unfolding temp p7 by (simp add: mult.commute)
    from Cons.IH [OF loop t7 sh] obtain m' where m': "bs = write_varint m' @ rest"
        "unat n = unat ?temp + unat m' * 2 ^ (shift + 7)" "m' \<noteq> 0" by auto
    from m'(2) have n: "unat n = unat temp + (unat piece mod 128) * 2 ^ shift + unat m' * 2 ^ (shift + 7)"
      unfolding temp .
    have "LENGTH('a) \<le> LENGTH(64)" using w(2) by simp
    then have "unat (ucast n :: u64) = unat n" "unat (ucast temp :: u64) = unat temp" by (simp_all add: unat_ucast_up)
    with continued_value [OF big m'(3), of "ucast n" "ucast temp" shift] n
    obtain m :: u64 where m: "unat m = unat piece - 128 + unat m' * 128" "m \<noteq> 0"
        "unat n = unat temp + unat m * 2 ^ shift" by auto
    have "write_varint m = piece # write_varint m'"
      by (rule write_varint_cons [OF big _ m'(3)]) (rule m(1))
    with m m'(1) show ?thesis by (intro exI [of _ m]) simp
  qed
qed simp

lemma uint_canonical:
  assumes w: "8 \<le> LENGTH('a :: len)" "LENGTH('a) \<le> 64"
  shows "canonical_codec (\<lambda>_. True) serialize_uint (deserialize_uint :: 'a word reader)"
proof
  fix x :: "'a word"
  have "LENGTH('a) \<le> LENGTH(64)" using w(2) by simp
  then have u: "unat (ucast x :: u64) = unat x" by (simp add: unat_ucast_up)
  have "readVarint_loop (write_varint (ucast x) @ rest) 0 0 = Inr (x, rest)" for rest
  proof -
    obtain i :: "'a word" where "readVarint_loop (write_varint (ucast x) @ rest) 0 0 = Inr (i, rest)"
        and i: "unat i = unat x"
      using readVarint_loop_write [of "ucast x" 0 "0 :: 'a word" rest] u w by auto
    moreover from i have "i = x" by (simp only: word_unat_eq_iff)
    ultimately show ?thesis by simp
  qed
  then show "\<exists>p. serialize_uint x = Inr p \<and> (\<forall>rest. deserialize_uint (p @ rest) = Inr (x, rest))"
    by (auto simp: serialize_uint_def deserialize_uint_def readVarint_def writeVarint_eq)
next
  fix bs rest and x :: "'a word"
  assume "deserialize_uint bs = Inr (x, rest)"
  then have "readVarint_loop bs 0 (0 :: 'a word) = Inr (x, rest)"
    by (simp add: deserialize_uint_def readVarint_def)
  from readVarint_loop_canonical [OF this] w obtain m :: u64 where m: "bs = write_varint m @ rest" "unat x = unat m"
    by auto
  have "LENGTH('a) \<le> LENGTH(64)" using w(2) by simp
  then have "unat (ucast x :: u64) = unat m" using m(2) by (simp add: unat_ucast_up)
  then have "ucast x = m" by (simp only: word_unat_eq_iff)
  with m show "True \<and> (\<exists>p. serialize_uint x = Inr p \<and> bs = p @ rest)"
    by (simp add: serialize_uint_def writeVarint_eq)
qed

interpretation uint8: canonical_codec "\<lambda>_. True" serialize_uint "deserialize_uint :: u8 reader"
  by (rule uint_canonical) simp_all

interpretation uint32: canonical_codec "\<lambda>_. True" serialize_uint "deserialize_uint :: u32 reader"
  by (rule uint_canonical) simp_all

interpretation uint64: canonical_codec "\<lambda>_. True" serialize_uint "deserialize_uint :: u64 reader"
  by (rule uint_canonical) simp_all


section \<open>Byte blocks, strings and containers\<close>

lemma binary_canonical: "canonical_codec (\<lambda>b. length b = n) serialize_binary (deserialize_binary n)"
  by unfold_locales
     (auto simp: serialize_binary_def deserialize_binary_def read_bytes_def split: if_splits)

interpretation pod32: canonical_codec "\<lambda>b. length b = 32" serialize_binary "deserialize_binary 32"
  by (rule binary_canonical)

interpretation pod64: canonical_codec "\<lambda>b. length b = 64" serialize_binary "deserialize_binary 64"
  by (rule binary_canonical)

lemma uint64_run:
  "readVarint (writeVarint n @ rest) = Inr (n :: u64, rest)"
  using uint64.enc_dec [of n] by (simp add: serialize_uint_def deserialize_uint_def)

lemma uint64_read:
  assumes "readVarint bs = Inr (n :: u64, rest)"
  shows "bs = writeVarint n @ rest"
  using uint64.dec_enc [of bs n rest] assms by (simp add: serialize_uint_def deserialize_uint_def)

lemma unat_word_of_length [simp]:
  "length xs < 2 ^ 64 \<Longrightarrow> unat (word_of_nat (length xs) :: u64) = length xs"
  by (rule unat_word_of_nat) simp

interpretation byte_string: canonical_codec "\<lambda>b. length b < 2 ^ 64" serialize_string "deserialize_string False"
proof
  fix x :: bytes
  assume "length x < 2 ^ 64"
  then have u: "unat (word_of_nat (length x) :: u64) = length x" by simp
  have "0 < (word_of_nat (length x) :: u64) \<longleftrightarrow> x \<noteq> []"
    using u by (metis length_0_conv unat_0 unat_eq_zero word_gt_0)
  then show "\<exists>p. serialize_string x = Inr p \<and> (\<forall>rest. deserialize_string False (p @ rest) = Inr (x, rest))"
    using u by (auto simp: serialize_string_def deserialize_string_def bindR_def uint64_run read_bytes_def returnR_def)
next
  fix bs rest x
  assume d: "deserialize_string False bs = Inr (x, rest)"
  then obtain n :: u64 and r where n: "readVarint bs = Inr (n, r)"
    by (auto simp: deserialize_string_def bindR_def split: sum.splits)
  with d have r: "r = x @ rest" "length x = unat n"
    by (auto simp: deserialize_string_def bindR_def read_bytes_def returnR_def word_gt_0 split: if_splits)
  have "length x < 2 ^ 64" unfolding r(2) by simp
  moreover have "word_of_nat (length x) = n" unfolding r(2) by simp
  ultimately show "length x < 2 ^ 64 \<and> (\<exists>p. serialize_string x = Inr p \<and> bs = p @ rest)"
    using uint64_read [OF n] r(1) by (simp add: serialize_string_def)
qed

context codec begin

lemma container_enc:
  assumes "length xs < 2 ^ 64" and "\<forall>x \<in> set xs. wf x"
  shows "\<exists>p. serializeContainer enc xs = Inr p \<and> (\<forall>rest. deserializeContainer dec (p @ rest) = Inr (xs, rest))"
proof -
  obtain q where q: "serialize_items enc xs = Inr q"
      "\<And>rest. deserialize_items dec (length xs) (q @ rest) = Inr (xs, rest)"
    using items_codec [OF assms(2)] by blast
  with assms(1) show ?thesis
    by (simp add: serializeContainer_def deserializeContainer_def appendW_def bindR_def uint64_run)
qed

end

context canonical_codec begin

lemma container_dec:
  assumes "deserializeContainer dec bs = Inr (xs, rest)"
  shows "length xs < 2 ^ 64 \<and> (\<forall>x \<in> set xs. wf x)
    \<and> (\<exists>p. serializeContainer enc xs = Inr p \<and> bs = p @ rest)"
proof -
  from assms obtain n :: u64 and r where n: "readVarint bs = Inr (n, r)"
      and items: "deserialize_items dec (unat n) r = Inr (xs, rest)"
    by (auto simp: deserializeContainer_def bindR_def split: sum.splits)
  from items_canonical [OF items] obtain p where p: "length xs = unat n" "\<forall>x \<in> set xs. wf x"
      "serialize_items enc xs = Inr p" "r = p @ rest" by blast
  have "length xs < 2 ^ 64" unfolding p(1) by simp
  moreover have "word_of_nat (length xs) = n" unfolding p(1) by simp
  ultimately show ?thesis
    using p uint64_read [OF n] by (simp add: serializeContainer_def appendW_def)
qed

lemma container_canonical:
  "canonical_codec (\<lambda>xs. length xs < 2 ^ 64 \<and> (\<forall>x \<in> set xs. wf x)) (serializeContainer enc) (deserializeContainer dec)"
  by unfold_locales (use container_enc container_dec in auto)

end

interpretation hashes: canonical_codec "\<lambda>hs. length hs < 2 ^ 64 \<and> (\<forall>h \<in> set hs. length h = 32)"
    "serializeContainer serialize_binary" "deserializeContainer (deserialize_binary 32)"
  by (rule pod32.container_canonical)

interpretation indexes: canonical_codec "\<lambda>xs :: u32 list. length xs < 2 ^ 64 \<and> (\<forall>x \<in> set xs. True)"
    "serializeContainer serialize_uint" "deserializeContainer deserialize_uint"
  by (rule uint32.container_canonical)

lemma bool_round_trip: "\<exists>p. serialize_bool b = Inr p \<and> (\<forall>rest. deserialize_bool (p @ rest) = Inr (b, rest))"
  by (simp add: serialize_bool_def deserialize_bool_def bindR_def read_bytes_def returnR_def)

interpretation bool_byte: codec "\<lambda>_. True" serialize_bool deserialize_bool
  by unfold_locales (rule bool_round_trip)

text \<open>
  \<open>serializeBlockHeight\<close> reads back what it wrote except for the marker: \<open>0xFFFFFFFF\<close> is written as a
  32-bit value and read as that value, and the 64-bit marker is read as \<open>0xFFFFFFFF\<close> too.
\<close>

interpretation block_height: codec "\<lambda>_. True" serializeBlockHeight deserializeBlockHeight
proof
  fix h :: u32
  have u: "unat (ucast h :: u64) = unat h" by (simp add: unat_ucast_up)
  have h: "unat h \<le> 4294967295" by (rule less_Suc_eq_le [THEN iffD1]) simp
  then have le: "\<not> (ucast h :: u64) > 0xFFFFFFFF" using u by (simp add: word_less_nat_alt not_less)
  then have "(ucast h :: u64) \<noteq> -1" by auto
  moreover have "unat (ucast (ucast h :: u64) :: u32) = unat h"
    using unat_ucast [of "ucast h :: u64", where ?'b = 32] u by simp
  then have "ucast (ucast h :: u64) = h" by (simp only: word_unat_eq_iff)
  moreover note le
  ultimately show "\<exists>p. serializeBlockHeight h = Inr p \<and> (\<forall>rest. deserializeBlockHeight (p @ rest) = Inr (h, rest))"
    by (simp add: serializeBlockHeight_def deserializeBlockHeight_def serialize_uint_def deserialize_uint_def
      bindR_def uint64_run returnR_def)
qed

end
