(* ===== verification/Transactions.thy ===== *)
theory Transactions
  imports Streams
begin

text \<open>
  Transactions, \<open>include/CryptoNote.h\<close>, and their binary form, \<open>src/serialization/CryptoNoteSerialization.cpp\<close>.
  \<open>boost::variant\<close>s are datatypes, the structs are records; a struct that inherits from another is
  an extension of its record.
\<close>

section \<open>Data\<close>

datatype TransactionInput =
    BaseInput (blockIndex: u32)
  | KeyInput (amount: u64) (outputIndexes: "u32 list") (keyImage: key_image)

datatype TransactionOutputTarget = KeyOutput (key: public_key)

record TransactionOutput =
  out_amount :: u64
  target :: TransactionOutputTarget

record TransactionPrefix =
  version :: u8
  unlockTime :: u64
  inputs :: "TransactionInput list"
  outputs :: "TransactionOutput list"
  extra :: bytes

record Transaction = TransactionPrefix +
  signatures :: "bytes list list"

type_synonym BaseTransaction = TransactionPrefix

record AccountPublicAddress =
  spendPublicKey :: public_key
  viewPublicKey :: public_key


section \<open>Binary form\<close>

definition getSignaturesCount :: "TransactionInput \<Rightarrow> nat" where
  "getSignaturesCount inp = (case inp of BaseInput _ \<Rightarrow> 0 | KeyInput _ idx _ \<Rightarrow> length idx)"

text \<open>\<open>BinaryVariantTagGetter\<close>.\<close>

definition input_tag :: "TransactionInput \<Rightarrow> u8" where
  "input_tag inp = (case inp of BaseInput _ \<Rightarrow> 0xff | KeyInput _ _ _ \<Rightarrow> 0x2)"

definition target_tag :: "TransactionOutputTarget \<Rightarrow> u8" where
  "target_tag out = (case out of KeyOutput _ \<Rightarrow> 0x2)"

text \<open>\<open>serializeVarintVector\<close>: the size and every element as a varint.\<close>

definition serializeVarintVector :: "u32 list writer" where
  "serializeVarintVector vector = serializeContainer serialize_uint vector"

definition deserializeVarintVector :: "u32 list reader" where
  "deserializeVarintVector = deserializeContainer deserialize_uint"

definition serialize_BaseInput :: "u32 writer" where
  "serialize_BaseInput block_index = serialize_uint block_index"

definition serialize_KeyInput :: "u64 \<Rightarrow> u32 list \<Rightarrow> key_image \<Rightarrow> exc + bytes" where
  "serialize_KeyInput amt idx kimg =
     appendW (serialize_uint amt) (appendW (serializeVarintVector idx) (serialize_binary kimg))"

definition serialize_TransactionInput :: "TransactionInput writer" where
  "serialize_TransactionInput inp =
     appendW (serialize_binary [input_tag inp])
       (case inp of BaseInput i \<Rightarrow> serialize_BaseInput i
        | KeyInput amt idx kimg \<Rightarrow> serialize_KeyInput amt idx kimg)"

definition getVariantValue_input :: "u8 \<Rightarrow> TransactionInput reader" where
  "getVariantValue_input tag =
     (if tag = 0xff then bindR deserialize_uint (\<lambda>i. returnR (BaseInput i))
      else if tag = 0x2 then
        bindR deserialize_uint (\<lambda>amt.
        bindR deserializeVarintVector (\<lambda>idx.
        bindR (deserialize_binary 32) (\<lambda>kimg. returnR (KeyInput amt idx kimg))))
      else throwR (RuntimeError ''Unknown variant tag''))"

definition deserialize_TransactionInput :: "TransactionInput reader" where
  "deserialize_TransactionInput = bindR (deserialize_binary 1) (\<lambda>tag. getVariantValue_input (hd tag))"

definition serialize_KeyOutput :: "public_key writer" where
  "serialize_KeyOutput k = serialize_binary k"

definition serialize_TransactionOutputTarget :: "TransactionOutputTarget writer" where
  "serialize_TransactionOutputTarget out =
     appendW (serialize_binary [target_tag out]) (case out of KeyOutput k \<Rightarrow> serialize_KeyOutput k)"

definition getVariantValue_target :: "u8 \<Rightarrow> TransactionOutputTarget reader" where
  "getVariantValue_target tag =
     (if tag = 0x2 then bindR (deserialize_binary 32) (\<lambda>k. returnR (KeyOutput k))
      else throwR (RuntimeError ''Unknown variant tag''))"

definition deserialize_TransactionOutputTarget :: "TransactionOutputTarget reader" where
  "deserialize_TransactionOutputTarget =
     bindR (deserialize_binary 1) (\<lambda>tag. getVariantValue_target (hd tag))"

definition serialize_TransactionOutput :: "TransactionOutput writer" where
  "serialize_TransactionOutput out =
     appendW (serialize_uint (out_amount out)) (serialize_TransactionOutputTarget (target out))"

definition deserialize_TransactionOutput :: "TransactionOutput reader" where
  "deserialize_TransactionOutput =
     bindR deserialize_uint (\<lambda>amt.
     bindR deserialize_TransactionOutputTarget (\<lambda>t. returnR \<lparr> out_amount = amt, target = t \<rparr>))"

definition serialize_TransactionPrefix :: "'a TransactionPrefix_scheme writer" where
  "serialize_TransactionPrefix txP =
     appendW (serialize_uint (version txP))
     (appendW (serialize_uint (unlockTime txP))
     (appendW (serializeContainer serialize_TransactionInput (inputs txP))
     (appendW (serializeContainer serialize_TransactionOutput (outputs txP))
       (serializeAsBinary (extra txP)))))"

definition deserialize_TransactionPrefix :: "TransactionPrefix reader" where
  "deserialize_TransactionPrefix =
     bindR deserialize_uint (\<lambda>v.
       if CURRENT_TRANSACTION_VERSION < v then throwR (RuntimeError ''Wrong transaction version'')
       else
         bindR deserialize_uint (\<lambda>u.
         bindR (deserializeContainer deserialize_TransactionInput) (\<lambda>vin.
         bindR (deserializeContainer deserialize_TransactionOutput) (\<lambda>vout.
         bindR deserializeAsBinary (\<lambda>e.
           returnR \<lparr> version = v, unlockTime = u, inputs = vin, outputs = vout, extra = e \<rparr>)))))"

text \<open>\<open>serialize(BaseTransaction)\<close>: version 2 carries an ignored number behind the prefix.\<close>

definition serialize_BaseTransaction :: "BaseTransaction writer" where
  "serialize_BaseTransaction tx =
     appendW (serialize_TransactionPrefix tx)
       (if version tx \<ge> TRANSACTION_VERSION_2 then serialize_uint (0 :: u64) else Inr [])"

definition deserialize_BaseTransaction :: "BaseTransaction reader" where
  "deserialize_BaseTransaction =
     bindR deserialize_uint (\<lambda>v.
     bindR deserialize_uint (\<lambda>u.
     bindR (deserializeContainer deserialize_TransactionInput) (\<lambda>vin.
     bindR (deserializeContainer deserialize_TransactionOutput) (\<lambda>vout.
     bindR deserializeAsBinary (\<lambda>e.
     bindR (if v \<ge> TRANSACTION_VERSION_2 then deserialize_uint else returnR (0 :: u64)) (\<lambda>ignored.
       returnR \<lparr> version = v, unlockTime = u, inputs = vin, outputs = vout, extra = e \<rparr>))))))"

text \<open>
  The signatures behind the prefix, one list for every input, with no sizes in front. The \<open>OUTPUT\<close>
  direction checks the numbers of signatures, the \<open>INPUT\<close> direction computes them.
\<close>

fun serialize_signatures :: "bool \<Rightarrow> TransactionInput list \<Rightarrow> bytes list list \<Rightarrow> exc + bytes" where
  "serialize_signatures signaturesNotExpected (inp # ins) sigs =
     (let signatureSize = getSignaturesCount inp
      in if signaturesNotExpected then
           if signatureSize = 0 then serialize_signatures signaturesNotExpected ins sigs
           else Inl (RuntimeError ''Serialization error: signatures are not expected'')
         else case sigs of
             [] \<Rightarrow> Inl (RuntimeError ''Serialization error: unexpected signatures size'')
           | s # ss \<Rightarrow>
               if signatureSize \<noteq> length s
               then Inl (RuntimeError ''Serialization error: unexpected signatures size'')
               else appendW (serialize_items serialize_binary s)
                      (serialize_signatures signaturesNotExpected ins ss))"
| "serialize_signatures signaturesNotExpected [] sigs = Inr []"

definition serialize_Transaction :: "Transaction writer" where
  "serialize_Transaction tx =
     appendW (serialize_TransactionPrefix tx)
       (let signaturesNotExpected = (signatures tx = [])
        in if \<not> signaturesNotExpected \<and> length (inputs tx) \<noteq> length (signatures tx)
           then Inl (RuntimeError ''Serialization error: unexpected signatures size'')
           else serialize_signatures signaturesNotExpected (inputs tx) (signatures tx))"

fun deserialize_signatures :: "TransactionInput list \<Rightarrow> bytes list list reader" where
  "deserialize_signatures [] = returnR []"
| "deserialize_signatures (inp # ins) =
     bindR (deserialize_items (deserialize_binary 64) (getSignaturesCount inp)) (\<lambda>s.
     bindR (deserialize_signatures ins) (\<lambda>ss. returnR (s # ss)))"

text \<open>A coinbase transaction, \<open>sigSize == 1\<close> with a \<open>BaseInput\<close>, keeps no signatures.\<close>

definition is_base_tx :: "TransactionInput list \<Rightarrow> bool" where
  "is_base_tx ins \<longleftrightarrow> (case ins of [BaseInput _] \<Rightarrow> True | _ \<Rightarrow> False)"

definition deserialize_Transaction :: "Transaction reader" where
  "deserialize_Transaction =
     bindR deserialize_TransactionPrefix (\<lambda>p.
     bindR (if is_base_tx (inputs p) then returnR [] else deserialize_signatures (inputs p)) (\<lambda>sigs.
       returnR \<lparr> version = version p, unlockTime = unlockTime p, inputs = inputs p,
         outputs = outputs p, extra = extra p, signatures = sigs \<rparr>))"

definition serialize_AccountPublicAddress :: "AccountPublicAddress writer" where
  "serialize_AccountPublicAddress address =
     appendW (serialize_binary (spendPublicKey address)) (serialize_binary (viewPublicKey address))"

definition deserialize_AccountPublicAddress :: "AccountPublicAddress reader" where
  "deserialize_AccountPublicAddress =
     bindR (deserialize_binary 32) (\<lambda>s.
     bindR (deserialize_binary 32) (\<lambda>v. returnR \<lparr> spendPublicKey = s, viewPublicKey = v \<rparr>))"


section \<open>Well-formed data\<close>

text \<open>
  Keys and images have 32 bytes, signatures 64, vectors fewer than \<open>2 ^ 64\<close> elements: what the C++
  types guarantee of every value.
\<close>

fun wf_input :: "TransactionInput \<Rightarrow> bool" where
  "wf_input (BaseInput _) \<longleftrightarrow> True"
| "wf_input (KeyInput _ idx kimg) \<longleftrightarrow> length idx < 2 ^ 64 \<and> length kimg = 32"

fun wf_target :: "TransactionOutputTarget \<Rightarrow> bool" where
  "wf_target (KeyOutput k) \<longleftrightarrow> length k = 32"

definition wf_output :: "TransactionOutput \<Rightarrow> bool" where
  "wf_output out \<longleftrightarrow> wf_target (target out)"

definition wf_body :: "'a TransactionPrefix_scheme \<Rightarrow> bool" where
  "wf_body tx \<longleftrightarrow>
     length (inputs tx) < 2 ^ 64 \<and> (\<forall>i \<in> set (inputs tx). wf_input i)
     \<and> length (outputs tx) < 2 ^ 64 \<and> (\<forall>out \<in> set (outputs tx). wf_output out)
     \<and> length (extra tx) < 2 ^ 64"

definition wf_prefix :: "'a TransactionPrefix_scheme \<Rightarrow> bool" where
  "wf_prefix tx \<longleftrightarrow> wf_body tx \<and> version tx \<le> CURRENT_TRANSACTION_VERSION"

text \<open>
  The signatures of a transaction: none for a coinbase transaction, otherwise one list per input
  with one signature per ring member.
\<close>

definition wf_signatures :: "TransactionInput list \<Rightarrow> bytes list list \<Rightarrow> bool" where
  "wf_signatures ins sigs \<longleftrightarrow>
     (if is_base_tx ins then sigs = []
      else list_all2 (\<lambda>i s. length s = getSignaturesCount i \<and> (\<forall>x \<in> set s. length x = 64)) ins sigs)"

definition wf_transaction :: "Transaction \<Rightarrow> bool" where
  "wf_transaction tx \<longleftrightarrow> wf_prefix tx \<and> wf_signatures (inputs tx) (signatures tx)"

definition wf_address :: "AccountPublicAddress \<Rightarrow> bool" where
  "wf_address a \<longleftrightarrow> length (spendPublicKey a) = 32 \<and> length (viewPublicKey a) = 32"

text \<open>A small transaction with one ring of two members.\<close>

definition sample_transaction :: Transaction where
  "sample_transaction = \<lparr> version = 1, unlockTime = 0,
     inputs = [KeyInput 100 [5, 7] (replicate 32 1)],
     outputs = [\<lparr> out_amount = 90, target = KeyOutput (replicate 32 2) \<rparr>],
     extra = [1, 2, 3], signatures = [[replicate 64 3, replicate 64 4]] \<rparr>"


section \<open>Codecs of the parts\<close>

lemmas run_simps = appendW_def bindR_def returnR_def throwR_def

text \<open>Running a writer and a reader one after the other.\<close>

lemma appendW_Inr [simp]: "appendW (Inr a) (Inr b) = Inr (a @ b)"
  by (simp add: appendW_def)

lemma bindR_InrE:
  assumes "bindR r f bs = Inr (y, rest)"
  obtains x bs' where "r bs = Inr (x, bs')" "f x bs' = Inr (y, rest)"
  using assms by (auto simp: bindR_def split: sum.splits prod.splits)

lemma bindR_run: "r bs = Inr (x, bs') \<Longrightarrow> bindR r f bs = f x bs'"
  by (simp add: bindR_def)

lemma returnR_run [simp]: "returnR x bs = Inr (x, bs)"
  by (simp add: returnR_def)

lemma throwR_run [simp]: "throwR e bs = Inl e"
  by (simp add: throwR_def)

lemma tag_run: "bindR (deserialize_binary (Suc 0)) f (t # rest) = f [t] rest"
  by (simp add: deserialize_binary_def read_bytes_def bindR_def)

lemma tag_read_iff: "deserialize_binary (Suc 0) bs = Inr (t, rest) \<longleftrightarrow> (\<exists>b. t = [b] \<and> bs = b # rest)"
  by (cases bs) (auto simp: deserialize_binary_def read_bytes_def)

interpretation tx_input: canonical_codec wf_input serialize_TransactionInput deserialize_TransactionInput
proof
  fix x
  assume wf: "wf_input x"
  show "\<exists>p. serialize_TransactionInput x = Inr p \<and> (\<forall>rest. deserialize_TransactionInput (p @ rest) = Inr (x, rest))"
  proof (cases x)
    case (BaseInput i)
    obtain p where p: "serialize_uint i = Inr p" "\<And>rest. deserialize_uint (p @ rest) = Inr (i, rest)"
      using uint32.enc_dec [of i] by blast
    then show ?thesis
      by (simp add: BaseInput serialize_TransactionInput_def deserialize_TransactionInput_def input_tag_def
        serialize_BaseInput_def serialize_binary_def getVariantValue_input_def tag_run bindR_run)
  next
    case (KeyInput amt idx kimg)
    obtain p where p: "serialize_uint amt = Inr p" "\<And>rest. deserialize_uint (p @ rest) = Inr (amt, rest)"
      using uint64.enc_dec [of amt] by blast
    obtain q where q: "serializeVarintVector idx = Inr q" "\<And>rest. deserializeVarintVector (q @ rest) = Inr (idx, rest)"
      using indexes.enc_dec [of idx] wf KeyInput
      unfolding serializeVarintVector_def deserializeVarintVector_def by auto
    obtain r where r: "serialize_binary kimg = Inr r" "\<And>rest. deserialize_binary 32 (r @ rest) = Inr (kimg, rest)"
      using pod32.enc_dec [of kimg] wf KeyInput by auto
    show ?thesis
      using p q r
      by (simp add: KeyInput serialize_TransactionInput_def deserialize_TransactionInput_def input_tag_def
        serialize_KeyInput_def serialize_binary_def getVariantValue_input_def tag_run bindR_run)
  qed
next
  fix bs x rest
  assume "deserialize_TransactionInput bs = Inr (x, rest)"
  then obtain t bs' where t: "bs = t # bs'" and v: "getVariantValue_input t bs' = Inr (x, rest)"
    by (auto simp: deserialize_TransactionInput_def tag_read_iff elim!: bindR_InrE)
  show "wf_input x \<and> (\<exists>p. serialize_TransactionInput x = Inr p \<and> bs = p @ rest)"
  proof (cases "t = 0xff")
    case True
    with v obtain i where "x = BaseInput i" "deserialize_uint bs' = Inr (i, rest)"
      by (auto simp: getVariantValue_input_def elim!: bindR_InrE)
    with t True uint32.dec_enc [of bs' i rest] show ?thesis
      by (auto simp: serialize_TransactionInput_def input_tag_def serialize_BaseInput_def serialize_binary_def)
  next
    case False
    with v obtain amt idx kimg b1 b2 where x: "t = 0x2" "x = KeyInput amt idx kimg"
        and d: "deserialize_uint bs' = Inr (amt, b1)" "deserializeVarintVector b1 = Inr (idx, b2)"
          "deserialize_binary 32 b2 = Inr (kimg, rest)"
      by (auto simp: getVariantValue_input_def elim!: bindR_InrE split: if_splits)
    from uint64.dec_enc [OF d(1)] indexes.dec_enc [OF d(2) [unfolded deserializeVarintVector_def]] pod32.dec_enc [OF d(3)]
    show ?thesis
      by (auto simp: x t serialize_TransactionInput_def input_tag_def serialize_KeyInput_def
        serializeVarintVector_def serialize_binary_def)
  qed
qed

interpretation tx_target: canonical_codec wf_target serialize_TransactionOutputTarget deserialize_TransactionOutputTarget
proof
  fix x
  assume "wf_target x"
  then obtain k where k: "x = KeyOutput k" "length k = 32" by (cases x) auto
  then show "\<exists>p. serialize_TransactionOutputTarget x = Inr p
      \<and> (\<forall>rest. deserialize_TransactionOutputTarget (p @ rest) = Inr (x, rest))"
    using pod32.enc_dec [of k]
    by (auto simp: serialize_TransactionOutputTarget_def deserialize_TransactionOutputTarget_def target_tag_def
      serialize_KeyOutput_def serialize_binary_def getVariantValue_target_def tag_run bindR_run)
next
  fix bs x rest
  assume "deserialize_TransactionOutputTarget bs = Inr (x, rest)"
  then obtain bs' k where "bs = 0x2 # bs'" "x = KeyOutput k" and d: "deserialize_binary 32 bs' = Inr (k, rest)"
    by (auto simp: deserialize_TransactionOutputTarget_def tag_read_iff getVariantValue_target_def
      elim!: bindR_InrE split: if_splits)
  with pod32.dec_enc [OF d] show "wf_target x \<and> (\<exists>p. serialize_TransactionOutputTarget x = Inr p \<and> bs = p @ rest)"
    by (auto simp: serialize_TransactionOutputTarget_def target_tag_def serialize_KeyOutput_def serialize_binary_def)
qed

interpretation tx_output: canonical_codec wf_output serialize_TransactionOutput deserialize_TransactionOutput
proof
  fix x
  assume "wf_output x"
  then obtain q where q: "serialize_TransactionOutputTarget (target x) = Inr q"
      "\<And>rest. deserialize_TransactionOutputTarget (q @ rest) = Inr (target x, rest)"
    by (auto simp: wf_output_def elim: tx_target.encE)
  obtain p where p: "serialize_uint (out_amount x) = Inr p"
      "\<And>rest. deserialize_uint (p @ rest) = Inr (out_amount x, rest)"
    using uint64.enc_dec [of "out_amount x"] by blast
  show "\<exists>p. serialize_TransactionOutput x = Inr p
      \<and> (\<forall>rest. deserialize_TransactionOutput (p @ rest) = Inr (x, rest))"
    using p q by (simp add: serialize_TransactionOutput_def deserialize_TransactionOutput_def bindR_run)
next
  fix bs rest and x :: TransactionOutput
  assume "deserialize_TransactionOutput bs = Inr (x, rest)"
  then obtain amt b1 t where x: "x = \<lparr> out_amount = amt, target = t \<rparr>"
      and d: "deserialize_uint bs = Inr (amt, b1)" "deserialize_TransactionOutputTarget b1 = Inr (t, rest)"
    by (auto simp: deserialize_TransactionOutput_def elim!: bindR_InrE)
  from uint64.dec_enc [OF d(1)] tx_target.dec_enc [OF d(2)]
  show "wf_output x \<and> (\<exists>p. serialize_TransactionOutput x = Inr p \<and> bs = p @ rest)"
    by (auto simp: x wf_output_def serialize_TransactionOutput_def)
qed

interpretation tx_inputs: canonical_codec "\<lambda>xs. length xs < 2 ^ 64 \<and> (\<forall>x \<in> set xs. wf_input x)"
    "serializeContainer serialize_TransactionInput" "deserializeContainer deserialize_TransactionInput"
  by (rule tx_input.container_canonical)

interpretation tx_outputs: canonical_codec "\<lambda>xs. length xs < 2 ^ 64 \<and> (\<forall>x \<in> set xs. wf_output x)"
    "serializeContainer serialize_TransactionOutput" "deserializeContainer deserialize_TransactionOutput"
  by (rule tx_output.container_canonical)


section \<open>Whole transactions\<close>

lemma body_enc:
  fixes tx :: "'a TransactionPrefix_scheme"
  assumes "wf_body tx"
  obtains p1 p2 p3 p4 p5 where
    "serialize_uint (version tx) = Inr p1" "\<And>rest. deserialize_uint (p1 @ rest) = Inr (version tx, rest)"
    "serialize_uint (unlockTime tx) = Inr p2" "\<And>rest. deserialize_uint (p2 @ rest) = Inr (unlockTime tx, rest)"
    "serializeContainer serialize_TransactionInput (inputs tx) = Inr p3"
    "\<And>rest. deserializeContainer deserialize_TransactionInput (p3 @ rest) = Inr (inputs tx, rest)"
    "serializeContainer serialize_TransactionOutput (outputs tx) = Inr p4"
    "\<And>rest. deserializeContainer deserialize_TransactionOutput (p4 @ rest) = Inr (outputs tx, rest)"
    "serializeAsBinary (extra tx) = Inr p5" "\<And>rest. deserializeAsBinary (p5 @ rest) = Inr (extra tx, rest)"
proof -
  obtain p1 where p1: "serialize_uint (version tx) = Inr p1"
      "\<And>rest. deserialize_uint (p1 @ rest) = Inr (version tx, rest)"
    using uint8.enc_dec [of "version tx"] by blast
  obtain p2 where p2: "serialize_uint (unlockTime tx) = Inr p2"
      "\<And>rest. deserialize_uint (p2 @ rest) = Inr (unlockTime tx, rest)"
    using uint64.enc_dec [of "unlockTime tx"] by blast
  obtain p3 where p3: "serializeContainer serialize_TransactionInput (inputs tx) = Inr p3"
      "\<And>rest. deserializeContainer deserialize_TransactionInput (p3 @ rest) = Inr (inputs tx, rest)"
    using tx_inputs.enc_dec [of "inputs tx"] assms unfolding wf_body_def by blast
  obtain p4 where p4: "serializeContainer serialize_TransactionOutput (outputs tx) = Inr p4"
      "\<And>rest. deserializeContainer deserialize_TransactionOutput (p4 @ rest) = Inr (outputs tx, rest)"
    using tx_outputs.enc_dec [of "outputs tx"] assms unfolding wf_body_def by blast
  obtain p5 where p5: "serializeAsBinary (extra tx) = Inr p5"
      "\<And>rest. deserializeAsBinary (p5 @ rest) = Inr (extra tx, rest)"
    using byte_string.enc_dec [of "extra tx"] assms
    unfolding wf_body_def serializeAsBinary_def deserializeAsBinary_def by blast
  from that [OF p1 p2 p3 p4 p5] show thesis .
qed

lemma prefix_enc:
  fixes tx :: "'a TransactionPrefix_scheme"
  assumes "wf_prefix tx"
  obtains p where "serialize_TransactionPrefix tx = Inr p"
    "\<And>rest. deserialize_TransactionPrefix (p @ rest) = Inr (TransactionPrefix.truncate tx, rest)"
proof -
  from assms have b: "wf_body tx" and v: "\<not> CURRENT_TRANSACTION_VERSION < version tx" by (auto simp: wf_prefix_def)
  obtain p1 p2 p3 p4 p5 where p:
    "serialize_uint (version tx) = Inr p1" "\<And>rest. deserialize_uint (p1 @ rest) = Inr (version tx, rest)"
    "serialize_uint (unlockTime tx) = Inr p2" "\<And>rest. deserialize_uint (p2 @ rest) = Inr (unlockTime tx, rest)"
    "serializeContainer serialize_TransactionInput (inputs tx) = Inr p3"
    "\<And>rest. deserializeContainer deserialize_TransactionInput (p3 @ rest) = Inr (inputs tx, rest)"
    "serializeContainer serialize_TransactionOutput (outputs tx) = Inr p4"
    "\<And>rest. deserializeContainer deserialize_TransactionOutput (p4 @ rest) = Inr (outputs tx, rest)"
    "serializeAsBinary (extra tx) = Inr p5" "\<And>rest. deserializeAsBinary (p5 @ rest) = Inr (extra tx, rest)"
    by (rule body_enc [OF b]) (rule that)
  show thesis
  proof
    show "serialize_TransactionPrefix tx = Inr (p1 @ p2 @ p3 @ p4 @ p5)"
      using p by (simp add: serialize_TransactionPrefix_def)
    show "deserialize_TransactionPrefix ((p1 @ p2 @ p3 @ p4 @ p5) @ rest) = Inr (TransactionPrefix.truncate tx, rest)" for rest
      using p v by (simp add: deserialize_TransactionPrefix_def bindR_run TransactionPrefix.truncate_def)
  qed
qed

lemma body_dec:
  assumes "deserialize_uint bs = Inr (v, b1)" "deserialize_uint b1 = Inr (u, b2)"
    "deserializeContainer deserialize_TransactionInput b2 = Inr (vin, b3)"
    "deserializeContainer deserialize_TransactionOutput b3 = Inr (vout, b4)"
    "deserializeAsBinary b4 = Inr (e, rest)"
  shows "wf_body \<lparr> version = v, unlockTime = u, inputs = vin, outputs = vout, extra = e, \<dots> = r \<rparr>
    \<and> (\<exists>p. serialize_TransactionPrefix \<lparr> version = v, unlockTime = u, inputs = vin, outputs = vout, extra = e, \<dots> = r \<rparr>
        = Inr p \<and> bs = p @ rest)"
  using uint8.dec_enc [OF assms(1)] uint64.dec_enc [OF assms(2)] tx_inputs.dec_enc [OF assms(3)]
    tx_outputs.dec_enc [OF assms(4)] byte_string.dec_enc [OF assms(5) [unfolded deserializeAsBinary_def]]
  by (auto simp: wf_body_def serialize_TransactionPrefix_def serializeAsBinary_def)

lemma prefix_dec:
  assumes "deserialize_TransactionPrefix bs = Inr (tx, rest)"
  shows "wf_prefix (TransactionPrefix.extend tx r)"
    and "\<exists>p. serialize_TransactionPrefix (TransactionPrefix.extend tx r) = Inr p \<and> bs = p @ rest"
proof -
  from assms obtain v u vin vout e b1 b2 b3 b4 where
    tx: "tx = \<lparr> version = v, unlockTime = u, inputs = vin, outputs = vout, extra = e \<rparr>"
    and v: "v \<le> CURRENT_TRANSACTION_VERSION"
    and d: "deserialize_uint bs = Inr (v, b1)" "deserialize_uint b1 = Inr (u, b2)"
      "deserializeContainer deserialize_TransactionInput b2 = Inr (vin, b3)"
      "deserializeContainer deserialize_TransactionOutput b3 = Inr (vout, b4)"
      "deserializeAsBinary b4 = Inr (e, rest)"
    by (auto simp: deserialize_TransactionPrefix_def not_less elim!: bindR_InrE split: if_splits)
  from body_dec [OF d, of r] v
  show "wf_prefix (TransactionPrefix.extend tx r)"
    and "\<exists>p. serialize_TransactionPrefix (TransactionPrefix.extend tx r) = Inr p \<and> bs = p @ rest"
    by (auto simp: tx wf_prefix_def TransactionPrefix.extend_def)
qed

interpretation base_transaction: codec wf_body serialize_BaseTransaction deserialize_BaseTransaction
proof
  fix tx :: BaseTransaction
  assume b: "wf_body tx"
  obtain p1 p2 p3 p4 p5 where p:
    "serialize_uint (version tx) = Inr p1" "\<And>rest. deserialize_uint (p1 @ rest) = Inr (version tx, rest)"
    "serialize_uint (unlockTime tx) = Inr p2" "\<And>rest. deserialize_uint (p2 @ rest) = Inr (unlockTime tx, rest)"
    "serializeContainer serialize_TransactionInput (inputs tx) = Inr p3"
    "\<And>rest. deserializeContainer deserialize_TransactionInput (p3 @ rest) = Inr (inputs tx, rest)"
    "serializeContainer serialize_TransactionOutput (outputs tx) = Inr p4"
    "\<And>rest. deserializeContainer deserialize_TransactionOutput (p4 @ rest) = Inr (outputs tx, rest)"
    "serializeAsBinary (extra tx) = Inr p5" "\<And>rest. deserializeAsBinary (p5 @ rest) = Inr (extra tx, rest)"
    by (rule body_enc [OF b]) (rule that)
  obtain p6 where p6: "serialize_uint (0 :: u64) = Inr p6" "\<And>rest. deserialize_uint (p6 @ rest) = Inr (0 :: u64, rest)"
    using uint64.enc_dec [of 0] by blast
  show "\<exists>p. serialize_BaseTransaction tx = Inr p \<and> (\<forall>rest. deserialize_BaseTransaction (p @ rest) = Inr (tx, rest))"
    using p p6
    by (cases "version tx \<ge> TRANSACTION_VERSION_2")
       (simp_all add: serialize_BaseTransaction_def serialize_TransactionPrefix_def deserialize_BaseTransaction_def bindR_run)
qed

lemma signatures_enc:
  assumes "list_all2 (\<lambda>i s. length s = getSignaturesCount i \<and> (\<forall>x \<in> set s. length x = 64)) ins sigs"
  shows "\<exists>p. serialize_signatures False ins sigs = Inr p
    \<and> (\<forall>rest. deserialize_signatures ins (p @ rest) = Inr (sigs, rest))"
  using assms
proof (induction rule: list_all2_induct)
  case (Cons i ins s sigs)
  from Cons.hyps obtain p where p: "serialize_items serialize_binary s = Inr p"
      "\<And>rest. deserialize_items (deserialize_binary 64) (length s) (p @ rest) = Inr (s, rest)"
    using pod64.items_codec [of s] by blast
  with Cons show ?case by (auto simp: bindR_run)
qed simp

lemma signatures_dec:
  "deserialize_signatures ins bs = Inr (sigs, rest) \<Longrightarrow>
     list_all2 (\<lambda>i s. length s = getSignaturesCount i \<and> (\<forall>x \<in> set s. length x = 64)) ins sigs
     \<and> (\<exists>p. serialize_signatures False ins sigs = Inr p \<and> bs = p @ rest)"
proof (induction ins arbitrary: bs sigs)
  case (Cons i ins)
  from Cons.prems obtain s b1 ss where d: "deserialize_items (deserialize_binary 64) (getSignaturesCount i) bs = Inr (s, b1)"
      "deserialize_signatures ins b1 = Inr (ss, rest)" "sigs = s # ss"
    by (auto elim!: bindR_InrE)
  from pod64.items_canonical [OF d(1)] Cons.IH [OF d(2)] d(3) show ?case by auto
qed simp

lemma serialize_signatures_empty:
  "\<forall>i \<in> set ins. getSignaturesCount i = 0 \<Longrightarrow> serialize_signatures True ins sigs = Inr []"
  by (induction ins) simp_all

lemma is_base_tx_signatures:
  "is_base_tx ins \<Longrightarrow> serialize_signatures True ins sigs = Inr []"
  by (rule serialize_signatures_empty)
     (auto simp: is_base_tx_def getSignaturesCount_def split: list.splits TransactionInput.splits)

interpretation transaction: canonical_codec wf_transaction serialize_Transaction deserialize_Transaction
proof
  fix tx :: Transaction
  assume wf: "wf_transaction tx"
  then obtain p where p: "serialize_TransactionPrefix tx = Inr p"
      "\<And>rest. deserialize_TransactionPrefix (p @ rest) = Inr (TransactionPrefix.truncate tx, rest)"
    by (auto simp: wf_transaction_def elim: prefix_enc)
  show "\<exists>p. serialize_Transaction tx = Inr p \<and> (\<forall>rest. deserialize_Transaction (p @ rest) = Inr (tx, rest))"
  proof (cases "is_base_tx (inputs tx)")
    case True
    with wf p show ?thesis
      by (simp add: wf_transaction_def wf_signatures_def serialize_Transaction_def deserialize_Transaction_def
        is_base_tx_signatures bindR_run TransactionPrefix.truncate_def)
  next
    case False
    with wf have sigs: "list_all2 (\<lambda>i s. length s = getSignaturesCount i \<and> (\<forall>x \<in> set s. length x = 64))
        (inputs tx) (signatures tx)" by (simp add: wf_transaction_def wf_signatures_def)
    obtain q where q: "serialize_signatures False (inputs tx) (signatures tx) = Inr q"
        "\<And>rest. deserialize_signatures (inputs tx) (q @ rest) = Inr (signatures tx, rest)"
      using signatures_enc [OF sigs] by blast
    have len: "length (inputs tx) = length (signatures tx)" using sigs by (rule list_all2_lengthD)
    then have "serialize_signatures (signatures tx = []) (inputs tx) (signatures tx) = Inr q"
      using q(1) by (cases "signatures tx = []") simp_all
    with False p q len show ?thesis
      by (simp add: serialize_Transaction_def deserialize_Transaction_def bindR_run TransactionPrefix.truncate_def)
  qed
next
  fix bs rest and tx :: Transaction
  assume "deserialize_Transaction bs = Inr (tx, rest)"
  then obtain pre b1 sigs where pre: "deserialize_TransactionPrefix bs = Inr (pre, b1)"
      and sigs: "(if is_base_tx (inputs pre) then returnR [] else deserialize_signatures (inputs pre)) b1 = Inr (sigs, rest)"
      and tx: "tx = TransactionPrefix.extend pre \<lparr> signatures = sigs \<rparr>"
    by (auto simp: deserialize_Transaction_def TransactionPrefix.extend_def elim!: bindR_InrE)
  obtain p where wf: "wf_prefix tx" and p: "serialize_TransactionPrefix tx = Inr p" "bs = p @ b1"
    using prefix_dec [OF pre, of "\<lparr> signatures = sigs \<rparr>"] unfolding tx by blast
  have ins: "inputs tx = inputs pre" "signatures tx = sigs" by (simp_all add: tx TransactionPrefix.extend_def)
  show "wf_transaction tx \<and> (\<exists>p. serialize_Transaction tx = Inr p \<and> bs = p @ rest)"
  proof (cases "is_base_tx (inputs pre)")
    case True
    with sigs wf p ins show ?thesis
      by (simp add: wf_transaction_def wf_signatures_def serialize_Transaction_def is_base_tx_signatures)
  next
    case False
    with signatures_dec [of "inputs pre" b1 sigs rest] sigs obtain q where
      s: "list_all2 (\<lambda>i s. length s = getSignaturesCount i \<and> (\<forall>x \<in> set s. length x = 64)) (inputs pre) sigs"
      and q: "serialize_signatures False (inputs pre) sigs = Inr q" "b1 = q @ rest" by auto
    have len: "length (inputs pre) = length sigs" using s by (rule list_all2_lengthD)
    then have "serialize_signatures (sigs = []) (inputs pre) sigs = Inr q"
      using q(1) by (cases "sigs = []") simp_all
    with False s q len wf p ins show ?thesis
      by (simp add: wf_transaction_def wf_signatures_def serialize_Transaction_def)
  qed
qed

interpretation address: canonical_codec wf_address serialize_AccountPublicAddress deserialize_AccountPublicAddress
proof
  fix a :: AccountPublicAddress
  assume "wf_address a"
  then show "\<exists>p. serialize_AccountPublicAddress a = Inr p
      \<and> (\<forall>rest. deserialize_AccountPublicAddress (p @ rest) = Inr (a, rest))"
    by (simp add: wf_address_def serialize_AccountPublicAddress_def deserialize_AccountPublicAddress_def
      serialize_binary_def deserialize_binary_def read_bytes_def bindR_def)
next
  fix bs rest and a :: AccountPublicAddress
  assume "deserialize_AccountPublicAddress bs = Inr (a, rest)"
  then obtain s b1 v where "a = \<lparr> spendPublicKey = s, viewPublicKey = v \<rparr>"
      and d: "deserialize_binary 32 bs = Inr (s, b1)" "deserialize_binary 32 b1 = Inr (v, rest)"
    by (auto simp: deserialize_AccountPublicAddress_def elim!: bindR_InrE)
  with pod32.dec_enc [OF d(1)] pod32.dec_enc [OF d(2)]
  show "wf_address a \<and> (\<exists>p. serialize_AccountPublicAddress a = Inr p \<and> bs = p @ rest)"
    by (auto simp: wf_address_def serialize_AccountPublicAddress_def)
qed


section \<open>Properties\<close>

text \<open>
  C9: the binary form of a transaction is exact in both directions. A byte array is accepted as a
  given transaction exactly when the transaction is well formed and the array is the one
  \<open>toBinaryArray\<close> writes for it: serialization round-trips, and no two byte arrays are the same
  transaction.
\<close>

theorem transaction_binary_exact:
  "fromBinaryArray deserialize_Transaction bs = Inr tx
     \<longleftrightarrow> wf_transaction tx \<and> toBinaryArray serialize_Transaction tx = Inr bs"
  by (rule transaction.binary_array_exact)

text \<open>
  \<open>toBinaryArray\<close> succeeds on every well-formed transaction, and reading the result from a longer
  stream leaves what follows unread.
\<close>

lemma transaction_serializes:
  assumes "wf_transaction tx"
  shows "\<exists>p. toBinaryArray serialize_Transaction tx = Inr p
    \<and> (\<forall>rest. deserialize_Transaction (p @ rest) = Inr (tx, rest))"
  unfolding toBinaryArray_def using assms by (rule transaction.enc_dec)

lemma transaction_serializes_witness:
  "wf_transaction sample_transaction \<and> (\<exists>p. toBinaryArray serialize_Transaction sample_transaction = Inr p
    \<and> (\<forall>rest. deserialize_Transaction (p @ rest) = Inr (sample_transaction, rest)))"
proof -
  have "wf_transaction sample_transaction"
    by (simp add: sample_transaction_def wf_transaction_def wf_prefix_def wf_body_def wf_output_def
      wf_signatures_def is_base_tx_def getSignaturesCount_def CURRENT_TRANSACTION_VERSION_def TRANSACTION_VERSION_1_def)
  with transaction_serializes [OF this] show ?thesis by blast
qed

text \<open>
  The coinbase transaction of a parent block is not covered by such a theorem: the number that
  version 2 carries behind the prefix is read and dropped, so two byte arrays are the same transaction.
\<close>

lemma base_transaction_ignores_number:
  "deserialize_BaseTransaction [2, 0, 0, 0, 0, 0] = Inr (\<lparr> version = 2, unlockTime = 0, inputs = [], outputs = [], extra = [] \<rparr>, [])"
  "deserialize_BaseTransaction [2, 0, 0, 0, 0, 5] = Inr (\<lparr> version = 2, unlockTime = 0, inputs = [], outputs = [], extra = [] \<rparr>, [])"
  by code_simp+

end
