(* ===== verification/TxExtra.thy ===== *)
theory TxExtra
  imports Transactions
begin

text \<open>
  The \<open>extra\<close> field of a transaction, \<open>src/common/TransactionExtra.cpp\<close> and \<open>TransactionExtra.h\<close>, with
  the merge mining tag of \<open>src/serialization/CryptoNoteSerialization.cpp\<close>.

  \<open>parseTransactionExtra\<close> returns its flag together with the fields it has found: its callers use the
  fields also when the flag is false. The other functions with a reference parameter return the flag and
  the new value of the parameter.
\<close>

section \<open>Fields\<close>

definition TX_EXTRA_PADDING_MAX_COUNT :: nat where "TX_EXTRA_PADDING_MAX_COUNT = 255"
definition TX_EXTRA_NONCE_MAX_COUNT :: nat where "TX_EXTRA_NONCE_MAX_COUNT = 255"
definition TX_EXTRA_TAG_PADDING :: u8 where "TX_EXTRA_TAG_PADDING = 0x00"
definition TX_EXTRA_TAG_PUBKEY :: u8 where "TX_EXTRA_TAG_PUBKEY = 0x01"
definition TX_EXTRA_NONCE :: u8 where "TX_EXTRA_NONCE = 0x02"
definition TX_EXTRA_MERGE_MINING_TAG :: u8 where "TX_EXTRA_MERGE_MINING_TAG = 0x03"
definition TX_EXTRA_NONCE_PAYMENT_ID :: u8 where "TX_EXTRA_NONCE_PAYMENT_ID = 0x00"

lemmas extra_tags = TX_EXTRA_PADDING_MAX_COUNT_def TX_EXTRA_NONCE_MAX_COUNT_def TX_EXTRA_TAG_PADDING_def
  TX_EXTRA_TAG_PUBKEY_def TX_EXTRA_NONCE_def TX_EXTRA_MERGE_MINING_TAG_def TX_EXTRA_NONCE_PAYMENT_ID_def

record TransactionExtraMergeMiningTag =
  depth :: u64
  merkleRoot :: hash

datatype TransactionExtraField =
    TransactionExtraPadding nat
  | TransactionExtraPublicKey public_key
  | TransactionExtraNonce bytes
  | TransactionExtraMMTag TransactionExtraMergeMiningTag

text \<open>The merge mining tag: a string that holds the depth and the root.\<close>

definition doSerialize_tag :: "TransactionExtraMergeMiningTag writer" where
  "doSerialize_tag tag = appendW (serialize_uint (depth tag)) (serialize_binary (merkleRoot tag))"

definition dodeserialize_tag :: "TransactionExtraMergeMiningTag reader" where
  "dodeserialize_tag =
     bindR deserialize_uint (\<lambda>d.
     bindR (deserialize_binary 32) (\<lambda>r. returnR \<lparr> depth = d, merkleRoot = r \<rparr>))"

definition serialize_tag :: "TransactionExtraMergeMiningTag writer" where
  "serialize_tag tag = (case doSerialize_tag tag of Inl e \<Rightarrow> Inl e | Inr field \<Rightarrow> serialize_string field)"

definition deserialize_tag :: "TransactionExtraMergeMiningTag reader" where
  "deserialize_tag =
     bindR (deserialize_string True) (\<lambda>field bs.
       case dodeserialize_tag field of Inl e \<Rightarrow> Inl e | Inr (tag, _) \<Rightarrow> Inr (tag, bs))"


section \<open>Parsing\<close>

text \<open>The padding loop: \<open>None\<close> is \<open>return false\<close> in the loop, otherwise the final \<open>size\<close> and the stream.\<close>

fun padding_loop :: "bytes \<Rightarrow> nat \<Rightarrow> (nat \<times> bytes) option" where
  "padding_loop [] size' = Some (size', [])"
| "padding_loop (b # bs) size' =
     (if size' \<le> TX_EXTRA_PADDING_MAX_COUNT then if b \<noteq> 0 then None else padding_loop bs (size' + 1)
      else Some (size', b # bs))"

record seen =
  seen_padding :: bool
  seen_pubkey :: bool
  seen_nonce :: bool
  seen_mm_tag :: bool

text \<open>The nonce: one byte of size, then the data.\<close>

definition read_nonce :: "bytes reader" where
  "read_nonce =
     bindR (read_bytes 1) (\<lambda>size'. if hd size' > 0 then read_bytes (unat (hd size')) else returnR [])"

lemma padding_loop_length: "padding_loop bs n = Some (m, bs') \<Longrightarrow> length bs' \<le> length bs"
  by (induction bs arbitrary: n) (fastforce split: if_splits)+

lemma read_bytes_length: "read_bytes n bs = Inr (x, bs') \<Longrightarrow> length bs' \<le> length bs"
  by (auto simp: read_bytes_def split: if_splits)

lemma read_nonce_length: "read_nonce bs = Inr (x, bs') \<Longrightarrow> length bs' \<le> length bs"
  by (auto simp: read_nonce_def elim!: bindR_InrE split: if_splits dest!: read_bytes_length)

lemma readVarint_length: "readVarint bs = Inr (n :: u64, bs') \<Longrightarrow> length bs' \<le> length bs"
  using uint64_read by fastforce

lemma deserialize_tag_length: "deserialize_tag bs = Inr (x, bs') \<Longrightarrow> length bs' \<le> length bs"
  by (auto simp: deserialize_tag_def deserialize_string_def elim!: bindR_InrE
      split: if_splits sum.splits prod.splits dest!: read_bytes_length readVarint_length)

function parse_loop :: "seen \<Rightarrow> TransactionExtraField list \<Rightarrow> bytes \<Rightarrow> bool \<times> TransactionExtraField list" where
  "parse_loop s found [] = (True, found)"
| "parse_loop s found (c # bs) =
     (if c = TX_EXTRA_TAG_PADDING then
        if seen_padding s then (True, found)
        else case padding_loop bs 1 of
            None \<Rightarrow> (False, found)
          | Some (size', bs') \<Rightarrow>
              if size' > TX_EXTRA_PADDING_MAX_COUNT then (False, found)
              else parse_loop (s\<lparr>seen_padding := True\<rparr>) (found @ [TransactionExtraPadding size']) bs'
      else if c = TX_EXTRA_TAG_PUBKEY then
        if seen_pubkey s then (True, found)
        else case read_bytes 32 bs of
            Inl _ \<Rightarrow> (False, found)
          | Inr (publicKey, bs') \<Rightarrow>
              parse_loop (s\<lparr>seen_pubkey := True\<rparr>) (found @ [TransactionExtraPublicKey publicKey]) bs'
      else if c = TX_EXTRA_NONCE then
        if seen_nonce s then (True, found)
        else case read_nonce bs of
            Inl _ \<Rightarrow> (False, found)
          | Inr (nonce, bs') \<Rightarrow>
              parse_loop (s\<lparr>seen_nonce := True\<rparr>) (found @ [TransactionExtraNonce nonce]) bs'
      else if c = TX_EXTRA_MERGE_MINING_TAG then
        if seen_mm_tag s then parse_loop s found bs
        else case deserialize_tag bs of
            Inl _ \<Rightarrow> (False, found)
          | Inr (mmTag, bs') \<Rightarrow>
              parse_loop (s\<lparr>seen_mm_tag := True\<rparr>) (found @ [TransactionExtraMMTag mmTag]) bs'
      else parse_loop s found bs)"
  by pat_completeness auto

termination
  by (relation "measure (\<lambda>(_, _, bs). length bs)")
     (auto dest: padding_loop_length read_bytes_length read_nonce_length deserialize_tag_length simp: less_Suc_eq_le)

declare parse_loop.simps(2) [simp del]

definition parseTransactionExtra :: "bytes \<Rightarrow> bool \<times> TransactionExtraField list" where
  "parseTransactionExtra transactionExtra =
     (if transactionExtra = [] then (True, [])
      else parse_loop \<lparr> seen_padding = False, seen_pubkey = False, seen_nonce = False, seen_mm_tag = False \<rparr>
             [] transactionExtra)"

text \<open>\<open>findTransactionExtraFieldByType\<close> for the three types it is used at.\<close>

fun find_pubkey :: "TransactionExtraField list \<Rightarrow> public_key option" where
  "find_pubkey [] = None"
| "find_pubkey (f # fs) = (case f of TransactionExtraPublicKey k \<Rightarrow> Some k | _ \<Rightarrow> find_pubkey fs)"

fun find_nonce :: "TransactionExtraField list \<Rightarrow> bytes option" where
  "find_nonce [] = None"
| "find_nonce (f # fs) = (case f of TransactionExtraNonce n \<Rightarrow> Some n | _ \<Rightarrow> find_nonce fs)"

fun find_mm_tag :: "TransactionExtraField list \<Rightarrow> TransactionExtraMergeMiningTag option" where
  "find_mm_tag [] = None"
| "find_mm_tag (f # fs) = (case f of TransactionExtraMMTag t \<Rightarrow> Some t | _ \<Rightarrow> find_mm_tag fs)"

text \<open>\<open>Crypto::PublicKey()\<close> is zero.\<close>

definition getTransactionPublicKeyFromExtra :: "bytes \<Rightarrow> public_key" where
  "getTransactionPublicKeyFromExtra tx_extra =
     (let (_, tx_extra_fields) = parseTransactionExtra tx_extra
      in case find_pubkey tx_extra_fields of None \<Rightarrow> replicate 32 0 | Some k \<Rightarrow> k)"

definition getMergeMiningTagFromExtra :: "bytes \<Rightarrow> TransactionExtraMergeMiningTag option" where
  "getMergeMiningTagFromExtra tx_extra =
     (let (_, tx_extra_fields) = parseTransactionExtra tx_extra in find_mm_tag tx_extra_fields)"


section \<open>Writing\<close>

definition addTransactionPublicKeyToExtra :: "bytes \<Rightarrow> public_key \<Rightarrow> bool \<times> bytes" where
  "addTransactionPublicKeyToExtra tx_extra tx_pub_key = (True, tx_extra @ [TX_EXTRA_TAG_PUBKEY] @ tx_pub_key)"

definition addExtraNonceToTransactionExtra :: "bytes \<Rightarrow> bytes \<Rightarrow> bool \<times> bytes" where
  "addExtraNonceToTransactionExtra tx_extra extra_nonce =
     (if length extra_nonce > TX_EXTRA_NONCE_MAX_COUNT then (False, tx_extra)
      else (True, tx_extra @ [TX_EXTRA_NONCE] @ [word_of_nat (length extra_nonce)] @ extra_nonce))"

definition appendMergeMiningTagToExtra :: "bytes \<Rightarrow> TransactionExtraMergeMiningTag \<Rightarrow> bool \<times> bytes" where
  "appendMergeMiningTagToExtra tx_extra mm_tag =
     (case toBinaryArray serialize_tag mm_tag of
        Inl _ \<Rightarrow> (False, tx_extra)
      | Inr blob \<Rightarrow> (True, tx_extra @ [TX_EXTRA_MERGE_MINING_TAG] @ blob))"

text \<open>\<open>ExtraSerializerVisitor\<close>.\<close>

definition visit_field :: "bytes \<Rightarrow> TransactionExtraField \<Rightarrow> bool \<times> bytes" where
  "visit_field tx_extra f =
     (case f of
        TransactionExtraPadding n \<Rightarrow>
          if n > TX_EXTRA_PADDING_MAX_COUNT then (False, tx_extra) else (True, tx_extra @ replicate n 0)
      | TransactionExtraPublicKey k \<Rightarrow> addTransactionPublicKeyToExtra tx_extra k
      | TransactionExtraNonce n \<Rightarrow> addExtraNonceToTransactionExtra tx_extra n
      | TransactionExtraMMTag t \<Rightarrow> appendMergeMiningTagToExtra tx_extra t)"

fun writeTransactionExtra :: "bytes \<Rightarrow> TransactionExtraField list \<Rightarrow> bool \<times> bytes" where
  "writeTransactionExtra tx_extra [] = (True, tx_extra)"
| "writeTransactionExtra tx_extra (tag # tags) =
     (case visit_field tx_extra tag of
        (False, tx_extra') \<Rightarrow> (False, tx_extra')
      | (True, tx_extra') \<Rightarrow> writeTransactionExtra tx_extra' tags)"


section \<open>Payment ids\<close>

definition setPaymentIdToTransactionExtraNonce :: "hash \<Rightarrow> bytes" where
  "setPaymentIdToTransactionExtraNonce payment_id = TX_EXTRA_NONCE_PAYMENT_ID # payment_id"

definition getPaymentIdFromTransactionExtraNonce :: "bytes \<Rightarrow> hash option" where
  "getPaymentIdFromTransactionExtraNonce extra_nonce =
     (if 32 + 1 \<noteq> length extra_nonce then None
      else if TX_EXTRA_NONCE_PAYMENT_ID \<noteq> extra_nonce ! 0 then None
      else Some (drop 1 extra_nonce))"

definition parsePaymentId :: "string \<Rightarrow> hash \<Rightarrow> bool \<times> hash" where
  "parsePaymentId paymentIdString paymentId = podFromHex paymentIdString paymentId"

text \<open>The flag and the new \<open>extra\<close>; \<open>paymentIdBin\<close> starts as any 32 bytes.\<close>

definition createTxExtraWithPaymentId :: "string \<Rightarrow> bytes \<Rightarrow> bool \<times> bytes" where
  "createTxExtraWithPaymentId paymentIdString extra' =
     (case parsePaymentId paymentIdString (replicate 32 0) of
        (False, _) \<Rightarrow> (False, extra')
      | (True, paymentIdBin) \<Rightarrow>
          addExtraNonceToTransactionExtra extra' (setPaymentIdToTransactionExtraNonce paymentIdBin))"

definition getPaymentIdFromTxExtra :: "bytes \<Rightarrow> hash option" where
  "getPaymentIdFromTxExtra extra' =
     (let (ok, tx_extra_fields) = parseTransactionExtra extra'
      in if \<not> ok then None
         else case find_nonce tx_extra_fields of
             None \<Rightarrow> None
           | Some extra_nonce \<Rightarrow> getPaymentIdFromTransactionExtraNonce extra_nonce)"


section \<open>Well-formed field lists\<close>

text \<open>At most one field of each kind, padding only at the end, sizes within the limits.\<close>

fun kind :: "TransactionExtraField \<Rightarrow> u8" where
  "kind (TransactionExtraPadding _) = TX_EXTRA_TAG_PADDING"
| "kind (TransactionExtraPublicKey _) = TX_EXTRA_TAG_PUBKEY"
| "kind (TransactionExtraNonce _) = TX_EXTRA_NONCE"
| "kind (TransactionExtraMMTag _) = TX_EXTRA_MERGE_MINING_TAG"

fun wf_field :: "TransactionExtraField \<Rightarrow> bool" where
  "wf_field (TransactionExtraPadding n) \<longleftrightarrow> 1 \<le> n \<and> n \<le> TX_EXTRA_PADDING_MAX_COUNT"
| "wf_field (TransactionExtraPublicKey k) \<longleftrightarrow> length k = 32"
| "wf_field (TransactionExtraNonce n) \<longleftrightarrow> length n \<le> TX_EXTRA_NONCE_MAX_COUNT"
| "wf_field (TransactionExtraMMTag t) \<longleftrightarrow> length (merkleRoot t) = 32"

definition wf_fields :: "TransactionExtraField list \<Rightarrow> bool" where
  "wf_fields fs \<longleftrightarrow> (\<forall>f \<in> set fs. wf_field f) \<and> distinct (map kind fs)
     \<and> (\<forall>f \<in> set (butlast fs). kind f \<noteq> TX_EXTRA_TAG_PADDING)"

text \<open>The flags after a field has been read.\<close>

fun mark :: "TransactionExtraField \<Rightarrow> seen \<Rightarrow> seen" where
  "mark (TransactionExtraPadding _) s = s\<lparr>seen_padding := True\<rparr>"
| "mark (TransactionExtraPublicKey _) s = s\<lparr>seen_pubkey := True\<rparr>"
| "mark (TransactionExtraNonce _) s = s\<lparr>seen_nonce := True\<rparr>"
| "mark (TransactionExtraMMTag _) s = s\<lparr>seen_mm_tag := True\<rparr>"

definition is_seen :: "seen \<Rightarrow> u8 \<Rightarrow> bool" where
  "is_seen s k \<longleftrightarrow> (k = TX_EXTRA_TAG_PADDING \<and> seen_padding s) \<or> (k = TX_EXTRA_TAG_PUBKEY \<and> seen_pubkey s)
     \<or> (k = TX_EXTRA_NONCE \<and> seen_nonce s) \<or> (k = TX_EXTRA_MERGE_MINING_TAG \<and> seen_mm_tag s)"


section \<open>Round trips\<close>

lemma length_write_varint_bound: "unat m < 128 ^ Suc k \<Longrightarrow> length (write_varint m) \<le> Suc k"
proof (induction k arbitrary: m)
  case 0
  then show ?case by (simp add: write_varint_small)
next
  case (Suc k)
  show ?case
  proof (cases m rule: write_varint_cases)
    case (more b)
    have "unat (drop_bit 7 m) < 128 ^ Suc k"
      unfolding more(5) using Suc.prems by (simp add: less_mult_imp_div_less mult.commute)
    with Suc.IH more(2) show ?thesis by simp
  qed simp
qed

lemma length_write_varint: "length (write_varint m) \<le> 10"
proof -
  have "unat m < 2 ^ 64" by simp
  also have "(2 :: nat) ^ 64 \<le> 128 ^ Suc 9" by simp
  finally show ?thesis using length_write_varint_bound [of m 9] by simp
qed

lemma serialize_string_True:
  assumes "length x \<le> 140000"
  shows "serialize_string x = Inr (writeVarint (word_of_nat (length x)) @ x)"
    and "deserialize_string True (writeVarint (word_of_nat (length x)) @ x @ rest) = Inr (x, rest)"
proof -
  show "serialize_string x = Inr (writeVarint (word_of_nat (length x)) @ x)" by (simp add: serialize_string_def)
  have u: "unat (word_of_nat (length x) :: u64) = length x" by (rule unat_word_of_nat) (use assms in simp)
  then have "\<not> (word_of_nat (length x) :: u64) > MAX_EXTRA_SIZE"
    using assms by (simp add: word_less_nat_alt MAX_EXTRA_SIZE_def)
  then have "deserialize_string True (writeVarint (word_of_nat (length x)) @ x @ rest)
      = deserialize_string False (writeVarint (word_of_nat (length x)) @ x @ rest)"
    by (simp add: deserialize_string_def bindR_def uint64_run)
  then show "deserialize_string True (writeVarint (word_of_nat (length x)) @ x @ rest) = Inr (x, rest)"
    using byte_string.enc_dec [of x] assms by (simp add: serialize_string_def)
qed

lemma tag_round_trip:
  assumes "length (merkleRoot t) = 32"
  shows "\<exists>p. serialize_tag t = Inr p \<and> (\<forall>rest. deserialize_tag (p @ rest) = Inr (t, rest))"
proof -
  let ?f = "writeVarint (depth t) @ merkleRoot t"
  have "length ?f \<le> 140000" using length_write_varint [of "depth t"] assms by (simp add: writeVarint_eq)
  then obtain p where p: "serialize_string ?f = Inr p" "\<And>rest. deserialize_string True (p @ rest) = Inr (?f, rest)"
    using serialize_string_True [of ?f] by force
  have "dodeserialize_tag ?f = Inr (t, [])"
    using assms by (simp add: dodeserialize_tag_def deserialize_uint_def bindR_def uint64_run deserialize_binary_def read_bytes_def)
  with p show ?thesis
    by (simp add: serialize_tag_def deserialize_tag_def doSerialize_tag_def serialize_uint_def serialize_binary_def
      bindR_def)
qed

interpretation mm_tag: codec "\<lambda>t. length (merkleRoot t) = 32" serialize_tag deserialize_tag
  by unfold_locales (rule tag_round_trip)

lemma padding_loop_zeros:
  "n + k \<le> Suc TX_EXTRA_PADDING_MAX_COUNT \<Longrightarrow> padding_loop (replicate k 0) n = Some (n + k, [])"
  by (induction k arbitrary: n) (simp_all add: TX_EXTRA_PADDING_MAX_COUNT_def)

lemma visit_field_wf:
  assumes "wf_field f"
  shows "visit_field e f = (True, e @ snd (visit_field [] f))"
  using assms by (cases f) (auto simp: visit_field_def addTransactionPublicKeyToExtra_def
    addExtraNonceToTransactionExtra_def appendMergeMiningTagToExtra_def toBinaryArray_def elim!: mm_tag.encE)

lemma parse_field:
  assumes wf: "wf_field f" and "\<not> is_seen s (kind f)" and "kind f = TX_EXTRA_TAG_PADDING \<longrightarrow> rest = []"
  shows "parse_loop s found (snd (visit_field [] f) @ rest) = parse_loop (mark f s) (found @ [f]) rest"
proof (cases f)
  case (TransactionExtraPadding n)
  then obtain m where n: "n = Suc m" "Suc m \<le> 255" using wf by (cases n) (simp_all add: extra_tags)
  have "padding_loop (replicate m 0) 1 = Some (n, [])"
    using padding_loop_zeros [of 1 m] n by (simp add: extra_tags)
  then show ?thesis using assms(2,3) n TransactionExtraPadding
    by (simp add: visit_field_def parse_loop.simps(2) is_seen_def extra_tags)
next
  case (TransactionExtraPublicKey k)
  then show ?thesis using assms
    by (simp add: visit_field_def addTransactionPublicKeyToExtra_def parse_loop.simps(2) is_seen_def extra_tags read_bytes_def)
next
  case (TransactionExtraNonce n)
  have "unat (word_of_nat (length n) :: u8) = length n"
    by (rule unat_word_of_nat) (use wf TransactionExtraNonce in \<open>simp add: extra_tags\<close>)
  then have "read_nonce (word_of_nat (length n) # n @ rest) = Inr (n, rest)"
    by (cases "n = []") (simp_all add: read_nonce_def bindR_def read_bytes_def word_less_nat_alt)
  then show ?thesis using assms TransactionExtraNonce
    by (simp add: visit_field_def addExtraNonceToTransactionExtra_def parse_loop.simps(2) is_seen_def extra_tags)
next
  case (TransactionExtraMMTag t)
  then have "length (merkleRoot t) = 32" using wf by simp
  then obtain p where "serialize_tag t = Inr p" "\<And>rest. deserialize_tag (p @ rest) = Inr (t, rest)"
    using mm_tag.enc_dec [of t] by blast
  then show ?thesis using assms TransactionExtraMMTag
    by (simp add: visit_field_def appendMergeMiningTagToExtra_def toBinaryArray_def parse_loop.simps(2) is_seen_def extra_tags)
qed

lemma is_seen_mark: "is_seen (mark f s) k \<longleftrightarrow> is_seen s k \<or> k = kind f"
  by (cases f) (auto simp: is_seen_def extra_tags)

lemma write_parse:
  assumes "wf_fields fs" and "\<forall>f \<in> set fs. \<not> is_seen s (kind f)"
  shows "\<exists>bs. writeTransactionExtra e fs = (True, e @ bs) \<and> parse_loop s found bs = (True, found @ fs)"
  using assms
proof (induction fs arbitrary: e s found)
  case (Cons f fs)
  have wf: "wf_field f" "wf_fields fs" "kind f \<notin> kind ` set fs"
    using Cons.prems(1) by (auto simp: wf_fields_def split: if_splits)
  have pad: "kind f = TX_EXTRA_TAG_PADDING \<Longrightarrow> fs = []"
    using Cons.prems(1) by (cases fs) (auto simp: wf_fields_def)
  have "\<forall>g \<in> set fs. \<not> is_seen (mark f s) (kind g)"
    using Cons.prems(2) wf(3) by (metis imageI is_seen_mark list.set_intros(2))
  from Cons.IH [OF wf(2) this] obtain bs where bs: "writeTransactionExtra (e @ snd (visit_field [] f)) fs
      = (True, (e @ snd (visit_field [] f)) @ bs)" "parse_loop (mark f s) (found @ [f]) bs = (True, (found @ [f]) @ fs)"
    by blast
  have "kind f = TX_EXTRA_TAG_PADDING \<longrightarrow> bs = []" using pad bs(1) by auto
  with parse_field [OF wf(1), of s bs found] Cons.prems(2) bs visit_field_wf [OF wf(1), of e] show ?case
    by (intro exI [of _ "snd (visit_field [] f) @ bs"]) simp
qed simp

lemma extra_write_parse:
  assumes "wf_fields fs"
  obtains bs where "writeTransactionExtra [] fs = (True, bs)" "parseTransactionExtra bs = (True, fs)"
proof -
  let ?s = "\<lparr> seen_padding = False, seen_pubkey = False, seen_nonce = False, seen_mm_tag = False \<rparr>"
  have "\<forall>f \<in> set fs. \<not> is_seen ?s (kind f)" by (simp add: is_seen_def)
  from write_parse [OF assms this, of "[]" "[]"] obtain bs where
    bs: "writeTransactionExtra [] fs = (True, bs)" "parse_loop ?s [] bs = (True, fs)" by auto
  then have "parseTransactionExtra bs = (True, fs)" by (cases "bs = []") (simp_all add: parseTransactionExtra_def)
  with bs(1) that show thesis by blast
qed

lemma podFromHex_toHex: "length d = 32 \<Longrightarrow> podFromHex (toHex d) (replicate 32 0) = (True, d)"
  using fromHex_loop_unhex [of 0 "toHex d" "replicate 32 0"]
  by (auto simp: podFromHex_def fromHex_buffer_def unhex_toHex split: prod.splits)


section \<open>Properties\<close>



text \<open>
  C31: a payment id given as text can be read back from the extra it is put into, before or after a public
  key: \<open>createTxExtraWithPaymentId\<close> on the hexadecimal form of 32 bytes succeeds, \<open>getPaymentIdFromTxExtra\<close>
  returns these bytes and \<open>getTransactionPublicKeyFromExtra\<close> the key.
\<close>

theorem payment_id_round_trip:
  assumes "length payment_id = 32" and "length k = 32"
  shows "\<exists>e. createTxExtraWithPaymentId (toHex payment_id) [] = (True, e)
    \<and> getPaymentIdFromTxExtra e = Some payment_id
    \<and> getPaymentIdFromTxExtra (snd (addTransactionPublicKeyToExtra e k)) = Some payment_id
    \<and> getTransactionPublicKeyFromExtra (snd (addTransactionPublicKeyToExtra e k)) = k"
proof -
  let ?n = "TransactionExtraNonce (TX_EXTRA_NONCE_PAYMENT_ID # payment_id)"
  have create: "createTxExtraWithPaymentId (toHex payment_id) [] = writeTransactionExtra [] [?n]"
    using podFromHex_toHex [OF assms(1)] assms(1)
    by (simp add: createTxExtraWithPaymentId_def parsePaymentId_def setPaymentIdToTransactionExtraNonce_def
      visit_field_def addExtraNonceToTransactionExtra_def extra_tags)
  have "wf_fields [?n]" "wf_fields [?n, TransactionExtraPublicKey k]"
    using assms by (simp_all add: wf_fields_def extra_tags)
  then obtain e e' where e: "writeTransactionExtra [] [?n] = (True, e)" "parseTransactionExtra e = (True, [?n])"
      "writeTransactionExtra [] [?n, TransactionExtraPublicKey k] = (True, e')"
      "parseTransactionExtra e' = (True, [?n, TransactionExtraPublicKey k])"
    by (metis extra_write_parse)
  then have "snd (addTransactionPublicKeyToExtra e k) = e'"
    by (auto simp: visit_field_def addTransactionPublicKeyToExtra_def split: bool.splits prod.splits)
  with e create assms show ?thesis
    by (simp add: getPaymentIdFromTxExtra_def getPaymentIdFromTransactionExtraNonce_def
      getTransactionPublicKeyFromExtra_def)
qed

theorem payment_id_round_trip_witness:
  "\<exists>e. createTxExtraWithPaymentId (toHex (replicate 32 0xab)) [] = (True, e)
    \<and> getPaymentIdFromTxExtra e = Some (replicate 32 0xab)
    \<and> getPaymentIdFromTxExtra (snd (addTransactionPublicKeyToExtra e (replicate 32 5))) = Some (replicate 32 0xab)
    \<and> getTransactionPublicKeyFromExtra (snd (addTransactionPublicKeyToExtra e (replicate 32 5))) = replicate 32 5"
  by (rule payment_id_round_trip) simp_all

end
