(* ===== verification/TreeHash.thy ===== *)
theory TreeHash
  imports IntUtil
begin

text \<open>
  The Merkle tree over the transactions of a block, \<open>src/crypto/tree-hash.c\<close>. An array of hashes is a
  list of byte blocks; \<open>cn_fast_hash\<close> is the parameter \<open>H\<close>. \<open>None\<close> is a failed \<open>assert\<close>. The loops
  that compute a power of two work on \<open>size_t\<close> words with the code's shifts; the array loops update
  the scratch array \<open>ints\<close> in place, as the code does.
\<close>

unbundle bit_operations_syntax


section \<open>Model\<close>

text \<open>\<open>cn_fast_hash(a[i], 2 * HASH_SIZE, out)\<close> reads two adjacent hashes.\<close>

definition hash_pair :: "(bytes \<Rightarrow> hash) \<Rightarrow> hash list \<Rightarrow> nat \<Rightarrow> hash" where
  "hash_pair H a i = H (a ! i @ a ! (i + 1))"

text \<open>The highest power of two not above a word: smear the bits to the right, keep the top one.\<close>

definition smear :: "u64 \<Rightarrow> u64" where
  "smear cnt = foldl (\<lambda>cnt i. cnt OR drop_bit i cnt) cnt [1, 2, 4, 8, 16, 32]"

definition top_bit :: "u64 \<Rightarrow> u64" where
  "top_bit cnt = (let cnt = smear cnt in cnt AND NOT (drop_bit 1 cnt))"

text \<open>\<open>for (i = i0, j = j0; j < cnt; i += 2, ++j) ints[j] = H(src[i], src[i + 1])\<close>, the source being another array.\<close>

fun hash_into :: "(bytes \<Rightarrow> hash) \<Rightarrow> hash list \<Rightarrow> nat \<Rightarrow> nat \<Rightarrow> nat \<Rightarrow> hash list \<Rightarrow> hash list" where
  "hash_into H src i j 0 ints = ints"
| "hash_into H src i j (Suc n) ints = hash_into H src (i + 2) (j + 1) n (ints[j := hash_pair H src i])"

text \<open>The same loop in place, from \<open>j = 0\<close>.\<close>

fun hash_in_place :: "(bytes \<Rightarrow> hash) \<Rightarrow> nat \<Rightarrow> nat \<Rightarrow> nat \<Rightarrow> hash list \<Rightarrow> hash list" where
  "hash_in_place H i j 0 ints = ints"
| "hash_in_place H i j (Suc n) ints = hash_in_place H (i + 2) (j + 1) n (ints[j := hash_pair H ints i])"

function tree_levels :: "(bytes \<Rightarrow> hash) \<Rightarrow> nat \<Rightarrow> hash list \<Rightarrow> hash list" where
  "tree_levels H cnt ints =
     (if cnt > 2 then tree_levels H (cnt div 2) (hash_in_place H 0 0 (cnt div 2) ints) else ints)"
  by pat_completeness auto
termination by (relation "measure (\<lambda>(_, cnt, _). cnt)") auto

declare tree_levels.simps [simp del]

definition tree_hash :: "(bytes \<Rightarrow> hash) \<Rightarrow> hash list \<Rightarrow> hash option" where
  "tree_hash H hashes =
     (let count = length hashes
      in if \<not> (count > 0) then None
         else if count = 1 then Some (hashes ! 0)
         else if count = 2 then Some (hash_pair H hashes 0)
         else
           let cnt = unat (top_bit (word_of_nat (count - 1)));
               n = 2 * cnt - count;
               ints = take n hashes @ replicate (cnt - n) [];
               ints = hash_into H hashes n n (cnt - n) ints
           in if n + 2 * (cnt - n) \<noteq> count then None
              else Some (hash_pair H (tree_levels H cnt ints) 0))"

text \<open>One round of the loop of \<open>tree_depth\<close>, and of the loop of \<open>tree_branch\<close>, for the shift \<open>i\<close>.\<close>

fun depth_step :: "u64 \<times> nat \<Rightarrow> nat \<Rightarrow> u64 \<times> nat" where
  "depth_step (cnt, depth) i =
     (if drop_bit i cnt > 0 then (drop_bit i cnt, depth + i) else (cnt, depth))"

fun branch_step :: "u64 \<Rightarrow> u64 \<times> nat \<Rightarrow> nat \<Rightarrow> u64 \<times> nat" where
  "branch_step n (cnt, depth) i =
     (if push_bit i cnt \<le> n then (push_bit i cnt, depth + i) else (cnt, depth))"

definition tree_depth :: "u64 \<Rightarrow> nat option" where
  "tree_depth n = (if n > 0 then Some (snd (foldl depth_step (n, 0) [32, 16, 8, 4, 2, 1])) else None)"

text \<open>The \<open>while\<close> loop of \<open>tree_branch\<close>: the branch, its element of the highest depth last.\<close>

fun branch_levels :: "(bytes \<Rightarrow> hash) \<Rightarrow> nat \<Rightarrow> nat \<Rightarrow> hash list \<Rightarrow> hash list option" where
  "branch_levels H cnt 0 ints = Some []"
| "branch_levels H cnt (Suc depth) ints =
     (if cnt \<noteq> 2 ^ Suc depth then None
      else Option.bind (branch_levels H (cnt div 2) depth (hash_in_place H 1 0 (cnt div 2 - 1) ints))
             (\<lambda>branch. Some (branch @ [ints ! 0])))"

definition tree_branch :: "(bytes \<Rightarrow> hash) \<Rightarrow> hash list \<Rightarrow> hash list option" where
  "tree_branch H hashes =
     (let count = length hashes
      in if \<not> (count > 0) then None
         else
           let (cnt', depth) = foldl (branch_step (word_of_nat count)) (1, 0) [32, 16, 8, 4, 2, 1];
               cnt = unat cnt'
           in if cnt \<noteq> 2 ^ depth \<or> tree_depth (word_of_nat count) \<noteq> Some depth then None
              else
                let n = 2 * cnt - count;
                    ints = take (n - 1) (tl hashes) @ replicate (cnt - n) [];
                    ints = hash_into H hashes n (n - 1) (cnt - n) ints
                in if n + 2 * (cnt - n) \<noteq> count then None
                   else branch_levels H cnt depth ints)"

text \<open>Bit \<open>depth\<close> of the path; a null pointer has none.\<close>

definition path_bit :: "bytes option \<Rightarrow> nat \<Rightarrow> bool" where
  "path_bit path depth \<longleftrightarrow>
     (case path of None \<Rightarrow> False | Some p \<Rightarrow> p ! (depth div 8) AND push_bit (depth mod 8) 1 \<noteq> 0)"

text \<open>
  The loop over the two-element \<open>buffer\<close>. The new \<open>leaf_path\<close> half is computed from the whole buffer before
  the \<open>branch_path\<close> half is overwritten.
\<close>

fun from_branch_loop :: "(bytes \<Rightarrow> hash) \<Rightarrow> hash list \<Rightarrow> nat \<Rightarrow> hash \<Rightarrow> bytes option \<Rightarrow> bool \<Rightarrow> hash \<times> hash \<Rightarrow> hash \<times> hash" where
  "from_branch_loop H branch 0 leaf path from_leaf buffer = buffer"
| "from_branch_loop H branch (Suc depth) leaf path from_leaf buffer =
     (let l = (if from_leaf then leaf else H (fst buffer @ snd buffer));
          b = branch ! depth
      in from_branch_loop H branch depth leaf path False
           (if path_bit path depth then (b, l) else (l, b)))"

definition tree_hash_from_branch :: "(bytes \<Rightarrow> hash) \<Rightarrow> hash list \<Rightarrow> nat \<Rightarrow> hash \<Rightarrow> bytes option \<Rightarrow> hash" where
  "tree_hash_from_branch H branch depth leaf path =
     (if depth = 0 then leaf
      else let buffer = from_branch_loop H branch depth leaf path True ([], [])
           in H (fst buffer @ snd buffer))"


section \<open>Specification\<close>

text \<open>Hash a list pairwise, and a list of \<open>2 ^ d\<close> hashes down to the root of its tree.\<close>

fun pair_up :: "(bytes \<Rightarrow> hash) \<Rightarrow> hash list \<Rightarrow> hash list" where
  "pair_up H (a # b # rest) = H (a @ b) # pair_up H rest"
| "pair_up H _ = []"

fun tree_root :: "(bytes \<Rightarrow> hash) \<Rightarrow> nat \<Rightarrow> hash list \<Rightarrow> hash" where
  "tree_root H 0 xs = hd xs"
| "tree_root H (Suc d) xs = tree_root H d (pair_up H xs)"

text \<open>
  The tree of \<open>n\<close> leaves, \<open>2 ^ d \<le> n < 2 ^ (d + 1)\<close>: the last leaves are paired until \<open>2 ^ d\<close> nodes are
  left.
\<close>

definition bottom_row :: "(bytes \<Rightarrow> hash) \<Rightarrow> nat \<Rightarrow> hash list \<Rightarrow> hash list" where
  "bottom_row H c hashes = take (2 * c - length hashes) hashes @ pair_up H (drop (2 * c - length hashes) hashes)"

definition merkle_root :: "(bytes \<Rightarrow> hash) \<Rightarrow> nat \<Rightarrow> hash list \<Rightarrow> hash" where
  "merkle_root H d hashes = tree_root H d (bottom_row H (2 ^ d) hashes)"


text \<open>Loop invariants of \<open>tree_depth\<close> and \<open>tree_branch\<close>: the bound halves with every round.\<close>

definition depth_inv :: "nat \<Rightarrow> nat \<Rightarrow> u64 \<times> nat \<Rightarrow> bool" where
  "depth_inv n b s \<longleftrightarrow> unat (fst s) = n div 2 ^ snd s \<and> 0 < unat (fst s) \<and> unat (fst s) < 2 ^ b"

definition branch_inv :: "u64 \<Rightarrow> nat \<Rightarrow> u64 \<times> nat \<Rightarrow> bool" where
  "branch_inv n b s \<longleftrightarrow> unat (fst s) = 2 ^ snd s \<and> 2 ^ snd s \<le> unat n \<and> unat n < 2 ^ (snd s + b) \<and> snd s + b \<le> 64"


section \<open>Powers of two\<close>

lemma smear_step:
  fixes c w :: u64
  assumes "\<forall>j. bit c j \<longleftrightarrow> (\<exists>m < s. bit w (j + m))"
  shows "\<forall>j. bit (c OR drop_bit s c) j \<longleftrightarrow> (\<exists>m < 2 * s. bit w (j + m))"
proof
  fix j
  have "bit (c OR drop_bit s c) j \<longleftrightarrow> (\<exists>m < s. bit w (j + m)) \<or> (\<exists>m < s. bit w (s + j + m))"
    using assms by (simp add: bit_simps add.commute)
  also have "\<dots> \<longleftrightarrow> (\<exists>m < 2 * s. bit w (j + m))"
  proof
    assume "(\<exists>m < s. bit w (j + m)) \<or> (\<exists>m < s. bit w (s + j + m))"
    then show "\<exists>m < 2 * s. bit w (j + m)"
    proof
      assume "\<exists>m < s. bit w (s + j + m)"
      then obtain m where "m < s" "bit w (j + (s + m))" by (auto simp: ac_simps)
      then show ?thesis by (intro exI [of _ "s + m"]) simp
    next
      assume "\<exists>m < s. bit w (j + m)"
      then obtain m where "m < s" "bit w (j + m)" by blast
      then show ?thesis by (intro exI [of _ m]) simp
    qed
  next
    assume "\<exists>m < 2 * s. bit w (j + m)"
    then obtain m where m: "m < 2 * s" "bit w (j + m)" by blast
    show "(\<exists>m < s. bit w (j + m)) \<or> (\<exists>m < s. bit w (s + j + m))"
    proof (cases "m < s")
      case False
      with m have "m - s < s" "bit w (s + j + (m - s))" by (simp_all add: ac_simps)
      then show ?thesis by blast
    qed (use m in auto)
  qed
  finally show "bit (c OR drop_bit s c) j \<longleftrightarrow> (\<exists>m < 2 * s. bit w (j + m))" .
qed

lemma bit_smear: "bit (smear w) j \<longleftrightarrow> (\<exists>m < 64. bit w (j + m))"
proof -
  have "\<forall>j. bit w j \<longleftrightarrow> (\<exists>m < 1. bit w (j + m))" by simp
  from smear_step [OF smear_step [OF smear_step [OF smear_step [OF smear_step [OF smear_step [OF this]]]]]]
  show ?thesis by (simp add: smear_def)
qed

lemma bit_unat: "bit (w :: u64) j \<longleftrightarrow> odd (unat w div 2 ^ j)"
  by (simp add: bit_unsigned_iff flip: bit_iff_odd)

lemma unat_top_bit:
  assumes "2 ^ k \<le> unat w" and "unat w < 2 ^ Suc k"
  shows "unat (top_bit w) = 2 ^ k"
proof -
  have kk: "2 ^ k < (2 :: nat) ^ 64" by (rule le_less_trans [OF assms(1)]) simp
  then have k: "k < 64" by (rule power_less_imp_less_exp [rotated]) simp
  have "unat w div 2 ^ k = 1" by (rule div_nat_eqI) (use assms in simp_all)
  then have at: "bit w k" by (simp add: bit_unat)
  have above: "\<not> bit w j" if "k < j" for j
  proof -
    have "(2 :: nat) ^ Suc k \<le> 2 ^ j" using that by (intro power_increasing) simp_all
    with assms(2) show ?thesis unfolding bit_unat by simp
  qed
  have smear: "bit (smear w) j \<longleftrightarrow> j \<le> k" for j
  proof
    assume "bit (smear w) j"
    then obtain m where "bit w (j + m)" by (auto simp: bit_smear)
    with above [of "j + m"] show "j \<le> k" by (cases "j \<le> k") auto
  next
    assume "j \<le> k"
    with at k show "bit (smear w) j" unfolding bit_smear by (intro exI [of _ "k - j"]) simp
  qed
  have "top_bit w = push_bit k 1"
  proof (rule bit_word_eqI)
    fix j
    assume "j < LENGTH(64)"
    then show "bit (top_bit w) j \<longleftrightarrow> bit (push_bit k 1 :: u64) j"
      by (auto simp: top_bit_def Let_def bit_simps smear)
  qed
  with kk show ?thesis by (simp add: unat_push_bit del: push_bit_of_1)
qed

lemma power_interval_unique:
  assumes "2 ^ d \<le> n" "n < 2 ^ Suc d" "2 ^ e \<le> n" "n < (2 :: nat) ^ Suc e"
  shows "d = e"
proof -
  have "2 ^ d < (2 :: nat) ^ Suc e" "2 ^ e < (2 :: nat) ^ Suc d" using assms by linarith+
  then have "d < Suc e" "e < Suc d" by (metis power_less_imp_less_exp one_less_numeral_iff semiring_norm(76))+
  then show ?thesis by simp
qed

lemma depth_step_inv: "depth_inv n (2 * i) s \<Longrightarrow> depth_inv n i (depth_step s i)"
proof -
  obtain c d where s: "s = (c, d)" by fastforce
  assume "depth_inv n (2 * i) s"
  then have c: "unat c = n div 2 ^ d" "0 < unat c" "unat c < 2 ^ (2 * i)" by (simp_all add: depth_inv_def s)
  have u: "unat (drop_bit i c) = unat c div 2 ^ i" by (rule unat_drop_bit)
  have gt: "drop_bit i c > 0 \<longleftrightarrow> 0 < unat c div 2 ^ i" unfolding word_less_nat_alt u by simp
  have p: "(2 :: nat) ^ (2 * i) = 2 ^ i * 2 ^ i" by (simp add: power_add mult_2)
  show ?thesis
  proof (cases "drop_bit i c > 0")
    case True
    moreover have "unat c div 2 ^ i < 2 ^ i" using c(3) unfolding p by (rule less_mult_imp_div_less)
    ultimately show ?thesis using c gt
      by (simp add: depth_inv_def s u div_mult2_eq power_add)
  next
    case False
    then have "unat c < 2 ^ i" using gt by (simp add: div_eq_0_iff)
    with False c show ?thesis by (simp add: depth_inv_def s)
  qed
qed

lemma div_eq_one_bounds: "n div m = 1 \<Longrightarrow> m \<le> n \<and> n < 2 * (m :: nat)"
proof -
  assume "n div m = 1"
  then have "n = m + n mod m" "m \<noteq> 0" using div_mult_mod_eq [of n m] by (auto intro: ccontr)
  moreover from this have "n mod m < m" by simp
  ultimately show ?thesis by linarith
qed

lemma depth_inv_one: "depth_inv n 1 s \<Longrightarrow> 2 ^ snd s \<le> n \<and> n < 2 ^ Suc (snd s)"
  using div_eq_one_bounds [of n "2 ^ snd s"] by (simp add: depth_inv_def)

lemma tree_depth_power:
  assumes "2 ^ d \<le> unat n" and "unat n < 2 ^ Suc d"
  shows "tree_depth n = Some d"
proof -
  let ?s = "foldl depth_step (n, 0) [32, 16, 8, 4, 2, 1]"
  have n: "0 < unat n" using assms(1) by (rule less_le_trans [rotated]) simp
  then have "depth_inv (unat n) (2 * 32) (n, 0)" by (simp add: depth_inv_def)
  from depth_step_inv [OF this] have "depth_inv (unat n) (2 * 16) (depth_step (n, 0) 32)" by simp
  from depth_step_inv [OF this] have "depth_inv (unat n) (2 * 8) (depth_step (depth_step (n, 0) 32) 16)" by simp
  from depth_step_inv [OF this] have "depth_inv (unat n) (2 * 4) (foldl depth_step (n, 0) [32, 16, 8])" by simp
  from depth_step_inv [OF this] have "depth_inv (unat n) (2 * 2) (foldl depth_step (n, 0) [32, 16, 8, 4])" by simp
  from depth_step_inv [OF this] have "depth_inv (unat n) (2 * 1) (foldl depth_step (n, 0) [32, 16, 8, 4, 2])" by simp
  from depth_step_inv [OF this] have "depth_inv (unat n) 1 ?s" by simp
  from depth_inv_one [OF this] assms have "snd ?s = d" by (blast intro: power_interval_unique)
  moreover have "n > 0" using n by (simp add: word_less_nat_alt)
  ultimately show ?thesis unfolding tree_depth_def by simp
qed

lemma branch_step_inv:
  assumes "branch_inv n (2 * i) s" and "0 < i"
  shows "branch_inv n i (branch_step n s i)"
proof -
  obtain c d where s: "s = (c, d)" by fastforce
  from assms have c: "unat c = 2 ^ d" "2 ^ d \<le> unat n" "unat n < 2 ^ (d + 2 * i)" "d + 2 * i \<le> 64"
    by (simp_all add: branch_inv_def s)
  have "(2 :: nat) ^ (d + i) < 2 ^ 64" using c(4) assms(2) by (intro power_strict_increasing) simp_all
  then have u: "unat (push_bit i c) = 2 ^ (d + i)" by (simp add: unat_push_bit c(1) power_add)
  have le: "push_bit i c \<le> n \<longleftrightarrow> 2 ^ (d + i) \<le> unat n" unfolding word_le_nat_alt u ..
  show ?thesis
  proof (cases "push_bit i c \<le> n")
    case True
    then show ?thesis using c u le by (simp add: branch_inv_def s add.assoc mult_2)
  next
    case False
    then show ?thesis using c le by (simp add: branch_inv_def s not_le)
  qed
qed

lemma branch_inv_one: "branch_inv n 1 s \<Longrightarrow> unat (fst s) = 2 ^ snd s \<and> 2 ^ snd s \<le> unat n \<and> unat n < 2 ^ Suc (snd s)"
  by (simp add: branch_inv_def)

lemma branch_steps:
  assumes "2 ^ d \<le> unat n" and "unat n < 2 ^ Suc d"
  obtains c where "foldl (branch_step n) (1, 0) [32, 16, 8, 4, 2, 1] = (c, d)" "unat c = 2 ^ d"
proof -
  let ?s = "foldl (branch_step n) (1, 0) [32, 16, 8, 4, 2, 1]"
  have "0 < unat n" using assms(1) by (rule less_le_trans [rotated]) simp
  then have "branch_inv n (2 * 32) (1, 0)" by (simp add: branch_inv_def)
  from branch_step_inv [OF this] have "branch_inv n (2 * 16) (foldl (branch_step n) (1, 0) [32])" by simp
  from branch_step_inv [OF this] have "branch_inv n (2 * 8) (foldl (branch_step n) (1, 0) [32, 16])" by simp
  from branch_step_inv [OF this] have "branch_inv n (2 * 4) (foldl (branch_step n) (1, 0) [32, 16, 8])" by simp
  from branch_step_inv [OF this] have "branch_inv n (2 * 2) (foldl (branch_step n) (1, 0) [32, 16, 8, 4])" by simp
  from branch_step_inv [OF this] have "branch_inv n (2 * 1) (foldl (branch_step n) (1, 0) [32, 16, 8, 4, 2])" by simp
  from branch_step_inv [OF this] have "branch_inv n 1 ?s" by simp
  from branch_inv_one [OF this] have s: "unat (fst ?s) = 2 ^ snd ?s" "snd ?s = d"
    using assms by (blast intro: power_interval_unique)+
  show thesis by (rule that [of "fst ?s"]) (use s in \<open>metis prod.collapse\<close>)+
qed


section \<open>Array loops\<close>

lemma map_upt_Suc_shift: "map f [0..<Suc n] = f 0 # map (\<lambda>t. f (Suc t)) [0..<n]"
  by (simp only: upt_conv_Cons [of 0 "Suc n"] map_Suc_upt [symmetric] list.map zero_less_Suc map_map comp_def)

lemma pair_up_map: "pair_up H xs = map (\<lambda>t. hash_pair H xs (2 * t)) [0..<length xs div 2]"
proof (induction H xs rule: pair_up.induct)
  case (1 H a b rest)
  have "length (a # b # rest) div 2 = Suc (length rest div 2)" by simp
  then show ?case unfolding 1 pair_up.simps(1) by (simp only: map_upt_Suc_shift) (simp add: 1 hash_pair_def)
qed simp_all

lemma length_pair_up [simp]: "length (pair_up H xs) = length xs div 2"
  by (simp add: pair_up_map)

lemma hash_into_eq:
  "j + n \<le> length ints \<Longrightarrow> hash_into H src i j n ints
     = take j ints @ map (\<lambda>t. hash_pair H src (i + 2 * t)) [0..<n] @ drop (j + n) ints"
proof (induction n arbitrary: i j ints)
  case (Suc n)
  then have "j < length ints" by simp
  with Suc show ?case
    by (simp add: map_upt_Suc_shift take_Suc_conv_app_nth del: upt_Suc)
qed simp

lemma hash_in_place_eq:
  "j \<le> i \<Longrightarrow> j + n \<le> length ints \<Longrightarrow> hash_in_place H i j n ints
     = take j ints @ map (\<lambda>t. hash_pair H ints (i + 2 * t)) [0..<n] @ drop (j + n) ints"
proof (induction n arbitrary: i j ints)
  case (Suc n)
  then have "j < length ints" by simp
  moreover have "hash_pair H (ints[j := v]) (Suc (Suc (i + 2 * t))) = hash_pair H ints (Suc (Suc (i + 2 * t)))" for v t
    using Suc.prems(1) by (simp add: hash_pair_def)
  ultimately show ?case using Suc
    by (simp add: map_upt_Suc_shift take_Suc_conv_app_nth del: upt_Suc)
qed simp

lemma hash_pair_take: "i + 1 < n \<Longrightarrow> hash_pair H (take n xs) i = hash_pair H xs i"
  by (simp add: hash_pair_def)

lemma tree_levels_root:
  assumes "2 ^ Suc d \<le> length ints"
  shows "hash_pair H (tree_levels H (2 ^ Suc d) ints) 0 = tree_root H (Suc d) (take (2 ^ Suc d) ints)"
  using assms
proof (induction d arbitrary: ints)
  case 0
  then obtain a b rest where "ints = a # b # rest" by (auto simp: Suc_le_length_iff numeral_2_eq_2)
  then show ?case by (simp add: tree_levels.simps hash_pair_def)
next
  case (Suc d)
  let ?c = "2 ^ Suc d :: nat"
  let ?ints = "hash_in_place H 0 0 ?c ints"
  have "(1 :: nat) \<le> 2 ^ d" by simp
  then have c: "2 ^ Suc (Suc d) = 2 * ?c" "(2 :: nat) < 2 * ?c" unfolding power_Suc by linarith+
  have len: "2 * ?c \<le> length ints" using Suc.prems by simp
  have ints': "?ints = map (\<lambda>t. hash_pair H ints (2 * t)) [0..<?c] @ drop ?c ints"
    using hash_in_place_eq [of 0 0 ?c ints H] len by simp
  have "take ?c ?ints = map (\<lambda>t. hash_pair H ints (2 * t)) [0..<?c]" unfolding ints' by simp
  also have "\<dots> = map (\<lambda>t. hash_pair H (take (2 * ?c) ints) (2 * t)) [0..<?c]"
    by (rule map_cong) (simp_all add: hash_pair_take del: power_Suc)
  also have "\<dots> = pair_up H (take (2 * ?c) ints)" using len by (simp add: pair_up_map del: power_Suc)
  finally have t: "take ?c ?ints = pair_up H (take (2 * ?c) ints)" .
  have "tree_levels H (2 ^ Suc (Suc d)) ints = tree_levels H ?c ?ints"
    unfolding c(1) by (subst tree_levels.simps) (use c(2) in \<open>simp del: power_Suc\<close>)
  moreover have "?c \<le> length ?ints" unfolding ints' by (simp del: power_Suc)
  ultimately show ?case using Suc.IH [of ?ints] t unfolding c(1) by simp
qed

lemma length_bottom_row:
  "c \<le> length hs \<Longrightarrow> length hs \<le> 2 * c \<Longrightarrow> length (bottom_row H c hs) = c"
  by (simp add: bottom_row_def)

lemma bottom_row_loop:
  assumes "c \<le> length hs" and "length hs \<le> 2 * c" and "n = 2 * c - length hs"
  shows "map (\<lambda>t. hash_pair H hs (n + 2 * t)) [0..<c - n] = pair_up H (drop n hs)"
proof -
  have "length (drop n hs) div 2 = c - n" using assms by simp
  then show ?thesis using assms by (simp add: pair_up_map hash_pair_def)
qed


section \<open>Trees and branches\<close>

lemma power_below:
  assumes "2 \<le> (n :: nat)"
  obtains d where "2 ^ d < n" "n \<le> 2 ^ Suc d"
  using ex_power_ivl2 [of 2 n] assms by auto

lemma power_at:
  assumes "0 < (n :: nat)"
  obtains d where "2 ^ d \<le> n" "n < 2 ^ Suc d"
  using ex_power_ivl1 [of 2 n] assms by auto

text \<open>\<open>tree_hash\<close> takes the largest power of two below the number of leaves; that of \<open>merkle_root\<close> may be equal to it.\<close>

lemma merkle_root_step:
  assumes "2 ^ d < length hs" and "length hs \<le> 2 ^ Suc d" and "2 ^ D \<le> length hs" and "length hs < 2 ^ Suc D"
  shows "tree_root H d (bottom_row H (2 ^ d) hs) = merkle_root H D hs"
proof (cases "length hs = 2 ^ Suc d")
  case True
  have "D = Suc d" by (rule power_interval_unique [OF assms(3,4)]) (use True in simp_all)
  then show ?thesis using True by (simp add: merkle_root_def bottom_row_def)
next
  case False
  then have "D = d" using assms by (intro power_interval_unique [OF assms(3,4)]) simp_all
  then show ?thesis by (simp add: merkle_root_def)
qed

lemma tree_hash_merkle:
  assumes D: "2 ^ D \<le> length hs" "length hs < 2 ^ Suc D" and len: "length hs < 2 ^ 64"
  shows "tree_hash H hs = Some (merkle_root H D hs)"
proof -
  have "0 < length hs" using D(1) by (rule less_le_trans [rotated]) simp
  then consider "length hs = 1" | "length hs = 2" | "3 \<le> length hs" by linarith
  then show ?thesis
  proof cases
    case 1
    then obtain a where hs: "hs = [a]" by (auto simp: length_Suc_conv)
    have "D = 0" by (rule power_interval_unique [OF D]) (use 1 in simp_all)
    then show ?thesis by (simp add: tree_hash_def hs merkle_root_def bottom_row_def)
  next
    case 2
    then obtain a b where hs: "hs = [a, b]" by (auto simp: numeral_2_eq_2 length_Suc_conv)
    have "D = 1" by (rule power_interval_unique [OF D]) (use 2 in simp_all)
    then show ?thesis by (simp add: tree_hash_def hs merkle_root_def bottom_row_def hash_pair_def)
  next
    case 3
    then have "2 \<le> length hs" by simp
    then obtain d where d: "2 ^ d < length hs" "length hs \<le> 2 ^ Suc d" by (rule power_below)
    then obtain e where e: "d = Suc e" using 3 by (cases d) simp_all
    define c :: nat where c: "c = 2 ^ d"
    define n where n: "n = 2 * c - length hs"
    have "unat (word_of_nat (length hs - 1) :: u64) = length hs - 1"
      by (rule unat_word_of_nat) (use len in simp)
    then have top: "unat (top_bit (word_of_nat (length hs - 1))) = c"
      unfolding c by (intro unat_top_bit) (use d in simp_all)
    have hs: "c < length hs" "length hs \<le> 2 * c" using d by (simp_all add: c)
    then have nn: "n \<le> c" "n \<le> length hs" "n + 2 * (c - n) = length hs" by (simp_all add: n)
    have "hash_into H hs n n (c - n) (take n hs @ replicate (c - n) []) = bottom_row H c hs"
      using hash_into_eq [of n "c - n" "take n hs @ replicate (c - n) []" H hs n]
        bottom_row_loop [of c hs n H] nn hs n by (simp add: bottom_row_def)
    then have "tree_hash H hs = Some (hash_pair H (tree_levels H c (bottom_row H c hs)) 0)"
      unfolding tree_hash_def Let_def top n [symmetric] nn(3) using 3 by auto
    moreover have "length (bottom_row H c hs) = c" using hs by (intro length_bottom_row) simp_all
    ultimately show ?thesis
      using tree_levels_root [of e "bottom_row H c hs" H] merkle_root_step [OF d D, of H] by (simp add: e c del: power_Suc)
  qed
qed

lemma from_branch_loop_climb:
  "k \<le> length branch \<Longrightarrow> (let r = from_branch_loop H branch k leaf None False buf in H (fst r @ snd r))
     = foldr (\<lambda>b acc. H (acc @ b)) (take k branch) (H (fst buf @ snd buf))"
proof (induction k arbitrary: buf)
  case (Suc k)
  then show ?case by (simp add: take_Suc_conv_app_nth path_bit_def)
qed simp

lemma tree_hash_from_branch_climb:
  "tree_hash_from_branch H branch (length branch) leaf None = foldr (\<lambda>b acc. H (acc @ b)) branch leaf"
proof (cases branch rule: rev_cases)
  case (snoc bs b)
  then show ?thesis
    using from_branch_loop_climb [of "length bs" branch H leaf "(leaf, b)"]
    by (simp add: tree_hash_from_branch_def path_bit_def Let_def nth_append)
qed (simp add: tree_hash_from_branch_def)

lemma branch_levels_root:
  assumes "length M = 2 ^ D" and "take (2 ^ D - 1) ints = tl M" and "2 ^ D - 1 \<le> length ints"
  shows "\<exists>branch. branch_levels H (2 ^ D) D ints = Some branch \<and> length branch = D
    \<and> foldr (\<lambda>b acc. H (acc @ b)) branch (hd M) = tree_root H D M"
  using assms
proof (induction D arbitrary: M ints)
  case (Suc D)
  obtain n where p: "(2 :: nat) ^ D = Suc n" by (cases "(2 :: nat) ^ D") simp_all
  then have len: "1 + 2 * n \<le> length ints" "length M = 2 + 2 * n" using Suc.prems by simp_all
  obtain a b M' where M: "M = a # b # M'" "length M' = 2 * n"
    using len(2) by (cases M; cases "tl M") auto
  have "take (1 + 2 * n) ints = b # M'" using Suc.prems(2) p M(1) by simp
  then have nth: "ints ! k = (b # M') ! k" if "k < 1 + 2 * n" for k
    using that nth_take [of k "1 + 2 * n" ints] by simp
  let ?ints = "hash_in_place H 1 0 n ints"
  have ints': "?ints = map (\<lambda>t. hash_pair H ints (1 + 2 * t)) [0..<n] @ drop n ints"
    using hash_in_place_eq [of 0 1 n ints H] len by simp
  have "map (\<lambda>t. hash_pair H ints (1 + 2 * t)) [0..<n] = map (\<lambda>t. hash_pair H M' (2 * t)) [0..<n]"
    by (rule map_cong) (auto simp: hash_pair_def nth)
  also have "\<dots> = pair_up H M'" using M(2) by (simp add: pair_up_map)
  finally have t: "take (2 ^ D - 1) ?ints = tl (pair_up H M)" unfolding ints' by (simp add: M p)
  have "length (pair_up H M) = 2 ^ D" using len(2) p by simp
  from Suc.IH [OF this t] len p obtain branch where branch: "branch_levels H (2 ^ D) D ?ints = Some branch"
      "length branch = D" "foldr (\<lambda>b acc. H (acc @ b)) branch (hd (pair_up H M)) = tree_root H D (pair_up H M)"
    unfolding ints' by auto
  have "ints ! 0 = b" using nth [of 0] by simp
  with branch p show ?case by (simp add: M(1))
qed simp

lemma tree_branch_root:
  assumes D: "2 ^ D \<le> length hs" "length hs < 2 ^ Suc D" and len: "length hs < 2 ^ 64"
  shows "\<exists>branch. tree_branch H hs = Some branch \<and> length branch = D
    \<and> foldr (\<lambda>b acc. H (acc @ b)) branch (hd hs) = merkle_root H D hs"
proof -
  define c :: nat where c: "c = 2 ^ D"
  define n where n: "n = 2 * c - length hs"
  have bounds: "c \<le> length hs" "length hs < 2 * c" using D by (simp_all add: c)
  then have nn: "1 \<le> n" "n \<le> c" "n \<le> length hs" "n + 2 * (c - n) = length hs" by (simp_all add: n)
  obtain m where m: "n = Suc m" using nn(1) by (cases n) simp_all
  have u: "unat (word_of_nat (length hs) :: u64) = length hs" by (rule unat_word_of_nat) (use len in simp)
  obtain c' where c': "foldl (branch_step (word_of_nat (length hs))) (1, 0) [32, 16, 8, 4, 2, 1] = (c', D)"
      "unat c' = c"
    unfolding c by (rule branch_steps [of D "word_of_nat (length hs)"]) (use D u in simp_all)
  have depth: "tree_depth (word_of_nat (length hs)) = Some D" using D u by (intro tree_depth_power) simp_all
  obtain h hs' where hs: "hs = h # hs'" using nn m by (cases hs) simp_all
  let ?ints = "hash_into H hs n (n - 1) (c - n) (take (n - 1) (tl hs) @ replicate (c - n) [])"
  have row: "bottom_row H c hs = h # take m hs' @ pair_up H (drop n hs)"
    unfolding bottom_row_def n [symmetric] by (simp add: m hs)
  have ints: "?ints = take m hs' @ pair_up H (drop n hs)"
  proof -
    have loop: "map (\<lambda>t. hash_pair H hs (n + 2 * t)) [0..<c - n] = pair_up H (drop n hs)"
      by (rule bottom_row_loop) (use bounds n in simp_all)
    have "n - 1 = m" "tl hs = hs'" "m \<le> length hs'" using nn(3) by (simp_all add: m hs)
    then show ?thesis
      using hash_into_eq [of m "c - n" "take m hs' @ replicate (c - n) []" H hs n] loop by simp
  qed
  have len_row: "length (bottom_row H c hs) = 2 ^ D" unfolding c [symmetric] using bounds by (intro length_bottom_row) simp_all
  then have "length ?ints = 2 ^ D - 1" unfolding row ints by simp
  then obtain branch where b: "branch_levels H c D ?ints = Some branch" "length branch = D"
      "foldr (\<lambda>b acc. H (acc @ b)) branch (hd (bottom_row H c hs)) = tree_root H D (bottom_row H c hs)"
    using branch_levels_root [OF len_row, of ?ints] row ints unfolding c by auto
  have "0 < length hs" by (simp add: hs)
  then have "tree_branch H hs = branch_levels H c D ?ints"
    unfolding tree_branch_def Let_def c'(1) prod.case c'(2) n [symmetric] nn(4) depth by (simp add: c)
  with b row hs show ?thesis by (simp add: merkle_root_def c)
qed


section \<open>Properties\<close>

text \<open>
  C8: the Merkle root and the Merkle branch agree. For every non-empty list of hashes \<open>tree_hash\<close> returns
  a root without failing an assertion, \<open>tree_branch\<close> returns a branch of \<open>tree_depth\<close> elements, and
  climbing that branch from the first leaf with \<open>tree_hash_from_branch\<close> gives the root of \<open>tree_hash\<close>: the
  branch that a merge-mined block carries proves its coinbase transaction.
\<close>

theorem tree_branch_proves_root:
  assumes "hashes \<noteq> []" and "length hashes < 2 ^ 64"
  shows "\<exists>root branch. tree_hash H hashes = Some root \<and> tree_branch H hashes = Some branch
    \<and> tree_depth (word_of_nat (length hashes)) = Some (length branch)
    \<and> tree_hash_from_branch H branch (length branch) (hd hashes) None = root"
proof -
  have "0 < length hashes" using assms(1) by simp
  then obtain D where D: "2 ^ D \<le> length hashes" "length hashes < 2 ^ Suc D" by (rule power_at)
  have u: "unat (word_of_nat (length hashes) :: u64) = length hashes"
    by (rule unat_word_of_nat) (use assms(2) in simp)
  obtain branch where b: "tree_branch H hashes = Some branch" "length branch = D"
      "foldr (\<lambda>b acc. H (acc @ b)) branch (hd hashes) = merkle_root H D hashes"
    using tree_branch_root [OF D assms(2)] by blast
  have "tree_depth (word_of_nat (length hashes)) = Some D" using D u by (intro tree_depth_power) simp_all
  with b tree_hash_merkle [OF D assms(2), of H] tree_hash_from_branch_climb [of H branch "hd hashes"]
  show ?thesis by simp
qed

theorem tree_branch_proves_root_witness:
  "\<exists>root branch. tree_hash (take 32) [[1], [2], [3], [4], [5]] = Some root
    \<and> tree_branch (take 32) [[1], [2], [3], [4], [5]] = Some branch
    \<and> tree_depth (word_of_nat (length [[1], [2], [3], [4], [5 :: u8]])) = Some (length branch)
    \<and> tree_hash_from_branch (take 32) branch (length branch) (hd [[1], [2], [3], [4], [5]]) None = root"
  by (rule tree_branch_proves_root) simp_all

text \<open>
  \<open>tree_depth\<close> is the binary logarithm, rounded down, of a non-zero \<open>size_t\<close>.
\<close>

lemma tree_depth_log:
  assumes "n \<noteq> 0"
  shows "\<exists>d. tree_depth n = Some d \<and> 2 ^ d \<le> unat n \<and> unat n < 2 ^ (d + 1)"
proof -
  have "0 < unat n" using assms by (simp add: unat_gt_0)
  then obtain d where d: "2 ^ d \<le> unat n" "unat n < 2 ^ Suc d" by (rule power_at)
  with tree_depth_power [OF d] show ?thesis by auto
qed

lemma tree_depth_log_witness:
  "\<exists>d. tree_depth 1000 = Some d \<and> 2 ^ d \<le> unat (1000 :: u64) \<and> unat (1000 :: u64) < 2 ^ (d + 1)"
  by (rule tree_depth_log) simp

end
