(* ===== verification/Blocks.thy ===== *)
theory Blocks
  imports TxExtra TreeHash
begin

text \<open>
  Blocks, \<open>include/CryptoNote.h\<close>, their binary form, \<open>src/serialization/CryptoNoteSerialization.cpp\<close>, and
  the byte arrays that are hashed, \<open>src/cryptonotecore/CachedBlock.cpp\<close> and \<open>src/common/CryptoNoteTools.h\<close>.

  A reader works on the object it is given: a version 1 block leaves the parent block untouched, a later
  one takes its timestamp and nonce from the parent block. \<open>CachedBlock\<close> keeps every result it has computed;
  the block it holds never changes, so the functions here compute the value that is kept.
  \<open>cn_fast_hash\<close> is the parameter \<open>H\<close>, the proof-of-work functions are the parameter \<open>slow_hash\<close>.
\<close>

section \<open>Data\<close>

record ParentBlock =
  pb_majorVersion :: u8
  pb_minorVersion :: u8
  pb_previousBlockHash :: hash
  transactionCount :: u16
  baseTransactionBranch :: "hash list"
  pb_baseTransaction :: BaseTransaction
  blockchainBranch :: "hash list"

record BlockHeader =
  majorVersion :: u8
  minorVersion :: u8
  nonce :: u32
  timestamp :: u64
  previousBlockHash :: hash

record BlockTemplate = BlockHeader +
  parentBlock :: ParentBlock
  baseTransaction :: Transaction
  transactionHashes :: "hash list"

record RawBlock =
  block :: bytes
  raw_transactions :: "bytes list"


section \<open>Hashes of objects\<close>

text \<open>\<open>getObjectHash(object)\<close>: the hash of the binary form, or the null hash and failure.\<close>

definition getObjectHash :: "(bytes \<Rightarrow> hash) \<Rightarrow> 'a writer \<Rightarrow> 'a \<Rightarrow> bool \<times> hash" where
  "getObjectHash H ser object =
     (case toBinaryArray ser object of Inl _ \<Rightarrow> (False, replicate 32 0) | Inr ba \<Rightarrow> (True, H ba))"

text \<open>A byte array as an object: the specialisation of \<open>toBinaryArray\<close> writes it as a string.\<close>

definition getObjectHash_bytes :: "(bytes \<Rightarrow> hash) \<Rightarrow> bytes \<Rightarrow> hash" where
  "getObjectHash_bytes H ba = snd (getObjectHash H serialize_string ba)"

definition base_transaction_hash_data :: bytes where
  "base_transaction_hash_data = replicate 32 0 @
     [0xbc, 0x36, 0x78, 0x9e, 0x7a, 0x1e, 0x28, 0x14, 0x36, 0x46, 0x42, 0x29, 0x82, 0x8f, 0x81, 0x7d,
      0x66, 0x12, 0xf7, 0xb4, 0x77, 0xd6, 0x65, 0x91, 0xff, 0x96, 0xa9, 0xe0, 0x64, 0xbc, 0xc9, 0x8a]
     @ replicate 32 0"

definition getBaseTransactionHash :: "(bytes \<Rightarrow> hash) \<Rightarrow> BaseTransaction \<Rightarrow> bool \<times> hash" where
  "getBaseTransactionHash H tx =
     (if version tx < TRANSACTION_VERSION_2 then getObjectHash H serialize_BaseTransaction tx
      else case getObjectHash H (serialize_TransactionPrefix :: TransactionPrefix writer) tx of
          (True, h) \<Rightarrow> (True, H (h @ drop 32 base_transaction_hash_data))
        | (False, h) \<Rightarrow> (False, h))"


section \<open>Binary form\<close>

text \<open>\<open>serializer.binary(&nonce, sizeof(nonce))\<close>: four bytes, little-endian.\<close>

definition nonce_bytes :: "u32 \<Rightarrow> bytes" where
  "nonce_bytes n = map (\<lambda>i. ucast (drop_bit (8 * i) n)) [0, 1, 2, 3]"

definition nonce_of_bytes :: "bytes \<Rightarrow> u32" where
  "nonce_of_bytes bs = word_of_nat (le_nat bs)"

text \<open>\<open>serialize(ParentBlockSerializer)\<close>, \<open>OUTPUT\<close>.\<close>

definition serialize_ParentBlock ::
    "(bytes \<Rightarrow> hash) \<Rightarrow> bool \<Rightarrow> bool \<Rightarrow> u64 \<Rightarrow> u32 \<Rightarrow> ParentBlock writer" where
  "serialize_ParentBlock H hashingSerialization headerOnly ts n pb =
     appendW (serialize_uint (pb_majorVersion pb))
     (appendW (serialize_uint (pb_minorVersion pb))
     (appendW (serialize_uint ts)
     (appendW (serialize_binary (pb_previousBlockHash pb))
     (appendW (serialize_binary (nonce_bytes n))
     (appendW
       (if hashingSerialization then
          case getBaseTransactionHash H (pb_baseTransaction pb) of
            (False, _) \<Rightarrow> Inl (RuntimeError ''Get transaction hash error'')
          | (True, minerTxHash) \<Rightarrow>
              serialize_binary (tree_hash_from_branch H (baseTransactionBranch pb)
                (length (baseTransactionBranch pb)) minerTxHash None)
        else Inr [])
     (appendW (serialize_uint (ucast (transactionCount pb) :: u64))
       (if transactionCount pb < 1 then Inl (RuntimeError ''Wrong transactions number'')
        else if headerOnly then Inr []
        else if tree_depth (ucast (transactionCount pb)) \<noteq> Some (length (baseTransactionBranch pb))
        then Inl (RuntimeError ''Wrong miner transaction branch size'')
        else
          appendW (serialize_items serialize_binary (baseTransactionBranch pb))
          (appendW (serialize_BaseTransaction (pb_baseTransaction pb))
            (case getMergeMiningTagFromExtra (extra (pb_baseTransaction pb)) of
               None \<Rightarrow> Inl (RuntimeError ''Can't get extra merge mining tag'')
             | Some mmTag \<Rightarrow>
                 if depth mmTag > 8 * 32 then Inl (RuntimeError ''Wrong merge mining tag depth'')
                 else if unat (depth mmTag) \<noteq> length (blockchainBranch pb)
                 then Inl (RuntimeError ''Blockchain branch size must be equal to merge mining tag depth'')
                 else serialize_items serialize_binary (blockchainBranch pb))))))))))"

text \<open>
  The same, \<open>INPUT\<close>, with both flags false: the timestamp, the nonce and the parent block.
  \<open>static_cast<uint16_t>(txNum)\<close> cuts the count to 16 bits.
\<close>

definition deserialize_ParentBlock :: "(u64 \<times> u32 \<times> ParentBlock) reader" where
  "deserialize_ParentBlock =
     bindR deserialize_uint (\<lambda>major.
     bindR deserialize_uint (\<lambda>minor.
     bindR deserialize_uint (\<lambda>ts.
     bindR (deserialize_binary 32) (\<lambda>prev.
     bindR (deserialize_binary 4) (\<lambda>n.
     bindR (deserialize_uint :: u64 reader) (\<lambda>txNum.
     (let cnt = (ucast txNum :: u16)
      in if cnt < 1 then throwR (RuntimeError ''Wrong transactions number'')
         else
           bindR (deserialize_items (deserialize_binary 32) (the (tree_depth (ucast cnt)))) (\<lambda>branch.
           bindR deserialize_BaseTransaction (\<lambda>base.
           (case getMergeMiningTagFromExtra (extra base) of
              None \<Rightarrow> throwR (RuntimeError ''Can't get extra merge mining tag'')
            | Some mmTag \<Rightarrow>
                if depth mmTag > 8 * 32 then throwR (RuntimeError ''Wrong merge mining tag depth'')
                else
                  bindR (deserialize_items (deserialize_binary 32) (unat (depth mmTag))) (\<lambda>chain.
                    returnR (ts, nonce_of_bytes n,
                      \<lparr> pb_majorVersion = major, pb_minorVersion = minor, pb_previousBlockHash = prev,
                        transactionCount = cnt, baseTransactionBranch = branch, pb_baseTransaction = base,
                        blockchainBranch = chain \<rparr>))))))))))))"

definition serializeBlockHeader :: "'a BlockHeader_scheme writer" where
  "serializeBlockHeader header =
     appendW (serialize_uint (majorVersion header))
       (if majorVersion header > BLOCK_MAJOR_VERSION_7 then Inl (RuntimeError ''Wrong major version'')
        else
          appendW (serialize_uint (minorVersion header))
            (if majorVersion header = BLOCK_MAJOR_VERSION_1 then
               appendW (serialize_uint (timestamp header))
               (appendW (serialize_binary (previousBlockHash header))
                 (serialize_binary (nonce_bytes (nonce header))))
             else if majorVersion header \<ge> BLOCK_MAJOR_VERSION_2
             then serialize_binary (previousBlockHash header)
             else Inl (RuntimeError ''Wrong major version'')))"

definition deserializeBlockHeader :: "BlockHeader \<Rightarrow> BlockHeader reader" where
  "deserializeBlockHeader header =
     bindR deserialize_uint (\<lambda>major.
       if major > BLOCK_MAJOR_VERSION_7 then throwR (RuntimeError ''Wrong major version'')
       else
         bindR deserialize_uint (\<lambda>minor.
           if major = BLOCK_MAJOR_VERSION_1 then
             bindR deserialize_uint (\<lambda>ts.
             bindR (deserialize_binary 32) (\<lambda>prev.
             bindR (deserialize_binary 4) (\<lambda>n.
               returnR \<lparr> majorVersion = major, minorVersion = minor, nonce = nonce_of_bytes n,
                 timestamp = ts, previousBlockHash = prev \<rparr>)))
           else if major \<ge> BLOCK_MAJOR_VERSION_2 then
             bindR (deserialize_binary 32) (\<lambda>prev.
               returnR \<lparr> majorVersion = major, minorVersion = minor, nonce = nonce header,
                 timestamp = timestamp header, previousBlockHash = prev \<rparr>)
           else throwR (RuntimeError ''Wrong major version'')))"

definition serialize_BlockTemplate :: "(bytes \<Rightarrow> hash) \<Rightarrow> BlockTemplate writer" where
  "serialize_BlockTemplate H b =
     appendW (serializeBlockHeader b)
     (appendW
       (if majorVersion b \<ge> BLOCK_MAJOR_VERSION_2
        then serialize_ParentBlock H False False (timestamp b) (nonce b) (parentBlock b) else Inr [])
     (appendW (serialize_Transaction (baseTransaction b))
       (serializeContainer serialize_binary (transactionHashes b))))"

definition deserialize_BlockTemplate :: "BlockTemplate \<Rightarrow> BlockTemplate reader" where
  "deserialize_BlockTemplate b =
     bindR (deserializeBlockHeader (BlockHeader.truncate b)) (\<lambda>h.
     bindR
       (if majorVersion h \<ge> BLOCK_MAJOR_VERSION_2 then deserialize_ParentBlock
        else returnR (timestamp h, nonce h, parentBlock b)) (\<lambda>(ts, n, pb).
     bindR deserialize_Transaction (\<lambda>base.
     bindR (deserializeContainer (deserialize_binary 32)) (\<lambda>hs.
       returnR \<lparr> majorVersion = majorVersion h, minorVersion = minorVersion h, nonce = n, timestamp = ts,
         previousBlockHash = previousBlockHash h, parentBlock = pb, baseTransaction = base,
         transactionHashes = hs \<rparr>))))"

text \<open>\<open>serialize(RawBlock)\<close>: the number of transactions is written twice, as a number and as an array size.\<close>

definition serialize_blob :: "bytes writer" where
  "serialize_blob blob = appendW (serialize_uint (word_of_nat (length blob) :: u64)) (serialize_binary blob)"

definition deserialize_blob :: "bytes reader" where
  "deserialize_blob = bindR (deserialize_uint :: u64 reader) (\<lambda>n. deserialize_binary (unat n))"

definition serialize_RawBlock :: "RawBlock writer" where
  "serialize_RawBlock rawBlock =
     appendW (serialize_blob (block rawBlock))
     (appendW (serialize_uint (word_of_nat (length (raw_transactions rawBlock)) :: u64))
     (appendW (serialize_uint (word_of_nat (length (raw_transactions rawBlock)) :: u64))
       (serialize_items serialize_blob (raw_transactions rawBlock))))"

definition deserialize_RawBlock :: "RawBlock reader" where
  "deserialize_RawBlock =
     bindR deserialize_blob (\<lambda>b.
     bindR (deserialize_uint :: u64 reader) (\<lambda>txCount.
     bindR (deserialize_uint :: u64 reader) (\<lambda>_.
     bindR (deserialize_items deserialize_blob (unat txCount)) (\<lambda>txs.
       returnR \<lparr> block = b, raw_transactions = txs \<rparr>))))"


section \<open>Hashing\<close>

definition getTransactionTreeHash :: "(bytes \<Rightarrow> hash) \<Rightarrow> BlockTemplate \<Rightarrow> hash option" where
  "getTransactionTreeHash H b =
     tree_hash H (snd (getObjectHash H serialize_Transaction (baseTransaction b)) # transactionHashes b)"

definition getBlockHashingBinaryArray :: "(bytes \<Rightarrow> hash) \<Rightarrow> BlockTemplate \<Rightarrow> exc + bytes" where
  "getBlockHashingBinaryArray H b =
     (case toBinaryArray serializeBlockHeader b of
        Inl _ \<Rightarrow> Inl (RuntimeError ''Can't serialize BlockHeader'')
      | Inr header \<Rightarrow>
          Inr (header @ the (getTransactionTreeHash H b)
            @ write_varint (word_of_nat (length (transactionHashes b) + 1))))"

definition getParentBlockHashingBinaryArray :: "(bytes \<Rightarrow> hash) \<Rightarrow> bool \<Rightarrow> BlockTemplate \<Rightarrow> exc + bytes" where
  "getParentBlockHashingBinaryArray H headerOnly b =
     (case serialize_ParentBlock H True headerOnly (timestamp b) (nonce b) (parentBlock b) of
        Inl _ \<Rightarrow> Inl (RuntimeError (if headerOnly then ''Can't serialize parent block header for hashing.''
          else ''Can't serialize parent block for hashing.''))
      | Inr ba \<Rightarrow> Inr ba)"

definition getParentBlockBinaryArray :: "(bytes \<Rightarrow> hash) \<Rightarrow> bool \<Rightarrow> BlockTemplate \<Rightarrow> exc + bytes" where
  "getParentBlockBinaryArray H headerOnly b =
     (case serialize_ParentBlock H False headerOnly (timestamp b) (nonce b) (parentBlock b) of
        Inl _ \<Rightarrow> Inl (RuntimeError (if headerOnly then ''Can't serialize parent block header.''
          else ''Can't serialize parent block.''))
      | Inr ba \<Rightarrow> Inr ba)"

definition getBlockHash :: "(bytes \<Rightarrow> hash) \<Rightarrow> BlockTemplate \<Rightarrow> exc + hash" where
  "getBlockHash H b =
     (case appendW (getBlockHashingBinaryArray H b)
        (if BLOCK_MAJOR_VERSION_2 \<le> majorVersion b then getParentBlockHashingBinaryArray H False b else Inr []) of
        Inl e \<Rightarrow> Inl e
      | Inr ba \<Rightarrow> Inr (getObjectHash_bytes H ba))"

definition getAuxiliaryBlockHeaderHash :: "(bytes \<Rightarrow> hash) \<Rightarrow> BlockTemplate \<Rightarrow> exc + hash" where
  "getAuxiliaryBlockHeaderHash H b =
     (case getBlockHashingBinaryArray H b of Inl e \<Rightarrow> Inl e | Inr ba \<Rightarrow> Inr (getObjectHash_bytes H ba))"

text \<open>\<open>HASHING_ALGORITHMS_BY_BLOCK_VERSION\<close> is a map from the version to the function.\<close>

definition getBlockLongHash ::
    "(bytes \<Rightarrow> hash) \<Rightarrow> (u8 \<Rightarrow> (bytes \<Rightarrow> hash) option) \<Rightarrow> BlockTemplate \<Rightarrow> exc + hash" where
  "getBlockLongHash H slow_hash b =
     (case (if majorVersion b = BLOCK_MAJOR_VERSION_1 then getBlockHashingBinaryArray H b
            else getParentBlockHashingBinaryArray H True b) of
        Inl e \<Rightarrow> Inl e
      | Inr rawHashingBlock \<Rightarrow>
          (case slow_hash (majorVersion b) of
             None \<Rightarrow> Inl (RuntimeError ''Unknown block major version.'')
           | Some hashingAlgorithm \<Rightarrow> Inr (hashingAlgorithm rawHashingBlock)))"

definition getBlockIndex :: "BlockTemplate \<Rightarrow> u32" where
  "getBlockIndex b =
     (case inputs (baseTransaction b) of [BaseInput i] \<Rightarrow> i | _ \<Rightarrow> 0)"



section \<open>Well-formed blocks\<close>

definition wf_ParentBlock :: "ParentBlock \<Rightarrow> bool" where
  "wf_ParentBlock pb \<longleftrightarrow>
     length (pb_previousBlockHash pb) = 32 \<and> transactionCount pb \<ge> 1
     \<and> tree_depth (ucast (transactionCount pb)) = Some (length (baseTransactionBranch pb))
     \<and> (\<forall>h \<in> set (baseTransactionBranch pb). length h = 32)
     \<and> wf_body (pb_baseTransaction pb)
     \<and> (case getMergeMiningTagFromExtra (extra (pb_baseTransaction pb)) of
          None \<Rightarrow> False
        | Some mmTag \<Rightarrow> depth mmTag \<le> 8 * 32 \<and> unat (depth mmTag) = length (blockchainBranch pb))
     \<and> (\<forall>h \<in> set (blockchainBranch pb). length h = 32)"

definition wf_BlockHeader :: "'a BlockHeader_scheme \<Rightarrow> bool" where
  "wf_BlockHeader h \<longleftrightarrow> 1 \<le> majorVersion h \<and> majorVersion h \<le> BLOCK_MAJOR_VERSION_7
     \<and> length (previousBlockHash h) = 32"

definition wf_BlockTemplate :: "BlockTemplate \<Rightarrow> bool" where
  "wf_BlockTemplate b \<longleftrightarrow> wf_BlockHeader b
     \<and> (majorVersion b \<ge> BLOCK_MAJOR_VERSION_2 \<longrightarrow> wf_ParentBlock (parentBlock b))
     \<and> wf_transaction (baseTransaction b)
     \<and> length (transactionHashes b) < 2 ^ 64 \<and> (\<forall>h \<in> set (transactionHashes b). length h = 32)"

definition wf_RawBlock :: "RawBlock \<Rightarrow> bool" where
  "wf_RawBlock b \<longleftrightarrow> length (block b) < 2 ^ 64 \<and> length (raw_transactions b) < 2 ^ 64
     \<and> (\<forall>t \<in> set (raw_transactions b). length t < 2 ^ 64)"


text \<open>A merge-mined block with one transaction beside its coinbase transaction.\<close>

definition sample_block :: BlockTemplate where
  "sample_block = \<lparr> majorVersion = 2, minorVersion = 0, nonce = 7, timestamp = 1500000000,
     previousBlockHash = replicate 32 1,
     parentBlock = \<lparr> pb_majorVersion = 1, pb_minorVersion = 0, pb_previousBlockHash = replicate 32 0,
       transactionCount = 1, baseTransactionBranch = [],
       pb_baseTransaction = \<lparr> version = 1, unlockTime = 0, inputs = [], outputs = [],
         extra = [3, 33, 0] @ replicate 32 9 \<rparr>,
       blockchainBranch = [] \<rparr>,
     baseTransaction = \<lparr> version = 1, unlockTime = 50, inputs = [BaseInput 40],
       outputs = [\<lparr> out_amount = 100, target = KeyOutput (replicate 32 2) \<rparr>], extra = [], signatures = [] \<rparr>,
     transactionHashes = [replicate 32 5] \<rparr>"


section \<open>Round trips\<close>

lemma nonce_round_trip: "nonce_of_bytes (nonce_bytes n) = n"
proof -
  define x where x: "x = unat n"
  have b: "unat (ucast (drop_bit (8 * i) n) :: u8) = x div 256 ^ i mod 256" for i
    unfolding unat_ucast unat_drop_bit x by (simp add: power_mult)
  have "x div 16777216 < 256" unfolding x by (rule less_mult_imp_div_less) simp
  then have top: "x div 16777216 mod 256 = x div 16777216" by (rule mod_less)
  have split: "y = y mod 256 + 256 * (y div 256)" for y :: nat by simp
  have "x = x mod 256 + 256 * (x div 256 mod 256 + 256 * (x div 65536 mod 256 + 256 * (x div 16777216)))"
    using split [of x] split [of "x div 256"] split [of "x div 65536"] by (simp flip: div_mult2_eq)
  then have "le_nat (nonce_bytes n) = x"
    using b [of 0] b [of 1] b [of 2] b [of 3] top by (simp add: nonce_bytes_def)
  then show ?thesis by (simp add: nonce_of_bytes_def x)
qed

lemma length_nonce_bytes [simp]: "length (nonce_bytes n) = 4"
  by (simp add: nonce_bytes_def)

lemma nonce_read: "bindR (deserialize_binary 4) f (nonce_bytes n @ rest) = f (nonce_bytes n) rest"
  by (simp add: bindR_def deserialize_binary_def read_bytes_def)

lemma hash_read: "length h = 32 \<Longrightarrow> bindR (deserialize_binary 32) f (h @ rest) = f h rest"
  by (simp add: bindR_def deserialize_binary_def read_bytes_def)

lemma uint8_read: "bindR deserialize_uint f (writeVarint (ucast (v :: u8)) @ rest) = f v rest"
  using uint8.enc_dec [of v] by (simp add: bindR_def serialize_uint_def)

lemma uint64_read': "bindR deserialize_uint f (writeVarint (v :: u64) @ rest) = f v rest"
  using uint64.enc_dec [of v] by (simp add: bindR_def serialize_uint_def)

lemmas field_reads = nonce_read hash_read uint8_read uint64_read'

lemma count_round_trip: "(ucast (ucast (c :: u16) :: u64) :: u16) = c"
proof -
  have "unat (ucast c :: u64) = unat c" by (simp add: unat_ucast_up)
  moreover have "unat c < 65536" using unsigned_less [of c, where ?'a = nat] by simp
  ultimately have "unat (ucast (ucast c :: u64) :: u16) = unat c"
    using unat_ucast [of "ucast c :: u64", where ?'b = 16] by simp
  then show ?thesis by (simp only: word_unat_eq_iff)
qed

lemma ParentBlock_round_trip:
  assumes "wf_ParentBlock pb"
  shows "\<exists>p. serialize_ParentBlock H False False ts n pb = Inr p
    \<and> (\<forall>rest. deserialize_ParentBlock (p @ rest) = Inr ((ts, n, pb), rest))"
proof -
  obtain t where t: "getMergeMiningTagFromExtra (extra (pb_baseTransaction pb)) = Some t"
      "\<not> depth t > 8 * 32" "unat (depth t) = length (blockchainBranch pb)"
    using assms by (auto simp: wf_ParentBlock_def split: option.splits)
  obtain p1 where p1: "serialize_items serialize_binary (baseTransactionBranch pb) = Inr p1"
      "\<And>rest. deserialize_items (deserialize_binary 32) (length (baseTransactionBranch pb)) (p1 @ rest)
        = Inr (baseTransactionBranch pb, rest)"
    using pod32.items_codec [of "baseTransactionBranch pb"] assms by (auto simp: wf_ParentBlock_def)
  obtain p2 where p2: "serialize_BaseTransaction (pb_baseTransaction pb) = Inr p2"
      "\<And>rest. deserialize_BaseTransaction (p2 @ rest) = Inr (pb_baseTransaction pb, rest)"
    using base_transaction.enc_dec [of "pb_baseTransaction pb"] assms by (auto simp: wf_ParentBlock_def)
  obtain p3 where p3: "serialize_items serialize_binary (blockchainBranch pb) = Inr p3"
      "\<And>rest. deserialize_items (deserialize_binary 32) (length (blockchainBranch pb)) (p3 @ rest)
        = Inr (blockchainBranch pb, rest)"
    using pod32.items_codec [of "blockchainBranch pb"] assms by (auto simp: wf_ParentBlock_def)
  have c: "\<not> transactionCount pb < 1" "length (pb_previousBlockHash pb) = 32"
      "tree_depth (ucast (transactionCount pb)) = Some (length (baseTransactionBranch pb))"
    using assms by (auto simp: wf_ParentBlock_def)
  have ser: "serialize_ParentBlock H False False ts n pb = Inr (writeVarint (ucast (pb_majorVersion pb))
      @ writeVarint (ucast (pb_minorVersion pb)) @ writeVarint ts @ pb_previousBlockHash pb @ nonce_bytes n
      @ writeVarint (ucast (transactionCount pb)) @ p1 @ p2 @ p3)"
    using t p1 p2 p3 c by (simp add: serialize_ParentBlock_def serialize_uint_def serialize_binary_def)
  show ?thesis
    unfolding ser using t p1 p2 p3 c
    by (simp add: deserialize_ParentBlock_def field_reads count_round_trip bindR_run nonce_round_trip)
qed

lemma version_after_first:
  assumes "1 \<le> (v :: u8)" and "v \<noteq> 1"
  shows "2 \<le> v"
proof -
  have "1 \<le> unat v" using assms(1) by (simp add: word_le_nat_alt)
  moreover have "unat v \<noteq> 1" using assms(2) by (simp add: word_unat_eq_iff)
  ultimately show ?thesis by (simp add: word_le_nat_alt)
qed

lemma BlockHeader_round_trip:
  fixes h :: "'a BlockHeader_scheme"
  assumes "wf_BlockHeader h"
  obtains p where "serializeBlockHeader h = Inr p"
    and "\<And>rest. deserializeBlockHeader h0 (p @ rest)
      = Inr ((if majorVersion h = BLOCK_MAJOR_VERSION_1 then BlockHeader.truncate h
          else (BlockHeader.truncate h)\<lparr>nonce := nonce h0, timestamp := timestamp h0\<rparr>), rest)"
proof -
  have v: "\<not> majorVersion h > BLOCK_MAJOR_VERSION_7" "length (previousBlockHash h) = 32"
    using assms by (auto simp: wf_BlockHeader_def)
  have v2: "majorVersion h \<noteq> BLOCK_MAJOR_VERSION_1 \<Longrightarrow> majorVersion h \<ge> BLOCK_MAJOR_VERSION_2"
    using assms version_after_first [of "majorVersion h"]
    by (simp add: wf_BlockHeader_def BLOCK_MAJOR_VERSION_1_def BLOCK_MAJOR_VERSION_2_def)
  show thesis
  proof (cases "majorVersion h = BLOCK_MAJOR_VERSION_1")
    case True
    show thesis
      by (rule that [of "writeVarint (ucast (majorVersion h)) @ writeVarint (ucast (minorVersion h))
          @ writeVarint (timestamp h) @ previousBlockHash h @ nonce_bytes (nonce h)"])
         (use v True in \<open>simp_all add: serializeBlockHeader_def deserializeBlockHeader_def serialize_uint_def
           serialize_binary_def field_reads nonce_round_trip BlockHeader.truncate_def\<close>)
  next
    case False
    show thesis
      by (rule that [of "writeVarint (ucast (majorVersion h)) @ writeVarint (ucast (minorVersion h))
          @ previousBlockHash h"])
         (use v v2 False in \<open>simp_all add: serializeBlockHeader_def deserializeBlockHeader_def serialize_uint_def
           serialize_binary_def field_reads BlockHeader.truncate_def\<close>)
  qed
qed

text \<open>What reading a written block gives, starting from the object \<open>b0\<close>.\<close>

lemma BlockTemplate_round_trip:
  assumes "wf_BlockTemplate b"
  shows "\<exists>p. serialize_BlockTemplate H b = Inr p \<and> (\<forall>rest. deserialize_BlockTemplate b0 (p @ rest)
    = Inr ((if majorVersion b = BLOCK_MAJOR_VERSION_1 then b\<lparr>parentBlock := parentBlock b0\<rparr> else b), rest))"
proof -
  have wf: "wf_BlockHeader b" using assms by (simp add: wf_BlockTemplate_def)
  obtain p1 where p1: "serializeBlockHeader b = Inr p1"
      "\<And>rest. deserializeBlockHeader (BlockHeader.truncate b0) (p1 @ rest)
      = Inr ((if majorVersion b = BLOCK_MAJOR_VERSION_1 then BlockHeader.truncate b
          else (BlockHeader.truncate b)\<lparr>nonce := nonce (BlockHeader.truncate b0),
            timestamp := timestamp (BlockHeader.truncate b0)\<rparr>), rest)"
    by (rule BlockHeader_round_trip [OF wf]) (rule that)
  obtain p2 where p2: "serialize_Transaction (baseTransaction b) = Inr p2"
      "\<And>rest. deserialize_Transaction (p2 @ rest) = Inr (baseTransaction b, rest)"
    using transaction.enc_dec [of "baseTransaction b"] assms by (auto simp: wf_BlockTemplate_def)
  obtain p3 where p3: "serializeContainer serialize_binary (transactionHashes b) = Inr p3"
      "\<And>rest. deserializeContainer (deserialize_binary 32) (p3 @ rest) = Inr (transactionHashes b, rest)"
    using hashes.enc_dec [of "transactionHashes b"] assms by (auto simp: wf_BlockTemplate_def)
  show ?thesis
  proof (cases "majorVersion b = BLOCK_MAJOR_VERSION_1")
    case True
    then have "\<not> majorVersion b \<ge> BLOCK_MAJOR_VERSION_2"
      by (simp add: BLOCK_MAJOR_VERSION_1_def BLOCK_MAJOR_VERSION_2_def word_le_nat_alt)
    with True p1 p2 p3 show ?thesis
      by (simp add: serialize_BlockTemplate_def deserialize_BlockTemplate_def bindR_run BlockHeader.truncate_def)
  next
    case False
    with wf version_after_first [of "majorVersion b"] have v: "majorVersion b \<ge> BLOCK_MAJOR_VERSION_2"
      by (simp add: wf_BlockHeader_def BLOCK_MAJOR_VERSION_1_def BLOCK_MAJOR_VERSION_2_def)
    with assms have "wf_ParentBlock (parentBlock b)" by (simp add: wf_BlockTemplate_def)
    from ParentBlock_round_trip [OF this, of H "timestamp b" "nonce b"] obtain q where
      q: "serialize_ParentBlock H False False (timestamp b) (nonce b) (parentBlock b) = Inr q"
        "\<And>rest. deserialize_ParentBlock (q @ rest) = Inr ((timestamp b, nonce b, parentBlock b), rest)" by blast
    with False v p1 p2 p3 show ?thesis
      by (simp add: serialize_BlockTemplate_def deserialize_BlockTemplate_def bindR_run BlockHeader.truncate_def)
  qed
qed

lemma blob_round_trip:
  "length b < 2 ^ 64 \<Longrightarrow> \<exists>p. serialize_blob b = Inr p \<and> (\<forall>rest. deserialize_blob (p @ rest) = Inr (b, rest))"
  by (simp add: serialize_blob_def deserialize_blob_def serialize_uint_def deserialize_uint_def
    serialize_binary_def bindR_def uint64_run deserialize_binary_def read_bytes_def)

interpretation blob: codec "\<lambda>b. length b < 2 ^ 64" serialize_blob deserialize_blob
  by unfold_locales (rule blob_round_trip)

interpretation raw_block: codec wf_RawBlock serialize_RawBlock deserialize_RawBlock
proof
  fix b :: RawBlock
  assume wf: "wf_RawBlock b"
  obtain p where p: "serialize_blob (block b) = Inr p" "\<And>rest. deserialize_blob (p @ rest) = Inr (block b, rest)"
    using blob.enc_dec [of "block b"] wf by (auto simp: wf_RawBlock_def)
  obtain q where q: "serialize_items serialize_blob (raw_transactions b) = Inr q"
      "\<And>rest. deserialize_items deserialize_blob (length (raw_transactions b)) (q @ rest) = Inr (raw_transactions b, rest)"
    using blob.items_codec [of "raw_transactions b"] wf by (auto simp: wf_RawBlock_def)
  have "unat (word_of_nat (length (raw_transactions b)) :: u64) = length (raw_transactions b)"
    using wf by (simp add: wf_RawBlock_def)
  with p q show "\<exists>p. serialize_RawBlock b = Inr p \<and> (\<forall>rest. deserialize_RawBlock (p @ rest) = Inr (b, rest))"
    by (simp add: serialize_RawBlock_def deserialize_RawBlock_def serialize_uint_def field_reads bindR_run)
qed


section \<open>What the hashed bytes determine\<close>

lemma tree_hash_length:
  assumes H: "\<And>bs. length (H bs) = 32" and "hs \<noteq> []" and "length (hd hs) = 32" and "tree_hash H hs = Some r"
  shows "length r = 32"
  using assms by (auto simp: tree_hash_def Let_def hash_pair_def hd_conv_nth split: if_splits)

lemma tree_hash_total:
  assumes "hs \<noteq> []" and "length hs < 2 ^ 64"
  obtains r where "tree_hash H hs = Some r"
proof -
  have "0 < length hs" using assms(1) by simp
  then obtain D where "2 ^ D \<le> length hs" "length hs < 2 ^ Suc D" by (rule power_at)
  from tree_hash_merkle [OF this assms(2)] that show thesis by blast
qed

lemma getObjectHash_length: "(\<And>bs. length (H bs) = 32) \<Longrightarrow> length (snd (getObjectHash H ser x)) = 32"
  by (simp add: getObjectHash_def split: sum.split)

lemma transaction_tree_hash:
  assumes "\<And>bs. length (H bs) = 32" and "length (transactionHashes b) + 1 < 2 ^ 64"
  obtains r where "getTransactionTreeHash H b = Some r" "length r = 32"
proof -
  let ?hs = "snd (getObjectHash H serialize_Transaction (baseTransaction b)) # transactionHashes b"
  obtain r where r: "tree_hash H ?hs = Some r" by (rule tree_hash_total [of ?hs H]) (use assms(2) in simp_all)
  moreover have "length r = 32"
    by (rule tree_hash_length [OF assms(1) _ _ r]) (simp_all add: getObjectHash_length assms(1))
  ultimately show thesis using that by (simp add: getTransactionTreeHash_def)
qed

lemma write_varint_inj: "write_varint m = write_varint n \<Longrightarrow> m = n"
  by (metis read_varint_write prod.inject)

text \<open>The hashing array of a block, read from the front: the header, the tree hash, the count.\<close>

lemma hashing_array_parts:
  assumes "wf_BlockHeader b" and "\<And>bs. length (H bs) = 32" and "length (transactionHashes b) + 1 < 2 ^ 64"
    and "getBlockHashingBinaryArray H b = Inr ba"
  obtains p r where "ba = p @ r @ write_varint (word_of_nat (length (transactionHashes b) + 1))"
    "getTransactionTreeHash H b = Some r" "length r = 32"
    "\<And>rest h0. deserializeBlockHeader h0 (p @ rest)
      = Inr ((if majorVersion b = BLOCK_MAJOR_VERSION_1 then BlockHeader.truncate b
          else (BlockHeader.truncate b)\<lparr>nonce := nonce h0, timestamp := timestamp h0\<rparr>), rest)"
proof -
  obtain p where p: "serializeBlockHeader b = Inr p"
    using BlockHeader_round_trip [OF assms(1)] by blast
  have d: "deserializeBlockHeader h0 (p @ rest)
      = Inr ((if majorVersion b = BLOCK_MAJOR_VERSION_1 then BlockHeader.truncate b
          else (BlockHeader.truncate b)\<lparr>nonce := nonce h0, timestamp := timestamp h0\<rparr>), rest)" for rest h0
    using BlockHeader_round_trip [OF assms(1), of h0] p by (metis sum.inject(2))
  obtain r where r: "getTransactionTreeHash H b = Some r" "length r = 32"
    using assms(2,3) by (rule transaction_tree_hash)
  have "ba = p @ r @ write_varint (word_of_nat (length (transactionHashes b) + 1))"
    using assms(4) p r(1) by (simp add: getBlockHashingBinaryArray_def toBinaryArray_def)
  with r d that show thesis by blast
qed


section \<open>Properties\<close>

text \<open>
  C19: blocks survive serialization. A well-formed block is written without an exception, and reading the
  bytes back, with anything behind them, gives the same block and the rest; a version 1 block keeps the
  parent block of the object that is read into, which it does not store.
\<close>

theorem block_round_trip:
  assumes "wf_BlockTemplate b"
  shows "\<exists>p. serialize_BlockTemplate H b = Inr p \<and> (\<forall>rest. deserialize_BlockTemplate b0 (p @ rest)
    = Inr ((if majorVersion b = BLOCK_MAJOR_VERSION_1 then b\<lparr>parentBlock := parentBlock b0\<rparr> else b), rest))"
  using assms by (rule BlockTemplate_round_trip)

lemma sample_block_wf: "wf_BlockTemplate sample_block"
proof -
  have "getMergeMiningTagFromExtra ([3, 33, 0] @ replicate 32 9) = Some \<lparr> depth = 0, merkleRoot = replicate 32 9 \<rparr>"
    by code_simp
  moreover have "tree_depth (ucast (1 :: u16)) = Some 0" by code_simp
  ultimately show ?thesis
    by (simp add: sample_block_def wf_BlockTemplate_def wf_BlockHeader_def wf_ParentBlock_def wf_body_def
      wf_transaction_def wf_prefix_def wf_output_def wf_signatures_def is_base_tx_def word_le_nat_alt config)
qed

theorem block_round_trip_witness:
  "\<exists>p. serialize_BlockTemplate (take 32) sample_block = Inr p
    \<and> (\<forall>rest. deserialize_BlockTemplate sample_block (p @ rest)
      = Inr ((if majorVersion sample_block = BLOCK_MAJOR_VERSION_1
          then sample_block\<lparr>parentBlock := parentBlock sample_block\<rparr> else sample_block), rest))"
  using sample_block_wf by (rule block_round_trip)

text \<open>
  C10: what a block hash commits to. If two blocks have the same hashing array, whose hash is the block
  hash, then they agree on both versions, the previous block, the Merkle root of their transactions and the
  number of transactions, and blocks of version 1 also on timestamp and nonce.
\<close>

theorem block_hash_commits:
  assumes "wf_BlockHeader b" and "wf_BlockHeader c" and "\<forall>bs. length (H bs) = 32"
    and "length (transactionHashes b) + 1 < 2 ^ 64" and "length (transactionHashes c) + 1 < 2 ^ 64"
    and "getBlockHashingBinaryArray H b = Inr ba" and "getBlockHashingBinaryArray H c = Inr ba"
  shows "majorVersion b = majorVersion c \<and> minorVersion b = minorVersion c
    \<and> previousBlockHash b = previousBlockHash c
    \<and> getTransactionTreeHash H b = getTransactionTreeHash H c
    \<and> length (transactionHashes b) = length (transactionHashes c)
    \<and> (majorVersion b = BLOCK_MAJOR_VERSION_1 \<longrightarrow> timestamp b = timestamp c \<and> nonce b = nonce c)"
proof -
  let ?n = "\<lambda>b. word_of_nat (length (transactionHashes b) + 1) :: u64"
  have H: "\<And>bs. length (H bs) = 32" using assms(3) by blast
  obtain p r where b: "ba = p @ r @ write_varint (?n b)" "getTransactionTreeHash H b = Some r" "length r = 32"
      "\<And>rest h0. deserializeBlockHeader h0 (p @ rest)
      = Inr ((if majorVersion b = BLOCK_MAJOR_VERSION_1 then BlockHeader.truncate b
          else (BlockHeader.truncate b)\<lparr>nonce := nonce h0, timestamp := timestamp h0\<rparr>), rest)"
    by (rule hashing_array_parts [OF assms(1) H assms(4,6)]) (rule that)
  obtain q s where c: "ba = q @ s @ write_varint (?n c)" "getTransactionTreeHash H c = Some s" "length s = 32"
      "\<And>rest h0. deserializeBlockHeader h0 (q @ rest)
      = Inr ((if majorVersion c = BLOCK_MAJOR_VERSION_1 then BlockHeader.truncate c
          else (BlockHeader.truncate c)\<lparr>nonce := nonce h0, timestamp := timestamp h0\<rparr>), rest)"
    by (rule hashing_array_parts [OF assms(2) H assms(5,7)]) (rule that)
  define h0 where "h0 = BlockHeader.truncate b"
  have same: "deserializeBlockHeader h0 (p @ r @ write_varint (?n b))
      = deserializeBlockHeader h0 (q @ s @ write_varint (?n c))" using b(1) c(1) by simp
  from same have rest: "r @ write_varint (?n b) = s @ write_varint (?n c)" unfolding b(4) c(4) by (simp only: sum.inject prod.inject)
  then have rs: "r = s" "write_varint (?n b) = write_varint (?n c)" using b(3) c(3) by (simp_all add: append_eq_append_conv)
  have "?n b = ?n c" by (rule write_varint_inj [OF rs(2)])
  then have "unat (?n b) = unat (?n c)" by (simp only:)
  moreover have "unat (?n b) = length (transactionHashes b) + 1" "unat (?n c) = length (transactionHashes c) + 1"
    by (rule unat_word_of_nat, use assms(4,5) in simp)+
  ultimately have "length (transactionHashes b) = length (transactionHashes c)" by simp
  moreover from same have hdr: "(if majorVersion b = BLOCK_MAJOR_VERSION_1 then BlockHeader.truncate b
          else (BlockHeader.truncate b)\<lparr>nonce := nonce h0, timestamp := timestamp h0\<rparr>)
      = (if majorVersion c = BLOCK_MAJOR_VERSION_1 then BlockHeader.truncate c
          else (BlockHeader.truncate c)\<lparr>nonce := nonce h0, timestamp := timestamp h0\<rparr>)"
    unfolding b(4) c(4) by (simp only: sum.inject prod.inject)
  moreover have "majorVersion b = majorVersion c"
    using hdr by (auto simp: BlockHeader.truncate_def split: if_splits)
  ultimately show ?thesis
    using rs(1) b(2) c(2) by (auto simp: BlockHeader.truncate_def split: if_splits)
qed

theorem block_hash_commits_witness:
  "\<exists>ba. getBlockHashingBinaryArray (\<lambda>_. replicate 32 6) sample_block = Inr ba
    \<and> (let c = sample_block\<lparr>nonce := 8\<rparr> in getBlockHashingBinaryArray (\<lambda>_. replicate 32 6) c = Inr ba
      \<and> majorVersion sample_block = majorVersion c \<and> minorVersion sample_block = minorVersion c
      \<and> previousBlockHash sample_block = previousBlockHash c
      \<and> getTransactionTreeHash (\<lambda>_. replicate 32 6) sample_block = getTransactionTreeHash (\<lambda>_. replicate 32 6) c
      \<and> length (transactionHashes sample_block) = length (transactionHashes c))"
proof -
  let ?H = "\<lambda>_ :: bytes. replicate 32 6 :: hash" and ?c = "sample_block\<lparr>nonce := 8\<rparr>"
  let ?ba = "[2, 0] @ replicate 32 1 @ replicate 32 6 @ [2 :: u8]"
  have b: "getBlockHashingBinaryArray ?H sample_block = Inr ?ba" by code_simp
  have c: "getBlockHashingBinaryArray ?H ?c = Inr ?ba" by code_simp
  have wf: "wf_BlockHeader sample_block" "wf_BlockHeader ?c" "length (transactionHashes sample_block) + 1 < 2 ^ 64"
      "length (transactionHashes ?c) + 1 < 2 ^ 64"
    by (simp_all add: sample_block_def wf_BlockHeader_def word_le_nat_alt config)
  have "\<forall>bs. length (?H bs) = 32" by simp
  from block_hash_commits [OF wf(1,2) this wf(3,4) b c] b c show ?thesis by (simp add: Let_def)
qed

text \<open>
  The database form of a block round-trips: block and transaction blobs of any content are read back
  from what \<open>serialize(RawBlock)\<close> wrote.
\<close>

lemma raw_block_round_trip:
  assumes "wf_RawBlock b"
  shows "\<exists>p. serialize_RawBlock b = Inr p \<and> (\<forall>rest. deserialize_RawBlock (p @ rest) = Inr (b, rest))"
  using assms by (rule raw_block.enc_dec)

lemma raw_block_round_trip_witness:
  "\<exists>p. serialize_RawBlock \<lparr> block = [1, 2], raw_transactions = [[3], []] \<rparr> = Inr p
    \<and> (\<forall>rest. deserialize_RawBlock (p @ rest) = Inr (\<lparr> block = [1, 2], raw_transactions = [[3], []] \<rparr>, rest))"
  by (rule raw_block_round_trip) (simp add: wf_RawBlock_def)

text \<open>The second transaction count of a \<open>RawBlock\<close> is read and not compared with the first.\<close>

lemma raw_block_count_ignored:
  "deserialize_RawBlock [0, 1, 9, 0] = Inr (\<lparr> block = [], raw_transactions = [[]] \<rparr>, [])"
  by code_simp

end
