(* ===== verification/Utilities.thy ===== *)
theory Utilities
  imports Config Strings
begin

text \<open>
  The small wallet utilities of \<open>src/utilities/Utilities.cpp\<close>, \<open>Mixins.cpp\<close> and \<open>Fees.cpp\<close>:
  rounding, unlocking of inputs, size limits, the estimate between heights and timestamps, and
  the rules that depend on the height. \<open>std::time(nullptr)\<close> is the argument \<open>now\<close> of the
  functions that read the clock.
\<close>


section \<open>Utilities.cpp\<close>

definition getTransactionSum :: "(string \<times> u64) list \<Rightarrow> u64" where
  "getTransactionSum destinations = foldl (\<lambda>amountSum d. amountSum + snd d) 0 destinations"

text \<open>A division by zero is \<open>None\<close>.\<close>

definition getLowerBound :: "u64 \<Rightarrow> u64 \<Rightarrow> u64 option" where
  "getLowerBound val nearestMultiple =
     (if nearestMultiple = 0 then None else Some (val - val mod nearestMultiple))"

definition getUpperBound :: "u64 \<Rightarrow> u64 \<Rightarrow> u64 option" where
  "getUpperBound val nearestMultiple =
     map_option (\<lambda>l. l + nearestMultiple) (getLowerBound val nearestMultiple)"

definition isInputUnlocked :: "u64 \<Rightarrow> u64 \<Rightarrow> u64 \<Rightarrow> bool" where
  "isInputUnlocked now unlockTime currentHeight =
     (if unlockTime = 0 then True
      else if unlockTime \<ge> CRYPTONOTE_MAX_BLOCK_NUMBER
        then now + CRYPTONOTE_LOCKED_TX_ALLOWED_DELTA_SECONDS \<ge> unlockTime
      else currentHeight + CRYPTONOTE_LOCKED_TX_ALLOWED_DELTA_BLOCKS \<ge> unlockTime)"

definition getMaxTxSize :: "u64 \<Rightarrow> u64" where
  "getMaxTxSize currentHeight =
     (let numerator = currentHeight * MAX_BLOCK_SIZE_GROWTH_SPEED_NUMERATOR;
          denominator = MAX_BLOCK_SIZE_GROWTH_SPEED_DENOMINATOR;
          growth = numerator div denominator;
          x = MAX_BLOCK_SIZE_INITIAL + growth;
          y = 125000
      in min x y - CRYPTONOTE_COINBASE_BLOB_RESERVED_SIZE)"

definition getCurrentTimestampAdjusted :: "u64 \<Rightarrow> u64" where
  "getCurrentTimestampAdjusted now = now - CRYPTONOTE_BLOCK_FUTURE_TIME_LIMIT"

text \<open>The seconds the chain takes to reach a height, added up over the three block times.\<close>

definition secondsSinceLaunch :: "u64 \<Rightarrow> u64" where
  "secondsSinceLaunch scanHeight =
     (let s = (if scanHeight \<ge> DIFFICULTY_TARGET_V3_HEIGHT
               then (scanHeight - DIFFICULTY_TARGET_V3_HEIGHT) * DIFFICULTY_TARGET_V3 else 0);
          s = (if scanHeight \<ge> DIFFICULTY_TARGET_V2_HEIGHT
               then s + (min scanHeight (DIFFICULTY_TARGET_V3_HEIGHT - 1) - DIFFICULTY_TARGET_V2_HEIGHT)
                          * DIFFICULTY_TARGET_V2
               else s)
      in s + min scanHeight (DIFFICULTY_TARGET_V2_HEIGHT - 1) * DIFFICULTY_TARGET)"

definition scanHeightToTimestamp :: "u64 \<Rightarrow> u64 \<Rightarrow> u64" where
  "scanHeightToTimestamp now scanHeight =
     (if scanHeight = 0 then 0
      else let timestamp = GENESIS_BLOCK_TIMESTAMP + secondsSinceLaunch scanHeight
           in if timestamp \<ge> getCurrentTimestampAdjusted now then getCurrentTimestampAdjusted now
              else timestamp)"

definition timestampToScanHeight :: "u64 \<Rightarrow> u64" where
  "timestampToScanHeight timestamp =
     (if timestamp = 0 then 0
      else if timestamp \<le> GENESIS_BLOCK_TIMESTAMP then 0
      else let launchTimestampDelta = timestamp - GENESIS_BLOCK_TIMESTAMP
           in max 0 (launchTimestampDelta div DIFFICULTY_TARGET - 10000))"

text \<open>
  \<open>std::stoi\<close> in base ten: leading white space and one sign are skipped, the longest run of
  digits is the value; no digit throws \<open>std::invalid_argument\<close>, a value outside \<open>int\<close> throws
  \<open>std::out_of_range\<close>.
\<close>

definition is_digit :: "char \<Rightarrow> bool" where
  "is_digit c \<longleftrightarrow> (48 :: nat) \<le> of_char c \<and> of_char c \<le> (57 :: nat)"

definition stoi :: "string \<Rightarrow> exc + int" where
  "stoi s =
     (let s = dropWhile (\<lambda>c. c \<in> set whitespace) s;
          neg = (s \<noteq> [] \<and> hd s = CHR ''-'');
          s = (if s \<noteq> [] \<and> (hd s = CHR ''-'' \<or> hd s = CHR ''+'') then tl s else s);
          ds = takeWhile is_digit s;
          v = int (of_digits 10 (map (\<lambda>c. of_char c - 48) ds));
          v = (if neg then - v else v)
      in if ds = [] then Inl (InvalidArgument ''stoi'')
         else if v < - (2 ^ 31) \<or> 2 ^ 31 \<le> v then Inl OutOfRange
         else Inr v)"

text \<open>\<open>host\<close> and \<open>port\<close> are reference parameters: their old values go in, the new ones come out.\<close>

definition parseDaemonAddressFromString ::
  "string \<Rightarrow> u16 \<Rightarrow> string \<Rightarrow> exc + bool \<times> string \<times> u16" where
  "parseDaemonAddressFromString host port address =
     (let address = removePrefix address ''https://'';
          address = removePrefix address ''http://'';
          parts = split address (CHR '':'')
      in case parts of
           [] \<Rightarrow> Inr (False, host, port)
         | [p0] \<Rightarrow> Inr (True, p0, RPC_DEFAULT_PORT)
         | p0 # p1 # _ \<Rightarrow>
             (case stoi p1 of
                Inr v \<Rightarrow> Inr (True, p0, word_of_int v)
              | Inl (InvalidArgument _) \<Rightarrow> Inr (False, p0, port)
              | Inl e \<Rightarrow> Inl e))"

text \<open>The sizes of the parts of a transaction, in bytes, and the number of inputs that fit.\<close>

definition outputs_size :: "u64 \<Rightarrow> u64" where
  "outputs_size outputCount = outputCount * (1 + 32 + (8 + 2))"

definition header_size :: u64 where
  "header_size = 1 + 8 + 1 + 32"

definition input_size :: "u64 \<Rightarrow> u64" where
  "input_size mixinCount = 1 + (8 + 2) + 32 + 64 + 1 + 4 + mixinCount * (4 + 64)"

definition getApproximateMaximumInputCount :: "u64 \<Rightarrow> u64 \<Rightarrow> u64 \<Rightarrow> u64 option" where
  "getApproximateMaximumInputCount transactionSize outputCount mixinCount =
     (if input_size mixinCount = 0 then None
      else Some ((transactionSize - header_size - outputs_size outputCount) div input_size mixinCount))"


text \<open>The overflow tests, at \<open>uint64_t\<close>: no argument is negative, so the first branch is dead.\<close>

definition additionWillOverflow :: "u64 \<Rightarrow> u64 \<Rightarrow> bool" where
  "additionWillOverflow a b =
     (let result = a + b; larger = max a b
      in if a < 0 \<or> b < 0 then result > larger else result < larger)"

definition subtractionWillOverflow :: "u64 \<Rightarrow> u64 \<Rightarrow> bool" where
  "subtractionWillOverflow a b = additionWillOverflow a (- b)"

fun sumWillOverflow_loop :: "u64 list \<Rightarrow> u64 \<Rightarrow> bool" where
  "sumWillOverflow_loop [] acc = False"
| "sumWillOverflow_loop (item # amounts) acc =
     (if additionWillOverflow item acc then True else sumWillOverflow_loop amounts (acc + item))"

definition sumWillOverflow :: "u64 list \<Rightarrow> bool" where
  "sumWillOverflow amounts = sumWillOverflow_loop amounts 0"


section \<open>Mixins.cpp and Fees.cpp\<close>

definition getMixinAllowableRange :: "u64 \<Rightarrow> u64 \<times> u64 \<times> u64" where
  "getMixinAllowableRange height =
     (if height \<ge> MIXIN_LIMITS_V1_HEIGHT then (MINIMUM_MIXIN_V1, MAXIMUM_MIXIN_V1, DEFAULT_MIXIN_V1)
      else (0, - 1, DEFAULT_MIXIN_V0))"

definition getMinimumFee :: "u64 \<Rightarrow> u64" where
  "getMinimumFee height =
     (if height \<ge> MINIMUM_FEE_V2_HEIGHT then MINIMUM_FEE_V2
      else if height \<ge> MINIMUM_FEE_V1_HEIGHT then MINIMUM_FEE_V1
      else MINIMUM_FEE)"


section \<open>Facts\<close>

lemma getTransactionSum_eq: "unat (getTransactionSum ds) = total (map snd ds) mod 2 ^ 64"
  unfolding getTransactionSum_def foldl_plus_sum_list by (simp add: unat_sum_list_mod)


lemma additionWillOverflow_iff: "additionWillOverflow a b \<longleftrightarrow> 2 ^ 64 \<le> unat a + unat b"
proof -
  have "a + b < a \<longleftrightarrow> 2 ^ 64 \<le> unat a + unat b" using add_wraps_iff [where a = a and b = b] by (simp add: add.commute)
  moreover have "a + b < b \<longleftrightarrow> 2 ^ 64 \<le> unat a + unat b" using add_wraps_iff [where a = b and b = a] by (simp add: add.commute)
  ultimately show ?thesis by (simp add: additionWillOverflow_def Let_def less_max_iff_disj)
qed

lemma sumWillOverflow_loop_iff:
  "sumWillOverflow_loop amounts s \<longleftrightarrow> 2 ^ 64 \<le> unat s + total amounts"
proof (induction amounts arbitrary: s)
  case (Cons a as)
  show ?case
  proof (cases "2 ^ 64 \<le> unat s + unat a")
    case True
    then show ?thesis by (simp add: additionWillOverflow_iff add.commute)
  next
    case False
    then have "unat (s + a) = unat s + unat a" by (intro unat_add_fits) simp
    with False show ?thesis by (simp add: additionWillOverflow_iff Cons.IH add.commute add.left_commute)
  qed
qed (simp add: not_le)

lemma sumWillOverflow_iff: "sumWillOverflow amounts \<longleftrightarrow> 2 ^ 64 \<le> total amounts"
  by (simp add: sumWillOverflow_def sumWillOverflow_loop_iff)

text \<open>
  On unsigned integers \<open>subtractionWillOverflow\<close> is the opposite of its name: it is true for every
  subtraction of a positive amount that does not wrap.
\<close>

lemma subtractionWillOverflow_inverted: "0 < b \<Longrightarrow> subtractionWillOverflow a b \<longleftrightarrow> unat b \<le> unat a"
proof -
  assume "0 < b"
  then have "b \<noteq> 0" by auto
  then have "unat (0 - b) = 2 ^ 64 - unat b" unfolding unat_sub_if' by (simp add: unat_eq_zero)
  then have "unat (- b) = 2 ^ 64 - unat b" by simp
  moreover have "unat b < 2 ^ 64" by simp
  ultimately show ?thesis unfolding subtractionWillOverflow_def additionWillOverflow_iff by linarith
qed

text \<open>
  An input that is unlocked stays unlocked as the chain grows and the clock advances, as long
  as neither counter is about to wrap.
\<close>

lemma unlocked_stays_unlocked:
  assumes "isInputUnlocked now t h" and "now \<le> now'" and "h \<le> h'"
    and "unat now' < 2 ^ 63" and "unat h' < 2 ^ 63"
  shows "isInputUnlocked now' t h'"
proof -
  have "x + d \<le> y + d" if "x \<le> y" "unat y < 2 ^ 63" "unat d < 2 ^ 63" for x y d :: u64
  proof -
    have "unat x \<le> unat y" using that(1) by (simp add: word_le_nat_alt)
    with that have "unat (x + d) = unat x + unat d" "unat (y + d) = unat y + unat d"
      by (simp_all add: unat_add_lem [THEN iffD1])
    with \<open>unat x \<le> unat y\<close> show ?thesis by (simp add: word_le_nat_alt)
  qed
  note step = order_trans [OF _ this]
  show ?thesis
    using assms unfolding isInputUnlocked_def
    by (auto split: if_splits intro: step simp: config)
qed

lemma unlocked_stays_unlocked_witness:
  "isInputUnlocked 5 10 9 \<and> isInputUnlocked 6 10 12"
  using unlocked_stays_unlocked [of 5 10 9 6 12] by (simp add: isInputUnlocked_def config)

lemma growth_bound: "unat (x div (105120 :: u64)) \<le> 175483040000000"
  unfolding unat_div by (rule order_trans [OF div_le_mono [OF less_imp_le [OF unat_lt_u64]]]) simp

lemma max_tx_size_eq:
  "unat (getMaxTxSize h) = min (100000 + unat (h * 102400) div 105120) 125000 - 600"
proof -
  have le: "unat (h * 102400) div 105120 \<le> 175483040000000"
    using growth_bound [of "h * 102400"] by (simp add: unat_div)
  define g where "g = h * 102400 div (105120 :: u64)"
  have g: "unat g = unat (h * 102400) div 105120" by (simp add: g_def unat_div)
  have "unat (100000 + g) = 100000 + unat g"
    using g le by (simp add: unat_add_lem [THEN iffD1])
  then have "unat (min (100000 + g) 125000) = min (100000 + unat g) 125000"
    by (simp add: min_def word_le_nat_alt)
  moreover from this have "600 \<le> min (100000 + g) 125000" by (simp add: word_le_nat_alt)
  moreover have "getMaxTxSize h = min (100000 + g) 125000 - 600"
    by (simp add: getMaxTxSize_def config Let_def g_def)
  ultimately show ?thesis by (simp add: unat_sub_ge g)
qed

text \<open>
  The transaction size limit of the wallet is within 99,400 and 124,400 bytes at every height
  (the multiplication may wrap), and follows the linear growth of the block size below the cap.
\<close>

lemma max_tx_size_bounds:
  "99400 \<le> getMaxTxSize h \<and> getMaxTxSize h \<le> 124400
   \<and> (unat h < 2 ^ 40 \<longrightarrow>
        unat (getMaxTxSize h) = min (100000 + unat h * 102400 div 105120) 125000 - 600)"
proof -
  have "unat (h * 102400) = unat h * 102400" if "unat h < 2 ^ 40"
    using that by (simp add: unat_mult_lem [THEN iffD1])
  then show ?thesis by (auto simp: word_le_nat_alt max_tx_size_eq)
qed

lemma max_tx_size_bounds_witness: "unat (getMaxTxSize 10000) = 109141"
  using max_tx_size_bounds [of 10000] by simp

definition launch_seconds :: "nat \<Rightarrow> nat" where
  "launch_seconds h =
     (h - 2325000) * 300 + (min h 2324999 - 700000) * 20 + min h 699999 * 10"

lemma launch_seconds_mono: "h \<le> h' \<Longrightarrow> launch_seconds h \<le> launch_seconds h'"
  unfolding launch_seconds_def by (intro add_mono mult_le_mono1 diff_le_mono min.mono) simp_all

lemma secondsSinceLaunch_nat:
  assumes "unat h \<le> 500000000"
  shows "unat (secondsSinceLaunch h) = launch_seconds (unat h)"
proof -
  have mult: "unat (x * k) = unat x * unat k" if "unat x \<le> 500000000" "unat k \<le> 300" for x k :: u64
    using mult_le_mono [OF that] by (simp add: unat_mult_lem [THEN iffD1])
  have m: "unat (min a b) = min (unat a) (unat b)" for a b :: u64
    by (simp add: min_def word_le_nat_alt)
  have 3: "unat (if 2325000 \<le> h then (h - 2325000) * 300 else 0) = (unat h - 2325000) * 300"
    using assms by (simp add: word_le_nat_alt mult unat_sub_ge diff_mult_distrib)
  have 2: "unat (if 700000 \<le> h then (min h 2324999 - 700000) * 20 else 0) = (min (unat h) 2324999 - 700000) * 20"
    using assms by (simp add: word_le_nat_alt mult unat_sub_ge m diff_mult_distrib)
  have 1: "unat (min h 699999 * 10) = min (unat h) 699999 * 10"
    by (simp add: mult m)
  have "secondsSinceLaunch h = (if 2325000 \<le> h then (h - 2325000) * 300 else 0)
        + (if 700000 \<le> h then (min h 2324999 - 700000) * 20 else 0) + min h 699999 * 10"
    by (simp add: secondsSinceLaunch_def config Let_def)
  moreover have "launch_seconds (unat h) < 2 ^ 64"
    using launch_seconds_mono [OF assms] by (simp add: launch_seconds_def)
  ultimately show ?thesis
    unfolding launch_seconds_def 1 [symmetric] 2 [symmetric] 3 [symmetric]
    by (metis (no_types, lifting) unat_add_fits add_lessD1)
qed

text \<open>
  The timestamp estimated for a height never exceeds the adjusted clock, and a larger height
  never has a smaller timestamp (heights below the largest block number the chain allows).
\<close>

lemma scan_timestamp_monotone:
  assumes "0 < h" and "h \<le> h'" and "h' \<le> CRYPTONOTE_MAX_BLOCK_NUMBER"
  shows "scanHeightToTimestamp now h \<le> scanHeightToTimestamp now h'
         \<and> scanHeightToTimestamp now h' \<le> getCurrentTimestampAdjusted now"
proof -
  have le: "unat h \<le> unat h'" "unat h' \<le> 500000000"
    using assms(2,3) by (simp_all add: config word_le_nat_alt)
  then have "unat (secondsSinceLaunch h) \<le> unat (secondsSinceLaunch h')"
    by (simp add: secondsSinceLaunch_nat launch_seconds_mono)
  moreover have "unat (secondsSinceLaunch h') < 2 ^ 63"
    using launch_seconds_mono [OF le(2)] by (simp add: secondsSinceLaunch_nat [OF le(2)] launch_seconds_def)
  ultimately have "GENESIS_BLOCK_TIMESTAMP + secondsSinceLaunch h \<le> GENESIS_BLOCK_TIMESTAMP + secondsSinceLaunch h'"
    by (simp add: word_le_nat_alt unat_add_lem [THEN iffD1] config)
  moreover have "h \<noteq> 0" "h' \<noteq> 0" using assms(1,2) by auto
  ultimately show ?thesis by (auto simp: scanHeightToTimestamp_def Let_def)
qed

text \<open>
  A timestamp within 100,000 seconds after launch is meant to give height zero, but the
  subtraction is done on unsigned integers before the maximum is taken and wraps to a height
  beyond every block.
\<close>

lemma scan_height_wraps:
  assumes "GENESIS_BLOCK_TIMESTAMP < t" and "t < GENESIS_BLOCK_TIMESTAMP + 100000"
  shows "2 ^ 64 - 10000 \<le> unat (timestampToScanHeight t)"
proof -
  define d where "d = unat t - 1545261161"
  have t: "unat t = d + 1545261161" "d < 100000"
    using assms by (auto simp: config d_def word_less_nat_alt)
  then have "unat (t - 1545261161) = d" by (simp add: unat_sub_ge word_le_nat_alt)
  then have "unat ((t - 1545261161) div 10) = d div 10" by (simp add: unat_div)
  moreover have "d div 10 < 10000" using t(2) by simp
  ultimately have "unat ((t - 1545261161) div 10 - 10000) = 2 ^ 64 + d div 10 - 10000"
    by (simp add: unat_sub_if')
  then show ?thesis using assms
    by (auto simp: timestampToScanHeight_def config Let_def max_def)
qed

lemma quotient_fits:
  assumes "(n :: nat) = (t - a - c) div b" and "0 < b" and "a + c \<le> t"
  shows "a + c + n * b \<le> t \<and> t < a + c + (n + 1) * b"
proof -
  define d where "d = t - a - c"
  have "n * b \<le> d" "d < n * b + b"
    using assms(1,2) dividend_less_div_times [of b d] by (simp_all add: d_def)
  moreover have "t = a + c + d" using assms(3) by (simp add: d_def)
  ultimately show ?thesis by simp
qed

text \<open>The number of inputs the estimate allows fits into the given size together with the rest.\<close>

lemma input_count_fits:
  assumes "getApproximateMaximumInputCount tx_size outs mixin = Some n"
    and "unat outs < 2 ^ 32" and "unat mixin < 2 ^ 32"
    and "unat tx_size \<ge> 42 + 43 * unat outs"
  shows "42 + 43 * unat outs + unat n * (112 + 68 * unat mixin) \<le> unat tx_size
         \<and> unat tx_size < 42 + 43 * unat outs + (unat n + 1) * (112 + 68 * unat mixin)"
proof -
  define o' m where "o' = unat outs" and "m = unat mixin"
  have o: "unat (outputs_size outs) = 43 * o'"
    using assms(2) by (simp add: outputs_size_def o'_def unat_mult_lem [THEN iffD1])
  have m: "unat (input_size mixin) = 112 + 68 * m"
    using assms(3) by (simp add: input_size_def m_def unat_add_lem [THEN iffD1] unat_mult_lem [THEN iffD1])
  have "unat (tx_size - header_size - outputs_size outs) = unat tx_size - 42 - 43 * o'"
    using assms(4) o by (simp add: unat_sub_ge word_le_nat_alt header_size_def o'_def)
  then have n: "unat n = (unat tx_size - 42 - 43 * o') div (112 + 68 * m)"
    using assms(1) m by (auto simp: getApproximateMaximumInputCount_def unat_div split: if_splits)
  show ?thesis
    using quotient_fits [OF n] assms(4) unfolding m_def o'_def by simp
qed

end
