(* ===== verification/SubWallet.thy ===== *)
theory SubWallet
  imports Utilities
begin

text \<open>
  One address of a wallet: the class \<open>SubWallet\<close> (\<open>src/subwallets/SubWallet.cpp\<close>) and the wallet
  types it stores (\<open>include/WalletTypes.h\<close>). A sub wallet keeps its inputs in three vectors,
  unspent, locked (used in a transaction that is not in a block yet) and spent, and the amounts
  that are on their way back to it.

  The contract of the three vectors is a ledger: a map from key images to a status and the input.
  Every operation is shown to refine one on the ledger, and the invariant that makes the ledger a
  map, each key image occurring once over the three vectors, is kept by all of them.

  \<open>std::remove_if\<close> applies its predicate once to each element in order, and \<open>erase\<close> drops what
  it moved to the end: \<open>filter\<close>, with the side effects of the predicate made explicit. Log
  messages are left out.
\<close>


section \<open>WalletTypes.h\<close>

record WalletInput =
  in_keyImage :: key_image
  in_amount :: u64
  in_blockHeight :: u64
  in_transactionPublicKey :: public_key
  in_transactionIndex :: u64
  in_globalOutputIndex :: "u64 option"
  in_key :: public_key
  in_spendHeight :: u64
  in_unlockTime :: u64
  in_parentTransactionHash :: hash

record TxInputAndOwner =
  own_input :: WalletInput
  own_publicSpendKey :: public_key
  own_privateSpendKey :: secret_key

record UnconfirmedInput =
  un_amount :: u64
  un_key :: public_key
  un_parentTransactionHash :: hash


section \<open>SubWallet.h and SubWallet.cpp\<close>

record SubWallet =
  m_unspentInputs :: "WalletInput list"
  m_lockedInputs :: "WalletInput list"
  m_spentInputs :: "WalletInput list"
  m_unconfirmedIncomingAmounts :: "UnconfirmedInput list"
  m_publicSpendKey :: public_key
  m_privateSpendKey :: secret_key
  m_syncStartTimestamp :: u64
  m_syncStartHeight :: u64
  m_address :: string
  m_isPrimaryAddress :: bool

definition SubWallet_view :: "public_key \<Rightarrow> string \<Rightarrow> u64 \<Rightarrow> u64 \<Rightarrow> bool \<Rightarrow> SubWallet" where
  "SubWallet_view publicSpendKey address' scanHeight scanTimestamp isPrimaryAddress =
     \<lparr> m_unspentInputs = [], m_lockedInputs = [], m_spentInputs = [], m_unconfirmedIncomingAmounts = [],
       m_publicSpendKey = publicSpendKey, m_privateSpendKey = NULL_SECRET_KEY,
       m_syncStartTimestamp = scanTimestamp, m_syncStartHeight = scanHeight,
       m_address = address', m_isPrimaryAddress = isPrimaryAddress \<rparr>"

definition SubWallet_standard ::
  "public_key \<Rightarrow> secret_key \<Rightarrow> string \<Rightarrow> u64 \<Rightarrow> u64 \<Rightarrow> bool \<Rightarrow> SubWallet" where
  "SubWallet_standard publicSpendKey privateSpendKey address' scanHeight scanTimestamp isPrimaryAddress =
     \<lparr> m_unspentInputs = [], m_lockedInputs = [], m_spentInputs = [], m_unconfirmedIncomingAmounts = [],
       m_publicSpendKey = publicSpendKey, m_privateSpendKey = privateSpendKey,
       m_syncStartTimestamp = scanTimestamp, m_syncStartHeight = scanHeight,
       m_address = address', m_isPrimaryAddress = isPrimaryAddress \<rparr>"

text \<open>The curve operations are arguments; a view wallet gets the all-zero key image.\<close>

definition SubWallet_getTxInputKeyImage ::
  "(key_derivation \<Rightarrow> u64 \<Rightarrow> public_key \<Rightarrow> public_key) \<Rightarrow>
   (key_derivation \<Rightarrow> u64 \<Rightarrow> secret_key \<Rightarrow> secret_key) \<Rightarrow>
   (public_key \<Rightarrow> secret_key \<Rightarrow> key_image) \<Rightarrow>
   SubWallet \<Rightarrow> key_derivation \<Rightarrow> u64 \<Rightarrow> bool \<Rightarrow> key_image" where
  "SubWallet_getTxInputKeyImage derive_public_key derive_secret_key generate_key_image
      sw derivation outputIndex isViewWallet =
     (if \<not> isViewWallet then
        let publicKey = derive_public_key derivation outputIndex (m_publicSpendKey sw);
            secretKey = derive_secret_key derivation outputIndex (m_privateSpendKey sw)
        in generate_key_image publicKey secretKey
      else replicate 32 0)"

definition SubWallet_storeTransactionInput :: "SubWallet \<Rightarrow> WalletInput \<Rightarrow> bool \<Rightarrow> SubWallet" where
  "SubWallet_storeTransactionInput sw inp isViewWallet =
     (let sw = (if \<not> isViewWallet
                then sw\<lparr> m_unconfirmedIncomingAmounts :=
                       filter (\<lambda>u. un_key u \<noteq> in_key inp) (m_unconfirmedIncomingAmounts sw) \<rparr>
                else sw)
      in sw\<lparr> m_unspentInputs := m_unspentInputs sw @ [inp] \<rparr>)"

text \<open>Unlocked and locked balance; \<open>now\<close> is the clock that \<open>isInputUnlocked\<close> reads.\<close>

definition SubWallet_getBalance :: "u64 \<Rightarrow> SubWallet \<Rightarrow> u64 \<Rightarrow> u64 \<times> u64" where
  "SubWallet_getBalance now sw currentHeight =
     (let (unlockedBalance, lockedBalance) =
            foldl (\<lambda>(u, l) inp.
                if isInputUnlocked now (in_unlockTime inp) currentHeight then (u + in_amount inp, l)
                else (u, l + in_amount inp))
              (0, 0) (m_unspentInputs sw);
          lockedBalance = foldl (\<lambda>l inp. l + un_amount inp) lockedBalance (m_unconfirmedIncomingAmounts sw)
      in (unlockedBalance, lockedBalance))"

definition SubWallet_reset :: "SubWallet \<Rightarrow> u64 \<Rightarrow> SubWallet" where
  "SubWallet_reset sw scanHeight =
     sw\<lparr> m_syncStartTimestamp := 0, m_syncStartHeight := scanHeight, m_lockedInputs := [],
         m_unconfirmedIncomingAmounts := [], m_unspentInputs := [], m_spentInputs := [] \<rparr>"

definition SubWallet_markInputAsSpent :: "SubWallet \<Rightarrow> key_image \<Rightarrow> u64 \<Rightarrow> SubWallet" where
  "SubWallet_markInputAsSpent sw keyImage' spendHeight =
     (case List.find (\<lambda>x. in_keyImage x = keyImage') (m_unspentInputs sw) of
        Some inp \<Rightarrow>
          sw\<lparr> m_spentInputs := m_spentInputs sw @ [inp\<lparr> in_spendHeight := spendHeight \<rparr>],
              m_unspentInputs := erase_first (\<lambda>x. in_keyImage x = keyImage') (m_unspentInputs sw) \<rparr>
      | None \<Rightarrow>
          (case List.find (\<lambda>x. in_keyImage x = keyImage') (m_lockedInputs sw) of
             Some inp \<Rightarrow>
               sw\<lparr> m_spentInputs := m_spentInputs sw @ [inp\<lparr> in_spendHeight := spendHeight \<rparr>],
                   m_lockedInputs := erase_first (\<lambda>x. in_keyImage x = keyImage') (m_lockedInputs sw) \<rparr>
           | None \<Rightarrow> sw))"

definition SubWallet_markInputAsLocked :: "SubWallet \<Rightarrow> key_image \<Rightarrow> SubWallet" where
  "SubWallet_markInputAsLocked sw keyImage' =
     (case List.find (\<lambda>x. in_keyImage x = keyImage') (m_unspentInputs sw) of
        None \<Rightarrow> sw
      | Some inp \<Rightarrow>
          sw\<lparr> m_lockedInputs := m_lockedInputs sw @ [inp],
              m_unspentInputs := erase_first (\<lambda>x. in_keyImage x = keyImage') (m_unspentInputs sw) \<rparr>)"

definition SubWallet_removeForkedInputs :: "SubWallet \<Rightarrow> u64 \<Rightarrow> bool \<Rightarrow> SubWallet \<times> key_image list" where
  "SubWallet_removeForkedInputs sw forkHeight isViewWallet =
     (let isForked = (\<lambda>inp. in_blockHeight inp \<ge> forkHeight);
          keyImagesToRemove =
            map in_keyImage (filter isForked (m_lockedInputs sw))
            @ map in_keyImage (filter isForked (m_unspentInputs sw))
            @ map in_keyImage (filter isForked (m_spentInputs sw));
          locked = filter (\<lambda>inp. \<not> isForked inp) (m_lockedInputs sw);
          unspent = filter (\<lambda>inp. \<not> isForked inp) (m_unspentInputs sw);
          spent = filter (\<lambda>inp. \<not> isForked inp) (m_spentInputs sw);
          returned = map (\<lambda>inp. inp\<lparr> in_spendHeight := 0 \<rparr>)
                       (filter (\<lambda>inp. in_spendHeight inp \<ge> forkHeight) spent)
      in (sw\<lparr> m_unconfirmedIncomingAmounts := [], m_lockedInputs := locked,
              m_unspentInputs := unspent @ returned,
              m_spentInputs := filter (\<lambda>inp. \<not> in_spendHeight inp \<ge> forkHeight) spent \<rparr>,
          if isViewWallet then [] else keyImagesToRemove))"

definition SubWallet_removeCancelledTransactions :: "SubWallet \<Rightarrow> hash list \<Rightarrow> SubWallet" where
  "SubWallet_removeCancelledTransactions sw cancelledTransactions =
     (let cancelled = (\<lambda>inp. in_parentTransactionHash inp \<in> set cancelledTransactions);
          returned = map (\<lambda>inp. inp\<lparr> in_spendHeight := 0 \<rparr>) (filter cancelled (m_lockedInputs sw))
      in sw\<lparr> m_unspentInputs := m_unspentInputs sw @ returned,
             m_lockedInputs := filter (\<lambda>inp. \<not> cancelled inp) (m_lockedInputs sw),
             m_unconfirmedIncomingAmounts :=
               filter (\<lambda>u. un_parentTransactionHash u \<notin> set cancelledTransactions)
                 (m_unconfirmedIncomingAmounts sw) \<rparr>)"

definition SubWallet_getSpendableInputs :: "u64 \<Rightarrow> SubWallet \<Rightarrow> u64 \<Rightarrow> TxInputAndOwner list" where
  "SubWallet_getSpendableInputs now sw height =
     map (\<lambda>inp. \<lparr> own_input = inp, own_publicSpendKey = m_publicSpendKey sw,
                  own_privateSpendKey = m_privateSpendKey sw \<rparr>)
       (filter (\<lambda>inp. isInputUnlocked now (in_unlockTime inp) height) (m_unspentInputs sw))"

definition SubWallet_storeUnconfirmedIncomingInput :: "SubWallet \<Rightarrow> UnconfirmedInput \<Rightarrow> SubWallet" where
  "SubWallet_storeUnconfirmedIncomingInput sw inp =
     sw\<lparr> m_unconfirmedIncomingAmounts := m_unconfirmedIncomingAmounts sw @ [inp] \<rparr>"

definition SubWallet_convertSyncTimestampToHeight :: "SubWallet \<Rightarrow> u64 \<Rightarrow> u64 \<Rightarrow> SubWallet" where
  "SubWallet_convertSyncTimestampToHeight sw timestamp' height =
     (if m_syncStartTimestamp sw \<noteq> 0
      then sw\<lparr> m_syncStartTimestamp := timestamp', m_syncStartHeight := height \<rparr> else sw)"

definition SubWallet_pruneSpentInputs :: "SubWallet \<Rightarrow> u64 \<Rightarrow> SubWallet" where
  "SubWallet_pruneSpentInputs sw pruneHeight =
     sw\<lparr> m_spentInputs := filter (\<lambda>inp. \<not> in_spendHeight inp \<le> pruneHeight) (m_spentInputs sw) \<rparr>"

definition SubWallet_getKeyImages :: "SubWallet \<Rightarrow> key_image list" where
  "SubWallet_getKeyImages sw =
     map in_keyImage (m_unspentInputs sw) @ map in_keyImage (m_lockedInputs sw)
     @ map in_keyImage (m_spentInputs sw)"


section \<open>The ledger\<close>

text \<open>The contract: each key image the sub wallet knows has a status and an input.\<close>

datatype status = Unspent | Locked | Spent

type_synonym ledger = "key_image \<Rightarrow> (status \<times> WalletInput) option"

definition entries :: "status \<Rightarrow> WalletInput list \<Rightarrow> (key_image \<times> status \<times> WalletInput) list" where
  "entries s inps = map (\<lambda>i. (in_keyImage i, s, i)) inps"

definition all_entries :: "SubWallet \<Rightarrow> (key_image \<times> status \<times> WalletInput) list" where
  "all_entries sw = entries Unspent (m_unspentInputs sw) @ entries Locked (m_lockedInputs sw)
                    @ entries Spent (m_spentInputs sw)"

definition ledger :: "SubWallet \<Rightarrow> ledger" where
  "ledger sw = map_of (all_entries sw)"

definition ledger_store :: "WalletInput \<Rightarrow> ledger \<Rightarrow> ledger" where
  "ledger_store inp L = L(in_keyImage inp \<mapsto> (Unspent, inp))"

definition ledger_spend :: "key_image \<Rightarrow> u64 \<Rightarrow> ledger \<Rightarrow> ledger" where
  "ledger_spend k h L = (case L k of
      Some (Unspent, i) \<Rightarrow> L(k \<mapsto> (Spent, i\<lparr> in_spendHeight := h \<rparr>))
    | Some (Locked, i) \<Rightarrow> L(k \<mapsto> (Spent, i\<lparr> in_spendHeight := h \<rparr>))
    | _ \<Rightarrow> L)"

definition ledger_lock :: "key_image \<Rightarrow> ledger \<Rightarrow> ledger" where
  "ledger_lock k L = (case L k of Some (Unspent, i) \<Rightarrow> L(k \<mapsto> (Locked, i)) | _ \<Rightarrow> L)"

definition fork_entry :: "u64 \<Rightarrow> status \<times> WalletInput \<Rightarrow> (status \<times> WalletInput) option" where
  "fork_entry h e = (case e of (s, i) \<Rightarrow>
     if in_blockHeight i \<ge> h then None
     else if s = Spent \<and> in_spendHeight i \<ge> h then Some (Unspent, i\<lparr> in_spendHeight := 0 \<rparr>)
     else Some (s, i))"

definition cancel_entry :: "hash list \<Rightarrow> status \<times> WalletInput \<Rightarrow> (status \<times> WalletInput) option" where
  "cancel_entry txs e = (case e of (s, i) \<Rightarrow>
     if s = Locked \<and> in_parentTransactionHash i \<in> set txs then Some (Unspent, i\<lparr> in_spendHeight := 0 \<rparr>)
     else Some (s, i))"

definition prune_entry :: "u64 \<Rightarrow> status \<times> WalletInput \<Rightarrow> (status \<times> WalletInput) option" where
  "prune_entry h e = (case e of (s, i) \<Rightarrow> if s = Spent \<and> in_spendHeight i \<le> h then None else Some (s, i))"

definition ledger_map :: "(status \<times> WalletInput \<Rightarrow> (status \<times> WalletInput) option) \<Rightarrow> ledger \<Rightarrow> ledger" where
  "ledger_map f L = (\<lambda>k. Option.bind (L k) f)"

text \<open>The operations of a sub wallet as data, and the two ways to carry them out.\<close>

datatype op =
    Store WalletInput
  | StoreUnconfirmed UnconfirmedInput
  | MarkSpent key_image u64
  | MarkLocked key_image
  | Fork u64
  | Cancel "hash list"
  | Prune u64
  | ConvertSync u64 u64
  | Reset u64

fun run :: "op \<Rightarrow> SubWallet \<Rightarrow> SubWallet" where
  "run (Store inp) sw = SubWallet_storeTransactionInput sw inp False"
| "run (StoreUnconfirmed u) sw = SubWallet_storeUnconfirmedIncomingInput sw u"
| "run (MarkSpent k h) sw = SubWallet_markInputAsSpent sw k h"
| "run (MarkLocked k) sw = SubWallet_markInputAsLocked sw k"
| "run (Fork h) sw = fst (SubWallet_removeForkedInputs sw h False)"
| "run (Cancel txs) sw = SubWallet_removeCancelledTransactions sw txs"
| "run (Prune h) sw = SubWallet_pruneSpentInputs sw h"
| "run (ConvertSync t h) sw = SubWallet_convertSyncTimestampToHeight sw t h"
| "run (Reset h) sw = SubWallet_reset sw h"

fun run_ledger :: "op \<Rightarrow> ledger \<Rightarrow> ledger" where
  "run_ledger (Store inp) L = ledger_store inp L"
| "run_ledger (StoreUnconfirmed u) L = L"
| "run_ledger (MarkSpent k h) L = ledger_spend k h L"
| "run_ledger (MarkLocked k) L = ledger_lock k L"
| "run_ledger (Fork h) L = ledger_map (fork_entry h) L"
| "run_ledger (Cancel txs) L = ledger_map (cancel_entry txs) L"
| "run_ledger (Prune h) L = ledger_map (prune_entry h) L"
| "run_ledger (ConvertSync t h) L = L"
| "run_ledger (Reset h) L = Map.empty"

text \<open>What the caller owes: a new input has a key image the sub wallet does not hold.\<close>

fun admissible :: "op \<Rightarrow> SubWallet \<Rightarrow> bool" where
  "admissible (Store inp) sw \<longleftrightarrow> in_keyImage inp \<notin> set (SubWallet_getKeyImages sw)"
| "admissible _ sw \<longleftrightarrow> True"

definition subwallet_inv :: "SubWallet \<Rightarrow> bool" where
  "subwallet_inv sw \<longleftrightarrow> distinct (SubWallet_getKeyImages sw)"

inductive subwallet_reachable :: "SubWallet \<Rightarrow> bool" where
  fresh: "subwallet_reachable (SubWallet_standard pk sk a sh ts p)"
| step: "subwallet_reachable sw \<Longrightarrow> admissible operation sw \<Longrightarrow> subwallet_reachable (run operation sw)"



section \<open>Vectors of entries\<close>

lemma entries_simps [simp]:
  "entries s [] = []" "entries s (i # is) = (in_keyImage i, s, i) # entries s is"
  "entries s (xs @ ys) = entries s xs @ entries s ys" "keys (entries s is) = map in_keyImage is"
  by (simp_all add: entries_def)

lemma keys_all_entries: "keys (all_entries sw) = SubWallet_getKeyImages sw"
  by (simp add: all_entries_def SubWallet_getKeyImages_def)

lemma inv_keys: "subwallet_inv sw \<longleftrightarrow> distinct (keys (all_entries sw))"
  by (simp add: subwallet_inv_def keys_all_entries)

text \<open>Two vectors with the same entries in another order are the same map.\<close>

lemma map_of_mset:
  assumes "mset xs = mset ys" and "distinct (keys ys)"
  shows "map_of xs = map_of ys" and "distinct (keys xs)"
proof -
  have "mset (keys xs) = mset (keys ys)" using assms(1) by simp
  then show d: "distinct (keys xs)" using assms(2) by (metis mset_eq_imp_distinct_iff)
  have "set xs = set ys" using assms(1) by (rule mset_eq_setD)
  then show "map_of xs = map_of ys" using d assms(2) by (simp add: map_of_inject_set)
qed

definition replace_entry :: "'k \<Rightarrow> 'v \<Rightarrow> ('k \<times> 'v) list \<Rightarrow> ('k \<times> 'v) list" where
  "replace_entry k v xs = (k, v) # filter (\<lambda>e. fst e \<noteq> k) xs"

lemma replace_entry:
  "map_of (replace_entry k v xs) = (map_of xs)(k \<mapsto> v)"
  "distinct (keys xs) \<Longrightarrow> distinct (keys (replace_entry k v xs))"
proof -
  have "map_of (filter (\<lambda>e. fst e \<noteq> k) xs) x = map_of xs x" if "x \<noteq> k" for x
    using that by (induction xs) auto
  then show "map_of (replace_entry k v xs) = (map_of xs)(k \<mapsto> v)"
    by (auto simp: replace_entry_def fun_eq_iff)
  assume "distinct (keys xs)"
  then have "distinct (keys (filter (\<lambda>e. fst e \<noteq> k) xs))" by (rule distinct_map_filter)
  then show "distinct (keys (replace_entry k v xs))" by (auto simp: replace_entry_def)
qed

definition map_entries :: "('v \<Rightarrow> 'v option) \<Rightarrow> ('k \<times> 'v) list \<Rightarrow> ('k \<times> 'v) list" where
  "map_entries f xs = List.map_filter (\<lambda>(k, v). map_option (Pair k) (f v)) xs"

lemma map_entries_simps [simp]:
  "map_entries f [] = []"
  "map_entries f ((k, v) # xs) = (case f v of None \<Rightarrow> map_entries f xs | Some w \<Rightarrow> (k, w) # map_entries f xs)"
  "map_entries f (xs @ ys) = map_entries f xs @ map_entries f ys"
  by (simp_all add: map_entries_def List.map_filter_simps split: option.splits)
     (simp add: List.map_filter_def)

lemma set_keys_map_entries: "k \<in> set (keys (map_entries f xs)) \<Longrightarrow> k \<in> set (keys xs)"
proof (induction xs)
  case (Cons x xs)
  then show ?case by (cases x) (simp split: option.splits, fastforce)
qed simp

lemma map_entries:
  assumes "distinct (keys xs)"
  shows "map_of (map_entries f xs) = (\<lambda>k. Option.bind (map_of xs k) f)"
    and "distinct (keys (map_entries f xs))"
proof -
  show "distinct (keys (map_entries f xs))"
    using assms
  proof (induction xs)
    case (Cons x xs)
    then show ?case using set_keys_map_entries [of _ f xs] by (cases x) (simp split: option.splits, blast)
  qed simp
  show "map_of (map_entries f xs) = (\<lambda>k. Option.bind (map_of xs k) f)"
    using assms
  proof (induction xs)
    case (Cons x xs)
    obtain k v where x: "x = (k, v)" by (cases x)
    with Cons.prems have "map_of xs k = None" by (simp add: map_of_eq_None_iff)
    with Cons x show ?case by (auto simp: fun_eq_iff split: option.splits)
  qed simp
qed


section \<open>Each operation on the entries\<close>

lemma fork_entries:
  "mset (all_entries (fst (SubWallet_removeForkedInputs sw h v))) = mset (map_entries (fork_entry h) (all_entries sw))"
proof -
  have "mset (map_entries (fork_entry h) (entries s is)) = mset (entries s (filter (\<lambda>i. \<not> in_blockHeight i \<ge> h) is))"
    if "s \<noteq> Spent" for s "is"
    using that by (induction "is") (auto simp: fork_entry_def)
  moreover have "mset (map_entries (fork_entry h) (entries Spent is)) =
      mset (entries Spent (filter (\<lambda>i. \<not> in_spendHeight i \<ge> h) (filter (\<lambda>i. \<not> in_blockHeight i \<ge> h) is)))
      + mset (entries Unspent (map (\<lambda>i. i\<lparr> in_spendHeight := 0 \<rparr>)
          (filter (\<lambda>i. in_spendHeight i \<ge> h) (filter (\<lambda>i. \<not> in_blockHeight i \<ge> h) is))))" for "is"
    by (induction "is") (auto simp: fork_entry_def)
  ultimately show ?thesis
    by (simp add: all_entries_def SubWallet_removeForkedInputs_def Let_def)
qed

lemma cancel_entries:
  "mset (all_entries (SubWallet_removeCancelledTransactions sw txs))
     = mset (map_entries (cancel_entry txs) (all_entries sw))"
proof -
  have "map_entries (cancel_entry txs) (entries s is) = entries s is" if "s \<noteq> Locked" for s "is"
    using that by (induction "is") (auto simp: cancel_entry_def)
  moreover have "mset (map_entries (cancel_entry txs) (entries Locked is)) =
      mset (entries Locked (filter (\<lambda>i. in_parentTransactionHash i \<notin> set txs) is))
      + mset (entries Unspent (map (\<lambda>i. i\<lparr> in_spendHeight := 0 \<rparr>)
          (filter (\<lambda>i. in_parentTransactionHash i \<in> set txs) is)))" for "is"
    by (induction "is") (auto simp: cancel_entry_def)
  ultimately show ?thesis
    by (simp add: all_entries_def SubWallet_removeCancelledTransactions_def Let_def)
qed

lemma prune_entries:
  "all_entries (SubWallet_pruneSpentInputs sw h) = map_entries (prune_entry h) (all_entries sw)"
proof -
  have "map_entries (prune_entry h) (entries s is) = entries s is" if "s \<noteq> Spent" for s "is"
    using that by (induction "is") (auto simp: prune_entry_def)
  moreover have "map_entries (prune_entry h) (entries Spent is)
      = entries Spent (filter (\<lambda>i. \<not> in_spendHeight i \<le> h) is)" for "is"
    by (induction "is") (auto simp: prune_entry_def)
  ultimately show ?thesis by (simp add: all_entries_def SubWallet_pruneSpentInputs_def)
qed


lemma find_entries:
  "map_of (entries s is) k = map_option (Pair s) (List.find (\<lambda>x. in_keyImage x = k) is)"
  by (induction "is") auto

lemma ledger_find:
  "ledger sw k =
     (case List.find (\<lambda>x. in_keyImage x = k) (m_unspentInputs sw) of
        Some i \<Rightarrow> Some (Unspent, i)
      | None \<Rightarrow> (case List.find (\<lambda>x. in_keyImage x = k) (m_lockedInputs sw) of
          Some i \<Rightarrow> Some (Locked, i)
        | None \<Rightarrow> map_option (Pair Spent) (List.find (\<lambda>x. in_keyImage x = k) (m_spentInputs sw))))"
  by (simp add: ledger_def all_entries_def find_entries map_add_def split: option.splits)

lemma filter_entries: "filter (\<lambda>e. fst e \<noteq> k) (entries s is) = entries s (filter (\<lambda>i. in_keyImage i \<noteq> k) is)"
  by (induction "is") auto

lemma filter_absent: "k \<notin> in_keyImage ` set is \<Longrightarrow> filter (\<lambda>i. in_keyImage i \<noteq> k) is = is"
  by (auto simp: filter_id_conv)

lemma found_key: "List.find (\<lambda>x. in_keyImage x = k) is = Some i \<Longrightarrow> in_keyImage i = k \<and> k \<in> in_keyImage ` set is"
  using find_Some_in [of _ "is" i] by auto

text \<open>Moving an input from one vector to the end of another replaces its entry.\<close>

lemma moved_entry:
  assumes "distinct (map in_keyImage from @ other)" and "List.find (\<lambda>x. in_keyImage x = k) from = Some i"
  shows "filter (\<lambda>i. in_keyImage i \<noteq> k) from = erase_first (\<lambda>x. in_keyImage x = k) from" "k \<notin> set other"
    "in_keyImage i = k"
  using assms found_key [OF assms(2)] by (auto simp: erase_first_key_filter)

lemma spend_entries:
  assumes "subwallet_inv sw"
  shows "mset (all_entries (SubWallet_markInputAsSpent sw k h)) =
    (case ledger sw k of
       Some (Unspent, i) \<Rightarrow> mset (replace_entry k (Spent, i\<lparr> in_spendHeight := h \<rparr>) (all_entries sw))
     | Some (Locked, i) \<Rightarrow> mset (replace_entry k (Spent, i\<lparr> in_spendHeight := h \<rparr>) (all_entries sw))
     | _ \<Rightarrow> mset (all_entries sw))"
proof -
  let ?find = "List.find (\<lambda>x. in_keyImage x = k)"
  have d: "distinct (map in_keyImage (m_unspentInputs sw) @ map in_keyImage (m_lockedInputs sw @ m_spentInputs sw))"
      "distinct (map in_keyImage (m_lockedInputs sw) @ map in_keyImage (m_unspentInputs sw @ m_spentInputs sw))"
    using assms by (auto simp: subwallet_inv_def SubWallet_getKeyImages_def)
  consider (u) i where "?find (m_unspentInputs sw) = Some i"
    | (l) i where "?find (m_unspentInputs sw) = None" "?find (m_lockedInputs sw) = Some i"
    | (n) "?find (m_unspentInputs sw) = None" "?find (m_lockedInputs sw) = None"
    by (meson option.exhaust)
  then show ?thesis
  proof cases
    case u
    with moved_entry [OF d(1) u] show ?thesis
      by (simp add: SubWallet_markInputAsSpent_def all_entries_def ledger_find replace_entry_def filter_entries
          filter_absent)
  next
    case l
    with moved_entry [OF d(2) l(2)] show ?thesis
      by (simp add: SubWallet_markInputAsSpent_def all_entries_def ledger_find replace_entry_def filter_entries
          filter_absent)
  next
    case n
    then show ?thesis
      by (cases "?find (m_spentInputs sw)") (simp_all add: SubWallet_markInputAsSpent_def ledger_find)
  qed
qed

lemma lock_entries:
  assumes "subwallet_inv sw"
  shows "mset (all_entries (SubWallet_markInputAsLocked sw k)) =
    (case ledger sw k of
       Some (Unspent, i) \<Rightarrow> mset (replace_entry k (Locked, i) (all_entries sw))
     | _ \<Rightarrow> mset (all_entries sw))"
proof (cases "List.find (\<lambda>x. in_keyImage x = k) (m_unspentInputs sw)")
  case None
  then show ?thesis
    by (auto simp: SubWallet_markInputAsLocked_def ledger_find split: option.splits)
next
  case (Some i)
  have "distinct (map in_keyImage (m_unspentInputs sw) @ map in_keyImage (m_lockedInputs sw @ m_spentInputs sw))"
    using assms by (auto simp: subwallet_inv_def SubWallet_getKeyImages_def)
  from moved_entry [OF this Some] Some show ?thesis
    by (simp add: SubWallet_markInputAsLocked_def all_entries_def ledger_find replace_entry_def filter_entries
        filter_absent)
qed

lemma store_entries:
  assumes "in_keyImage inp \<notin> set (SubWallet_getKeyImages sw)"
  shows "mset (all_entries (SubWallet_storeTransactionInput sw inp v))
    = mset (replace_entry (in_keyImage inp) (Unspent, inp) (all_entries sw))"
  using assms
  by (simp add: SubWallet_storeTransactionInput_def all_entries_def replace_entry_def filter_entries filter_absent
      SubWallet_getKeyImages_def Let_def)

lemma other_entries:
  "all_entries (SubWallet_storeUnconfirmedIncomingInput sw u) = all_entries sw"
  "all_entries (SubWallet_convertSyncTimestampToHeight sw t h) = all_entries sw"
  "all_entries (SubWallet_reset sw h) = []"
  by (simp_all add: all_entries_def SubWallet_storeUnconfirmedIncomingInput_def
      SubWallet_convertSyncTimestampToHeight_def SubWallet_reset_def)


section \<open>Refinement\<close>

text \<open>The entries after an operation, up to their order.\<close>

fun run_entries :: "op \<Rightarrow> ledger \<Rightarrow> (key_image \<times> status \<times> WalletInput) list
    \<Rightarrow> (key_image \<times> status \<times> WalletInput) list" where
  "run_entries (Store inp) L xs = replace_entry (in_keyImage inp) (Unspent, inp) xs"
| "run_entries (StoreUnconfirmed u) L xs = xs"
| "run_entries (MarkSpent k h) L xs = (case L k of
      Some (Unspent, i) \<Rightarrow> replace_entry k (Spent, i\<lparr> in_spendHeight := h \<rparr>) xs
    | Some (Locked, i) \<Rightarrow> replace_entry k (Spent, i\<lparr> in_spendHeight := h \<rparr>) xs
    | _ \<Rightarrow> xs)"
| "run_entries (MarkLocked k) L xs = (case L k of
      Some (Unspent, i) \<Rightarrow> replace_entry k (Locked, i) xs | _ \<Rightarrow> xs)"
| "run_entries (Fork h) L xs = map_entries (fork_entry h) xs"
| "run_entries (Cancel txs) L xs = map_entries (cancel_entry txs) xs"
| "run_entries (Prune h) L xs = map_entries (prune_entry h) xs"
| "run_entries (ConvertSync t h) L xs = xs"
| "run_entries (Reset h) L xs = []"

lemma run_entries_mset:
  assumes "subwallet_inv sw" and "admissible operation sw"
  shows "mset (all_entries (run operation sw)) = mset (run_entries operation (ledger sw) (all_entries sw))"
  using assms
  by (cases operation)
     (simp_all add: store_entries spend_entries lock_entries fork_entries cancel_entries prune_entries other_entries
        split: option.splits prod.splits status.splits)

lemma run_entries_map:
  assumes "distinct (keys xs)"
  shows "map_of (run_entries operation (map_of xs) xs) = run_ledger operation (map_of xs)"
    and "distinct (keys (run_entries operation (map_of xs) xs))"
  using assms
  by (cases operation;
      simp add: replace_entry map_entries ledger_store_def ledger_spend_def ledger_lock_def ledger_map_def
        split: option.splits prod.splits status.splits)+

lemma run_refines:
  assumes "subwallet_inv sw" and "admissible operation sw"
  shows "ledger (run operation sw) = run_ledger operation (ledger sw)" and "subwallet_inv (run operation sw)"
proof -
  have d: "distinct (keys (all_entries sw))" using assms(1) by (simp add: inv_keys)
  note m = run_entries_mset [OF assms, unfolded ledger_def]
  note r = run_entries_map [OF d, of operation]
  show "ledger (run operation sw) = run_ledger operation (ledger sw)"
    using map_of_mset(1) [OF m r(2)] r(1) by (simp add: ledger_def)
  show "subwallet_inv (run operation sw)"
    using map_of_mset(2) [OF m r(2)] by (simp add: inv_keys)
qed



section \<open>Balance\<close>

lemma balance_fold:
  "foldl (\<lambda>(u, l) i. if P i then (u + f i, l) else (u, l + f i)) (a, b) xs
     = (a + sum_list (map f (filter P xs)), b + sum_list (map f (filter (\<lambda>i. \<not> P i) xs)))"
  for f :: "'a \<Rightarrow> 'b :: comm_monoid_add"
  by (induction xs arbitrary: a b) (auto simp: algebra_simps)

lemma getBalance_eq:
  "SubWallet_getBalance now sw h =
    (sum_list (map in_amount (filter (\<lambda>i. isInputUnlocked now (in_unlockTime i) h) (m_unspentInputs sw))),
     sum_list (map in_amount (filter (\<lambda>i. \<not> isInputUnlocked now (in_unlockTime i) h) (m_unspentInputs sw)))
     + sum_list (map un_amount (m_unconfirmedIncomingAmounts sw)))"
  unfolding SubWallet_getBalance_def balance_fold by (simp add: foldl_plus_sum_list)

lemma sum_filter_erase:
  "List.find Q xs = Some x \<Longrightarrow>
     sum_list (map f (filter P xs)) = (if P x then f x else 0) + sum_list (map f (filter P (erase_first Q xs)))"
  for f :: "'a \<Rightarrow> 'b :: comm_monoid_add"
  by (induction xs) (auto simp: algebra_simps split: if_splits)

text \<open>The balance after an operation that takes the input \<open>i\<close> out of the unspent vector.\<close>

definition take_from_balance :: "u64 \<Rightarrow> u64 \<Rightarrow> WalletInput \<Rightarrow> u64 \<times> u64 \<Rightarrow> u64 \<times> u64" where
  "take_from_balance now h i b =
     (if isInputUnlocked now (in_unlockTime i) h then (fst b - in_amount i, snd b)
      else (fst b, snd b - in_amount i))"

lemma balance_erase:
  assumes "List.find Q (m_unspentInputs sw) = Some i"
    and "m_unspentInputs sw' = erase_first Q (m_unspentInputs sw)"
    and "m_unconfirmedIncomingAmounts sw' = m_unconfirmedIncomingAmounts sw"
  shows "SubWallet_getBalance now sw' h = take_from_balance now h i (SubWallet_getBalance now sw h)"
  using assms
    sum_filter_erase [OF assms(1), of in_amount "\<lambda>i. isInputUnlocked now (in_unlockTime i) h"]
    sum_filter_erase [OF assms(1), of in_amount "\<lambda>i. \<not> isInputUnlocked now (in_unlockTime i) h"]
  by (simp add: getBalance_eq take_from_balance_def)


section \<open>Rollback\<close>

lemma fork_after_spend:
  assumes "subwallet_inv sw" and "ledger sw k = Some (Unspent, i)" and "in_spendHeight i = 0" and "h \<le> h'"
  shows "ledger (run (Fork h) (run (MarkSpent k h') sw)) = ledger (run (Fork h) sw)"
proof -
  have i: "i\<lparr> in_spendHeight := 0 \<rparr> = i" using assms(3) by (cases i) simp
  have "ledger (run (Fork h) (run (MarkSpent k h') sw)) = ledger_map (fork_entry h) (ledger_spend k h' (ledger sw))"
    using run_refines [OF assms(1), of "MarkSpent k h'"] run_refines(1) [of "run (MarkSpent k h') sw" "Fork h"] by simp
  also have "\<dots> = ledger_map (fork_entry h) (ledger sw)"
    using assms(2-4) i by (auto simp: ledger_map_def ledger_spend_def fork_entry_def fun_eq_iff)
  finally show ?thesis using run_refines(1) [OF assms(1), of "Fork h"] by simp
qed

lemma fork_clean:
  "j \<in> set (m_unspentInputs (run (Fork h) sw) @ m_lockedInputs (run (Fork h) sw) @ m_spentInputs (run (Fork h) sw))
     \<Longrightarrow> in_blockHeight j < h"
  "j \<in> set (m_spentInputs (run (Fork h) sw)) \<Longrightarrow> in_spendHeight j < h"
  by (auto simp: SubWallet_removeForkedInputs_def Let_def not_le)

lemma removed_key_images:
  assumes "subwallet_inv sw"
  shows "set (snd (SubWallet_removeForkedInputs sw h False))
    = set (SubWallet_getKeyImages sw) - set (SubWallet_getKeyImages (run (Fork h) sw))"
proof -
  define X where "X = set (m_unspentInputs sw) \<union> set (m_lockedInputs sw) \<union> set (m_spentInputs sw)"
  define F where "F = {i \<in> X. in_blockHeight i \<ge> h}"
  have "inj_on in_keyImage X"
    using assms by (auto simp: X_def subwallet_inv_def SubWallet_getKeyImages_def distinct_map inj_on_Un)
  then have "in_keyImage ` (X - (X - F)) = in_keyImage ` X - in_keyImage ` (X - F)"
    by (intro inj_on_image_set_diff) auto
  moreover have "X - (X - F) = F" by (auto simp: F_def)
  moreover have "set (snd (SubWallet_removeForkedInputs sw h False)) = in_keyImage ` F"
    by (auto simp: SubWallet_removeForkedInputs_def Let_def F_def X_def)
  moreover have "set (SubWallet_getKeyImages (run (Fork h) sw)) = in_keyImage ` (X - F)"
    by (auto simp: SubWallet_removeForkedInputs_def Let_def F_def X_def SubWallet_getKeyImages_def image_iff)
  moreover have "set (SubWallet_getKeyImages sw) = in_keyImage ` X"
    by (auto simp: X_def SubWallet_getKeyImages_def)
  ultimately show ?thesis by simp
qed


section \<open>Properties\<close>


definition sample_input :: WalletInput where
  "sample_input = \<lparr> in_keyImage = replicate 32 1, in_amount = 5000, in_blockHeight = 10,
     in_transactionPublicKey = replicate 32 2, in_transactionIndex = 0, in_globalOutputIndex = None,
     in_key = replicate 32 3, in_spendHeight = 0, in_unlockTime = 0, in_parentTransactionHash = replicate 32 4 \<rparr>"

definition sample_wallet :: SubWallet where
  "sample_wallet = run (Store sample_input)
     (SubWallet_standard (replicate 32 5) (replicate 32 6) ''dg1'' 0 0 True)"

lemma sample_wallet_inv: "subwallet_inv sample_wallet"
  by (simp add: sample_wallet_def subwallet_inv_def SubWallet_getKeyImages_def SubWallet_standard_def
      SubWallet_storeTransactionInput_def)

lemma sample_wallet_ledger: "ledger sample_wallet (replicate 32 1) = Some (Unspent, sample_input)"
  by (simp add: ledger_find sample_wallet_def SubWallet_standard_def SubWallet_storeTransactionInput_def
      sample_input_def)




text \<open>
  C25: A rollback to height \<open>h\<close> undoes what happened from \<open>h\<close> on: a spend recorded at a height
  \<open>h' \<ge> h\<close> leaves no trace in the ledger, nothing received or spent at \<open>h\<close> or later remains, and the
  key images reported for removal are exactly those no longer held.
\<close>

theorem rollback_undoes_spend:
  assumes "subwallet_inv sw" and "ledger sw k = Some (Unspent, i)" and "in_spendHeight i = 0" and "h \<le> h'"
  shows "ledger (run (Fork h) (run (MarkSpent k h') sw)) = ledger (run (Fork h) sw)
    \<and> (\<forall>j \<in> set (m_unspentInputs (run (Fork h) sw) @ m_lockedInputs (run (Fork h) sw)
            @ m_spentInputs (run (Fork h) sw)). in_blockHeight j < h)
    \<and> (\<forall>j \<in> set (m_spentInputs (run (Fork h) sw)). in_spendHeight j < h)
    \<and> set (snd (SubWallet_removeForkedInputs sw h False))
        = set (SubWallet_getKeyImages sw) - set (SubWallet_getKeyImages (run (Fork h) sw))"
  using fork_after_spend [OF assms] fork_clean [of _ h sw] removed_key_images [OF assms(1)] by auto

theorem rollback_undoes_spend_witness:
  "ledger (run (Fork 50) (run (MarkSpent (replicate 32 1) 77) sample_wallet)) = ledger (run (Fork 50) sample_wallet)"
  using rollback_undoes_spend [OF sample_wallet_inv sample_wallet_ledger, of 50 77]
  by (simp add: sample_input_def)

text \<open>
  C38: Marking an unspent input as spent or as locked takes exactly its amount out of the part of
  the balance it was counted in; marking any other input changes no balance.
\<close>

theorem balance_follows_inputs:
  assumes "ledger sw k = Some (s, i)"
  shows "SubWallet_getBalance now (run (MarkSpent k sh) sw) h
      = (if s = Unspent then take_from_balance now h i (SubWallet_getBalance now sw h)
         else SubWallet_getBalance now sw h)
    \<and> SubWallet_getBalance now (run (MarkLocked k) sw) h
      = (if s = Unspent then take_from_balance now h i (SubWallet_getBalance now sw h)
         else SubWallet_getBalance now sw h)"
proof (cases "List.find (\<lambda>x. in_keyImage x = k) (m_unspentInputs sw)")
  case (Some j)
  with assms have "s = Unspent" "j = i" by (simp_all add: ledger_find)
  with Some show ?thesis
    by (simp add: balance_erase [OF Some] SubWallet_markInputAsSpent_def SubWallet_markInputAsLocked_def)
next
  case None
  with assms have "s \<noteq> Unspent" by (auto simp: ledger_find split: option.splits)
  with None show ?thesis
    by (auto simp: SubWallet_markInputAsSpent_def SubWallet_markInputAsLocked_def getBalance_eq split: option.splits)
qed

theorem balance_follows_inputs_witness:
  "SubWallet_getBalance 0 (run (MarkSpent (replicate 32 1) 77) sample_wallet) 20
     = take_from_balance 0 20 sample_input (SubWallet_getBalance 0 sample_wallet 20)"
  using balance_follows_inputs [OF sample_wallet_ledger, of 0 77 20] by simp


text \<open>
  \<open>removeCancelledTransactions\<close> compares the cancelled hashes with the transaction that created a
  locked input, not with the one that was to spend it: an input locked by a cancelled transaction
  stays locked unless its own parent is among the cancelled ones.
\<close>

lemma cancelled_input_stays_locked:
  assumes "subwallet_inv sw" and "ledger sw k = Some (Locked, i)" and "in_parentTransactionHash i \<notin> set txs"
  shows "ledger (run (Cancel txs) sw) k = Some (Locked, i)"
  using run_refines(1) [OF assms(1), of "Cancel txs"] assms(2,3)
  by (simp add: ledger_map_def cancel_entry_def)

end
