(* ===== verification/Base58.thy ===== *)
theory Base58
  imports Strings Varint
begin

text \<open>
  The Base58 armour of addresses, \<open>src/common/Base58.cpp\<close>: eight bytes become eleven characters,
  a shorter last block the length \<open>encoded_block_sizes\<close> gives it. A pointer into the result is the
  slice it points to.

  \<open>None\<close> is a failed \<open>assert\<close> or a write before the start of the slice; under it, \<open>decode\<close> and
  \<open>decode_addr\<close> return \<open>Some None\<close> where the code returns \<open>false\<close>. \<open>cn_fast_hash\<close> (Keccak) is a
  parameter: every statement holds for whatever 32 bytes it returns.
\<close>

section \<open>Tables\<close>

definition alphabet :: string where
  "alphabet = ''123456789ABCDEFGHJKLMNPQRSTUVWXYZabcdefghijkmnopqrstuvwxyz''"

definition alphabet_size :: nat where
  "alphabet_size = 58"

definition encoded_block_sizes :: "nat list" where
  "encoded_block_sizes = [0, 2, 3, 5, 6, 7, 9, 10, 11]"

definition full_block_size :: nat where
  "full_block_size = length encoded_block_sizes - 1"

definition full_encoded_block_size :: nat where
  "full_encoded_block_size = encoded_block_sizes ! full_block_size"

definition addr_checksum_size :: nat where
  "addr_checksum_size = 4"

text \<open>A \<open>char\<close> is signed on the targets of the code.\<close>

definition char_value :: "char \<Rightarrow> int" where
  "char_value c = (let n = of_char c in if n < 128 then n else n - 256)"

definition reverse_alphabet_data :: "int list" where
  "reverse_alphabet_data =
     foldl (\<lambda>m_data i. m_data[nat (char_value (alphabet ! i) - char_value (alphabet ! 0)) := int i])
       (replicate (nat (char_value (alphabet ! (alphabet_size - 1)) - char_value (alphabet ! 0) + 1)) (-1))
       [0..<alphabet_size]"

definition reverse_alphabet :: "char \<Rightarrow> int" where
  "reverse_alphabet letter =
     (let idx = unat (word_of_int (char_value letter - char_value (alphabet ! 0)) :: u64)
      in if idx < length reverse_alphabet_data then reverse_alphabet_data ! idx else -1)"

definition decoded_block_sizes_data :: "int list" where
  "decoded_block_sizes_data =
     foldl (\<lambda>m_data i. m_data[encoded_block_sizes ! i := int i])
       (replicate (encoded_block_sizes ! full_block_size + 1) (-1))
       [0..<full_block_size + 1]"

definition decoded_block_sizes :: "nat \<Rightarrow> int option" where
  "decoded_block_sizes encoded_block_size =
     (if encoded_block_size \<le> full_encoded_block_size
      then Some (decoded_block_sizes_data ! encoded_block_size) else None)"


section \<open>Blocks\<close>

text \<open>The fall-through \<open>switch\<close> shifts in one byte after the other.\<close>

definition uint_8be_to_64 :: "bytes \<Rightarrow> u64 option" where
  "uint_8be_to_64 data =
     (if 1 \<le> length data \<and> length data \<le> 8
      then Some (foldl (\<lambda>res b. push_bit 8 res OR ucast b) 0 data) else None)"

text \<open>The last \<open>size\<close> bytes of the big-endian representation.\<close>

definition uint_64_to_8be :: "u64 \<Rightarrow> nat \<Rightarrow> bytes option" where
  "uint_64_to_8be num size' =
     (if 1 \<le> size' \<and> size' \<le> 8
      then Some (drop (8 - size') (map (\<lambda>i. ucast (drop_bit (8 * i) num)) [7, 6, 5, 4, 3, 2, 1, 0]))
      else None)"

function encode_block_loop :: "u64 \<Rightarrow> int \<Rightarrow> string \<Rightarrow> string option" where
  "encode_block_loop num i res =
     (if 0 < num then
        let remainder = num mod word_of_nat alphabet_size
        in if i < 0 then None
           else encode_block_loop (num div word_of_nat alphabet_size) (i - 1)
                  (res[nat i := alphabet ! unat remainder])
      else Some res)"
  by pat_completeness auto
termination
  by (relation "measure (\<lambda>(_, i, _). nat (i + 1))") auto

declare encode_block_loop.simps [simp del]

text \<open>\<open>block\<close> is the slice of \<open>size\<close> bytes, \<open>res\<close> the slice of the result it is written to.\<close>

definition encode_block :: "string \<Rightarrow> string \<Rightarrow> string option" where
  "encode_block block res =
     (if 1 \<le> length block \<and> length block \<le> full_block_size
      then Option.bind (uint_8be_to_64 (asBinaryArray block)) (\<lambda>num.
             encode_block_loop num (int (encoded_block_sizes ! length block) - 1) res)
      else None)"

text \<open>The loop from the last character to the first, over the reversed block.\<close>

fun decode_block_loop :: "string \<Rightarrow> u64 \<Rightarrow> u64 \<Rightarrow> u64 option" where
  "decode_block_loop [] res_num order = Some res_num"
| "decode_block_loop (c # cs) res_num order =
     (let digit = reverse_alphabet c
      in if digit < 0 then None
         else
           let (product_lo, product_hi) = mul128 order (word_of_int digit);
               tmp = res_num + product_lo
           in if tmp < res_num \<or> 0 \<noteq> product_hi then None
              else decode_block_loop cs tmp (order * word_of_nat alphabet_size))"

definition decode_block :: "string \<Rightarrow> string option option" where
  "decode_block block =
     (if 1 \<le> length block \<and> length block \<le> full_encoded_block_size
      then Option.bind (decoded_block_sizes (length block)) (\<lambda>res_size.
        if res_size \<le> 0 then Some None
        else case decode_block_loop (rev block) 0 1 of
            None \<Rightarrow> Some None
          | Some res_num \<Rightarrow>
              if nat res_size < full_block_size \<and> push_bit (8 * nat res_size) 1 \<le> res_num
              then Some None
              else Option.bind (uint_64_to_8be res_num (nat res_size)) (\<lambda>res. Some (Some (asString res))))
      else None)"


section \<open>Strings\<close>

text \<open>The full blocks, and then the last, shorter one.\<close>

fun encode_blocks :: "nat \<Rightarrow> string \<Rightarrow> string option" where
  "encode_blocks 0 data =
     (let last_block_size = length data
      in if 0 < last_block_size
         then encode_block data (replicate (encoded_block_sizes ! last_block_size) (alphabet ! 0))
         else Some [])"
| "encode_blocks (Suc n) data =
     Option.bind (encode_block (take full_block_size data) (replicate full_encoded_block_size (alphabet ! 0)))
       (\<lambda>b. Option.bind (encode_blocks n (drop full_block_size data)) (\<lambda>rest. Some (b @ rest)))"

definition encode :: "string \<Rightarrow> string option" where
  "encode data = (if data = [] then Some [] else encode_blocks (length data div full_block_size) data)"

fun decode_blocks :: "nat \<Rightarrow> string \<Rightarrow> string option option" where
  "decode_blocks 0 enc =
     (let last_block_size = length enc
      in if 0 < last_block_size then decode_block enc else Some (Some []))"
| "decode_blocks (Suc n) enc =
     Option.bind (decode_block (take full_encoded_block_size enc)) (\<lambda>r. case r of
         None \<Rightarrow> Some None
       | Some b \<Rightarrow> Option.bind (decode_blocks n (drop full_encoded_block_size enc)) (\<lambda>r'. case r' of
             None \<Rightarrow> Some None
           | Some rest \<Rightarrow> Some (Some (b @ rest))))"

definition decode :: "string \<Rightarrow> string option option" where
  "decode enc =
     (if enc = [] then Some (Some [])
      else
        let full_block_count = length enc div full_encoded_block_size;
            last_block_size = length enc mod full_encoded_block_size
        in Option.bind (decoded_block_sizes last_block_size) (\<lambda>last_block_decoded_size.
             if last_block_decoded_size < 0 then Some None
             else decode_blocks full_block_count enc))"

definition encode_addr :: "(bytes \<Rightarrow> hash) \<Rightarrow> u64 \<Rightarrow> string \<Rightarrow> string option" where
  "encode_addr cn_fast_hash tag data =
     (let buf = asString (write_varint tag);
          buf = buf @ data;
          hash = cn_fast_hash (asBinaryArray buf)
      in encode (buf @ asString (take addr_checksum_size hash)))"

text \<open>The tag and the data behind it: \<open>read_varint\<close>, a positive count, \<open>substr(read)\<close>.\<close>

definition read_tag :: "bytes \<Rightarrow> (u64 \<times> bytes) option" where
  "read_tag bs = (let (read, tag) = read_varint bs in if read \<le> 0 then None else Some (tag, drop (nat read) bs))"

definition decode_addr :: "(bytes \<Rightarrow> hash) \<Rightarrow> string \<Rightarrow> (u64 \<times> string) option option" where
  "decode_addr cn_fast_hash addr =
     Option.bind (decode addr) (\<lambda>r. case r of
         None \<Rightarrow> Some None
       | Some addr_data \<Rightarrow>
           if length addr_data \<le> addr_checksum_size then Some None
           else
             let checksum = drop (length addr_data - addr_checksum_size) addr_data;
                 addr_data = take (length addr_data - addr_checksum_size) addr_data;
                 hash = cn_fast_hash (asBinaryArray addr_data);
                 expected_checksum = asString (take addr_checksum_size hash)
             in if expected_checksum \<noteq> checksum then Some None
                else case read_tag (asBinaryArray addr_data) of
                    None \<Rightarrow> Some None
                  | Some (tag, data) \<Rightarrow> Some (Some (tag, asString data)))"


text \<open>The number a block of bytes stands for, the first byte being the most significant.\<close>

definition byte_value :: "bytes \<Rightarrow> nat" where
  "byte_value bs = of_digits 256 (map unat bs)"


section \<open>Digits\<close>

lemma length_alphabet: "length alphabet = 58" by (simp add: alphabet_def)

lemma alphabet_word: "unat (word_of_nat alphabet_size :: u64) = 58"
  by (simp add: alphabet_size_def)

lemma encode_block_loop_digits:
  assumes "unat num < 58 ^ k"
  shows "encode_block_loop num (int k - 1) (replicate k (alphabet ! 0) @ suf)
    = Some (map (\<lambda>d. alphabet ! d) (digits 58 k (unat num)) @ suf)"
  using assms
proof (induction k arbitrary: num suf)
  case 0
  then have "num = 0" by (simp add: unat_eq_zero)
  then show ?case by (subst encode_block_loop.simps) simp
next
  case (Suc k)
  have d: "unat (num div word_of_nat alphabet_size) = unat num div 58"
    and m: "unat (num mod word_of_nat alphabet_size) = unat num mod 58"
    by (simp_all only: unat_div unat_mod alphabet_word)
  show ?case
  proof (cases "num = 0")
    case True
    then show ?thesis by (subst encode_block_loop.simps) (simp add: digits_zero)
  next
    case False
    then have "encode_block_loop num (int (Suc k) - 1) (replicate (Suc k) (alphabet ! 0) @ suf)
        = encode_block_loop (num div word_of_nat alphabet_size) (int k - 1)
            (replicate k (alphabet ! 0) @ (alphabet ! (unat num mod 58)) # suf)"
      by (subst encode_block_loop.simps)
         (simp add: word_gt_0 m list_update_append flip: replicate_append_same)
    also have "\<dots> = Some (map (\<lambda>d. alphabet ! d) (digits 58 k (unat num div 58)) @ (alphabet ! (unat num mod 58)) # suf)"
      using Suc.IH [of "num div word_of_nat alphabet_size" "(alphabet ! (unat num mod 58)) # suf"] Suc.prems
      unfolding d by (simp add: less_mult_imp_div_less mult.commute)
    finally show ?thesis by simp
  qed
qed

lemma reverse_alphabet_data_eq [code]: "reverse_alphabet_data =
  [0, 1, 2, 3, 4, 5, 6, 7, 8, -1, -1, -1, -1, -1, -1, -1,
   9, 10, 11, 12, 13, 14, 15, 16, -1, 17, 18, 19, 20, 21, -1,
   22, 23, 24, 25, 26, 27, 28, 29, 30, 31, 32, -1, -1, -1, -1, -1, -1,
   33, 34, 35, 36, 37, 38, 39, 40, 41, 42, 43, -1, 44, 45, 46, 47, 48, 49, 50, 51, 52, 53, 54, 55, 56, 57]"
  by code_simp

lemma reverse_alphabet_digit: "i < 58 \<Longrightarrow> reverse_alphabet (alphabet ! i) = int i"
proof -
  have "list_all (\<lambda>i. reverse_alphabet (alphabet ! i) = int i) [0..<58]"
    unfolding reverse_alphabet_def reverse_alphabet_data_eq by code_simp
  then show "i < 58 \<Longrightarrow> ?thesis" by (simp add: list_all_iff)
qed

lemma alphabet_reverse:
  assumes "0 \<le> reverse_alphabet c"
  shows "nat (reverse_alphabet c) < 58" "alphabet ! nat (reverse_alphabet c) = c"
proof -
  define k where k: "k = unat (word_of_int (char_value c - char_value (alphabet ! 0)) :: u64)"
  have "char_value (alphabet ! 0) = 49" by code_simp
  then have int_k: "int k = (char_value c - 49) mod 2 ^ 64" unfolding k int_unat_word_of_int by simp
  have bound: "k < length reverse_alphabet_data" and r: "reverse_alphabet c = reverse_alphabet_data ! k"
    using assms by (auto simp: reverse_alphabet_def k Let_def simp del: of_int_diff split: if_splits)
  have len: "length reverse_alphabet_data = 74" by (simp add: reverse_alphabet_data_eq)
  have idx: "of_char c = 49 + k"
  proof -
    define n :: nat where n: "n = of_char c"
    have e: "(of_char c :: int) = int n" unfolding n by (simp only: of_nat_of_char)
    have n256: "n < 256" unfolding n by simp
    have v: "- 177 \<le> char_value c - 49" "char_value c - 49 < 128"
      using n256 unfolding char_value_def Let_def e by auto
    have "0 \<le> char_value c - 49"
    proof (rule ccontr)
      assume neg: "\<not> 0 \<le> char_value c - 49"
      then have "(char_value c - 49) mod 2 ^ 64 = char_value c - 49 + 2 ^ 64"
        using v by (intro mod_neg_shift) simp_all
      then have "int k = char_value c - 49 + 2 ^ 64" unfolding int_k .
      moreover have "int k < 74" using bound len by linarith
      ultimately show False using v by simp
    qed
    then have "int k = char_value c - 49"
      using v unfolding int_k by (simp add: mod_pos_pos_trivial)
    moreover from this have "0 \<le> char_value c" by linarith
    then have "char_value c = int n"
      using n256 unfolding char_value_def Let_def e by (auto split: if_splits)
    ultimately show ?thesis unfolding n by linarith
  qed
  have "list_all (\<lambda>(n, v). v < 0 \<or> (nat v < 58 \<and> alphabet ! nat v = char_of (49 + n)))
      (enumerate 0 reverse_alphabet_data)"
    unfolding reverse_alphabet_data_eq by code_simp
  moreover have "(k, reverse_alphabet c) \<in> set (enumerate 0 reverse_alphabet_data)"
    using bound r by (simp add: in_set_enumerate_eq)
  ultimately have "reverse_alphabet c < 0 \<or> (nat (reverse_alphabet c) < 58
     \<and> alphabet ! nat (reverse_alphabet c) = char_of (49 + k))"
    by (auto simp: list_all_iff)
  with assms idx show "nat (reverse_alphabet c) < 58" "alphabet ! nat (reverse_alphabet c) = c"
    by (auto simp flip: idx)
qed

lemma decode_block_loop_digits:
  assumes "\<forall>d \<in> set ds. d < 58" and "length ds + j \<le> 11" and "unat order = 58 ^ j mod 2 ^ 64"
  shows "decode_block_loop (map (\<lambda>d. alphabet ! d) ds) res order =
    (if unat res + 58 ^ j * of_digits 58 (rev ds) < 2 ^ 64
     then Some (word_of_nat (unat res + 58 ^ j * of_digits 58 (rev ds))) else None)"
  using assms
proof (induction ds arbitrary: j res order)
  case Nil
  then show ?case by (simp add: word_unat_eq_iff)
next
  case (Cons d ds)
  have "(58 :: nat) ^ j \<le> 58 ^ 10" using Cons.prems(2) by (intro power_increasing) simp_all
  then have "(58 :: nat) ^ j < 2 ^ 64" by simp
  then have order: "unat order = 58 ^ j" using Cons.prems(3) by simp
  have d: "reverse_alphabet (alphabet ! d) = int d" "d < 58"
    using Cons.prems(1) reverse_alphabet_digit by simp_all
  obtain lo hi where P: "mul128 order (word_of_int (int d)) = (lo, hi)" by fastforce
  have "unat (word_of_int (int d) :: u64) = d" using d(2) by (simp add: unat_word_of_nat)
  with mul128_correct_aux [OF P] order have prod: "unat hi * 2 ^ 64 + unat lo = 58 ^ j * d" by simp
  have split: "unat res + 58 ^ j * of_digits 58 (rev (d # ds))
      = (unat res + 58 ^ j * d) + 58 ^ (Suc j) * of_digits 58 (rev ds)"
    by (simp add: algebra_simps)
  show ?case
  proof (cases "unat res + 58 ^ j * d < 2 ^ 64")
    case True
    then have hi: "hi = 0" "unat lo = 58 ^ j * d" using product_fits [OF prod] by simp_all
    have tmp: "unat (res + lo) = unat res + 58 ^ j * d"
      using True hi(2) unat_add_lem [of res lo] by simp
    have nowrap: "\<not> res + lo < res" using True hi(2) add_wraps_iff [of lo res] by (simp add: add.commute)
    have "unat (order * word_of_nat alphabet_size) = 58 ^ Suc j mod 2 ^ 64"
      using unat_word_ariths(2) [of order "word_of_nat alphabet_size"] order
      by (simp add: alphabet_word mult.commute)
    from Cons.IH [OF _ _ this, of "res + lo"] Cons.prems
    have "decode_block_loop (map (\<lambda>d. alphabet ! d) ds) (res + lo) (order * word_of_nat alphabet_size) =
      (if unat res + 58 ^ j * d + 58 ^ Suc j * of_digits 58 (rev ds) < 2 ^ 64
       then Some (word_of_nat (unat res + 58 ^ j * d + 58 ^ Suc j * of_digits 58 (rev ds))) else None)"
      unfolding tmp by simp
    moreover have "decode_block_loop (map (\<lambda>d. alphabet ! d) (d # ds)) res order
      = decode_block_loop (map (\<lambda>d. alphabet ! d) ds) (res + lo) (order * word_of_nat alphabet_size)"
      using d P hi(1) nowrap by simp
    ultimately show ?thesis unfolding split by (simp only:)
  next
    case False
    have "res + lo < res \<or> hi \<noteq> 0"
    proof (rule ccontr)
      assume "\<not> (res + lo < res \<or> hi \<noteq> 0)"
      with prod False add_wraps_iff [of lo res] show False by (simp add: add.commute)
    qed
    then have "decode_block_loop (map (\<lambda>d. alphabet ! d) (d # ds)) res order = None"
      using d P by auto
    with False show ?thesis unfolding split by simp
  qed
qed

lemma decode_block_loop_Some:
  "decode_block_loop cs res order = Some r \<Longrightarrow> \<exists>ds. cs = map (\<lambda>d. alphabet ! d) ds \<and> (\<forall>d \<in> set ds. d < 58)"
proof (induction cs arbitrary: res order)
  case (Cons c cs)
  then have c: "0 \<le> reverse_alphabet c" by (auto simp: Let_def split: if_splits)
  from Cons obtain ds where "cs = map (\<lambda>d. alphabet ! d) ds" "\<forall>d \<in> set ds. d < 58"
    by (auto simp: Let_def split: if_splits prod.splits)
  with alphabet_reverse [OF c] show ?case
    by (intro exI [of _ "nat (reverse_alphabet c) # ds"]) simp
qed simp


section \<open>Blocks of bytes\<close>

lemma shift_in_byte:
  assumes "unat (res :: u64) < 2 ^ 56"
  shows "unat (push_bit 8 res OR ucast (b :: u8)) = unat res * 256 + unat b"
proof -
  have b: "unat (ucast b :: u64) = unat b" by (simp add: unat_ucast_up)
  have r: "unat res < 72057594037927936" using assms by simp
  have "unat b < 256" by simp
  with r have "unat b + unat res * 256 < 18446744073709551616" by linarith
  then have "unat (ucast b OR push_bit 8 res) = unat (ucast b :: u64) + unat res * 2 ^ 8"
    by (intro unat_or_push_bit) (use b in simp_all)
  then show ?thesis using b by (simp add: or.commute)
qed

lemma unat_foldl_bytes:
  assumes "unat (res :: u64) < 256 ^ m" and "m + length (bs :: bytes) \<le> 8"
  shows "unat (foldl (\<lambda>res b. push_bit 8 res OR ucast b) res bs)
    = foldl (\<lambda>a d. a * 256 + d) (unat res) (map unat bs)"
  using assms
proof (induction bs arbitrary: res m)
  case (Cons b bs)
  have "(256 :: nat) ^ m \<le> 256 ^ 7" using Cons.prems(2) by (intro power_increasing) simp_all
  then have "unat res < 2 ^ 56" using Cons.prems(1) by simp
  note s = shift_in_byte [OF this, of b]
  have "unat b + 256 * unat res < 256 * 256 ^ m"
    using nat_shift_less [of "unat b" 256 "unat res" "256 ^ m"] Cons.prems(1) by simp
  then have "unat res * 256 + unat b < 256 ^ Suc m" by (simp add: mult.commute)
  then show ?case using Cons.IH [of "push_bit 8 res OR ucast b" "Suc m"] Cons.prems(2) s by simp
qed simp

lemma byte_value_less: "byte_value bs < 256 ^ length bs"
  using of_digits_less [of "map unat bs" 256] by (simp add: byte_value_def)

lemma uint_8be_to_64_value:
  assumes "1 \<le> length bs" and "length bs \<le> 8"
  obtains num where "uint_8be_to_64 bs = Some num" "unat num = byte_value bs"
  using assms unat_foldl_bytes [of 0 0 bs] that
  by (auto simp: uint_8be_to_64_def byte_value_def of_digits_def)

lemma uint_64_to_8be_digits:
  assumes "1 \<le> s" and "s \<le> 8"
  shows "uint_64_to_8be num s = Some (map word_of_nat (digits 256 s (unat num)))"
proof -
  have "[7, 6, 5, 4, 3, 2, 1, 0] = rev [0..<8]" by (simp add: upt_rec)
  then have A: "drop (8 - s) [7, 6, 5, 4, 3, 2, 1, 0] = rev [0..<s]"
    using assms by (simp add: drop_rev take_upt)
  have B: "ucast (drop_bit (8 * i) num) = (word_of_nat (unat num div 256 ^ i mod 256) :: u8)" for i
  proof -
    have p: "(256 :: nat) ^ i = 2 ^ (8 * i)" by (simp add: power_mult)
    have "unat (ucast (drop_bit (8 * i) num) :: u8) = unat num div 256 ^ i mod 256"
      unfolding unat_ucast unat_drop_bit p by simp
    moreover have "unat (word_of_nat (unat num div 256 ^ i mod 256) :: u8) = unat num div 256 ^ i mod 256"
      by (rule unat_word_of_nat) simp
    ultimately show ?thesis by (simp only: word_unat_eq_iff)
  qed
  show ?thesis
    unfolding uint_64_to_8be_def drop_map A digits_nth map_map comp_def B using assms by simp
qed

lemma bytes_of_value: "map word_of_nat (digits 256 (length bs) (byte_value bs)) = bs"
  using digits_of_digits [of "map unat bs" 256] by (simp add: byte_value_def comp_def)

lemma value_of_bytes:
  assumes "n < 256 ^ s"
  shows "byte_value (map word_of_nat (digits 256 s n)) = n"
proof -
  have "map unat (map (word_of_nat :: nat \<Rightarrow> u8) (digits 256 s n)) = digits 256 s n"
    by (rule nth_equalityI) (auto intro!: unat_word_of_nat digits_less [of 256 _ s n, simplified])
  then show ?thesis using assms unfolding byte_value_def by (simp only: of_digits_digits mod_less)
qed

lemma decoded_block_sizes_data_eq [code]: "decoded_block_sizes_data = [0, -1, 1, 2, -1, 3, 4, 5, -1, 6, 7, 8]"
  by code_simp

lemmas block_size_defs = encoded_block_sizes_def decoded_block_sizes_def decoded_block_sizes_data_eq
  full_block_size_def full_encoded_block_size_def

lemma block_sizes_list:
  "list_all (\<lambda>s. 256 ^ s \<le> (58 :: nat) ^ (encoded_block_sizes ! s) \<and> encoded_block_sizes ! s \<le> 11
     \<and> decoded_block_sizes (encoded_block_sizes ! s) = Some (int s)) [0..<9]"
  "list_all (\<lambda>n. case decoded_block_sizes n of None \<Rightarrow> False
     | Some r \<Rightarrow> -1 \<le> r \<and> r \<le> 8 \<and> (0 \<le> r \<longrightarrow> encoded_block_sizes ! nat r = n)) [0..<12]"
  by (simp_all add: upt_rec block_size_defs)

lemma block_sizes:
  assumes "s \<le> 8"
  shows "256 ^ s \<le> (58 :: nat) ^ (encoded_block_sizes ! s)" "encoded_block_sizes ! s \<le> 11"
    "decoded_block_sizes (encoded_block_sizes ! s) = Some (int s)"
  using block_sizes_list(1) assms by (simp_all add: list_all_iff less_Suc_eq_le)

lemma decoded_block_size_cases:
  assumes "n \<le> 11"
  obtains "decoded_block_sizes n = Some (-1)"
    | s where "s \<le> 8" "decoded_block_sizes n = Some (int s)" "encoded_block_sizes ! s = n"
proof -
  have "n \<in> set [0..<12]" using assms by auto
  with block_sizes_list(2) have "case decoded_block_sizes n of None \<Rightarrow> False
      | Some r \<Rightarrow> -1 \<le> r \<and> r \<le> 8 \<and> (0 \<le> r \<longrightarrow> encoded_block_sizes ! nat r = n)"
    by (simp only: list_all_iff)
  then obtain r where r: "decoded_block_sizes n = Some r" "-1 \<le> r" "r \<le> 8" "0 \<le> r \<longrightarrow> encoded_block_sizes ! nat r = n"
    by (auto split: option.splits)
  show ?thesis
  proof (cases "r = -1")
    case True
    with r that(1) show ?thesis by simp
  next
    case False
    with r that(2) [of "nat r"] show ?thesis by simp
  qed
qed

lemma encoded_pos: "1 \<le> s \<Longrightarrow> s \<le> 8 \<Longrightarrow> 1 \<le> encoded_block_sizes ! s"
  using block_sizes(3) [of s] block_sizes(3) [of 0]
  by (cases "encoded_block_sizes ! s") (simp_all add: encoded_block_sizes_def)

lemma full_sizes [simp]: "full_block_size = 8" "full_encoded_block_size = 11"
  by (simp_all add: block_size_defs)

lemma encode_block_value:
  assumes "1 \<le> length b" and "length b \<le> 8"
  shows "encode_block b (replicate (encoded_block_sizes ! length b) (alphabet ! 0))
    = Some (map (\<lambda>d. alphabet ! d)
        (digits 58 (encoded_block_sizes ! length b) (byte_value (asBinaryArray b))))"
proof -
  obtain num where num: "uint_8be_to_64 (asBinaryArray b) = Some num"
      "unat num = byte_value (asBinaryArray b)"
    by (rule uint_8be_to_64_value [of "asBinaryArray b"]) (use assms in simp_all)
  have "unat num < 58 ^ (encoded_block_sizes ! length b)"
    using byte_value_less [of "asBinaryArray b"] block_sizes(1) [OF assms(2)] num(2) by simp
  from encode_block_loop_digits [OF this, of "[]"] show ?thesis
    using assms num by (simp add: encode_block_def)
qed

lemma decode_block_value:
  assumes ds: "\<forall>d \<in> set ds. d < 58" and s: "1 \<le> s" "s \<le> 8" and len: "length ds = encoded_block_sizes ! s"
  shows "decode_block (map (\<lambda>d. alphabet ! d) ds) = Some
    (if of_digits 58 ds < 256 ^ s
     then Some (asString (map word_of_nat (digits 256 s (of_digits 58 ds)))) else None)"
proof -
  let ?V = "of_digits 58 ds"
  have loop: "decode_block_loop (rev (map (\<lambda>d. alphabet ! d) ds)) 0 1
      = (if ?V < 2 ^ 64 then Some (word_of_nat ?V) else None)"
    using decode_block_loop_digits [of "rev ds" 0 1 0] ds len block_sizes(2) [OF s(2)] by (simp add: rev_map)
  have len': "1 \<le> length ds" "length ds \<le> 11" "decoded_block_sizes (length ds) = Some (int s)"
    using len encoded_pos [OF s] block_sizes [OF s(2)] by simp_all
  have p: "(256 :: nat) ^ s = 2 ^ (8 * s)" by (simp add: power_mult)
  have s64: "(2 :: nat) ^ (8 * s) \<le> 2 ^ 64" using s by (intro power_increasing) simp_all
  show ?thesis
  proof (cases "?V < 2 ^ 64")
    case True
    then have V: "unat (word_of_nat ?V :: u64) = ?V" by (intro unat_word_of_nat) simp
    have guard: "(s < 8 \<and> push_bit (8 * s) (1 :: u64) \<le> word_of_nat ?V) \<longleftrightarrow> \<not> ?V < 2 ^ (8 * s)"
    proof (cases "s < 8")
      case True
      then have "(2 :: nat) ^ (8 * s) < 2 ^ 64" by (intro power_strict_increasing) simp_all
      then have "unat (push_bit (8 * s) (1 :: u64)) = 2 ^ (8 * s)" unfolding unat_push_bit by simp
      then show ?thesis using True unfolding word_le_nat_alt V by (simp add: not_less)
    next
      case False
      with s have "s = 8" by simp
      then show ?thesis using \<open>?V < 2 ^ 64\<close> by simp
    qed
    have "decode_block (map (\<lambda>d. alphabet ! d) ds) =
      (if s < 8 \<and> push_bit (8 * s) (1 :: u64) \<le> word_of_nat ?V then Some None
       else Option.bind (uint_64_to_8be (word_of_nat ?V) s) (\<lambda>res. Some (Some (asString res))))"
      using len' s loop True by (simp add: decode_block_def)
    then show ?thesis
      unfolding guard p uint_64_to_8be_digits [OF s] V by simp
  next
    case False
    then show ?thesis using len' s loop s64 unfolding decode_block_def p by simp
  qed
qed

lemma decode_encode_block:
  assumes b: "1 \<le> length b" "length b \<le> 8"
    and e: "encode_block b (replicate (encoded_block_sizes ! length b) (alphabet ! 0)) = Some enc"
  shows "decode_block enc = Some (Some b)" and "length enc = encoded_block_sizes ! length b"
proof -
  let ?v = "byte_value (asBinaryArray b)" and ?e = "encoded_block_sizes ! length b"
  have enc: "enc = map (\<lambda>d. alphabet ! d) (digits 58 ?e ?v)" using encode_block_value [OF b] e by simp
  then show "length enc = ?e" by simp
  have v: "?v < 256 ^ length b" using byte_value_less [of "asBinaryArray b"] by simp
  with block_sizes(1) [OF b(2)] have "of_digits 58 (digits 58 ?e ?v) = ?v" by (simp add: of_digits_digits)
  moreover have "\<forall>d \<in> set (digits 58 ?e ?v). d < 58" by (auto intro: digits_less)
  ultimately show "decode_block enc = Some (Some b)"
    using decode_block_value [of "digits 58 ?e ?v" "length b"] b v bytes_of_value [of "asBinaryArray b"]
    by (simp add: enc)
qed

lemma encode_decode_block:
  assumes d: "decode_block enc = Some (Some b)"
  shows "1 \<le> length b" "length b \<le> 8" "length enc = encoded_block_sizes ! length b"
    "encode_block b (replicate (encoded_block_sizes ! length b) (alphabet ! 0)) = Some enc"
proof -
  have len: "1 \<le> length enc" "length enc \<le> 11" using d by (auto simp: decode_block_def split: if_splits)
  obtain s where s: "1 \<le> s" "s \<le> 8" "encoded_block_sizes ! s = length enc"
  proof (rule decoded_block_size_cases [OF len(2)])
    assume "decoded_block_sizes (length enc) = Some (-1)"
    with d len show ?thesis by (simp add: decode_block_def)
  next
    fix s assume "s \<le> 8" "decoded_block_sizes (length enc) = Some (int s)" "encoded_block_sizes ! s = length enc"
    with d len that [of s] show ?thesis by (cases s) (simp_all add: decode_block_def)
  qed
  have "decode_block_loop (rev enc) 0 1 \<noteq> None"
    using d len
    by (cases "decode_block_loop (rev enc) 0 1") (auto simp: decode_block_def split: if_splits Option.bind_splits)
  then obtain ds where "rev enc = map (\<lambda>d. alphabet ! d) ds" "\<forall>d \<in> set ds. d < 58"
    using decode_block_loop_Some by blast
  then have "rev (rev enc) = map (\<lambda>d. alphabet ! d) (rev ds)" by (simp only: rev_map)
  then have e: "enc = map (\<lambda>d. alphabet ! d) (rev ds)" by simp
  let ?V = "of_digits 58 (rev ds)"
  have ds: "\<forall>d \<in> set (rev ds). d < 58" "length (rev ds) = encoded_block_sizes ! s"
    using \<open>\<forall>d \<in> set ds. d < 58\<close> e s(3) by simp_all
  from decode_block_value [OF ds(1) s(1,2) ds(2)] d
  have V: "?V < 256 ^ s" and b: "b = asString (map word_of_nat (digits 256 s ?V))"
    by (auto simp: e split: if_splits)
  show "1 \<le> length b" "length b \<le> 8" "length enc = encoded_block_sizes ! length b" using b s by simp_all
  have "byte_value (asBinaryArray b) = ?V" unfolding b by (simp add: value_of_bytes [OF V])
  then show "encode_block b (replicate (encoded_block_sizes ! length b) (alphabet ! 0)) = Some enc"
    using encode_block_value [of b] digits_of_digits [OF ds(1)] ds(2) s b e by simp
qed

lemma decode_block_total: "1 \<le> length enc \<Longrightarrow> length enc \<le> 11 \<Longrightarrow> decode_block enc \<noteq> None"
  by (rule decoded_block_size_cases [of "length enc"])
     (auto simp: decode_block_def uint_64_to_8be_digits Suc_le_eq split: option.splits)


section \<open>Whole strings\<close>

lemma decode_encode_blocks:
  assumes "length data = 8 * n + r" and "r < 8"
  shows "\<exists>enc. encode_blocks n data = Some enc \<and> length enc = 11 * n + encoded_block_sizes ! r
    \<and> decode_blocks n enc = Some (Some data)"
  using assms
proof (induction n arbitrary: data)
  case 0
  show ?case
  proof (cases "r = 0")
    case True
    with 0 show ?thesis by (simp add: encoded_block_sizes_def)
  next
    case False
    with 0 have b: "1 \<le> length data" "length data \<le> 8" by simp_all
    obtain enc where e: "encode_block data (replicate (encoded_block_sizes ! length data) (alphabet ! 0)) = Some enc"
      using encode_block_value [OF b] by simp
    with decode_encode_block [OF b e] encoded_pos [OF b] b 0 show ?thesis by auto
  qed
next
  case (Suc n)
  let ?b = "take 8 data"
  have b: "1 \<le> length ?b" "length ?b \<le> 8" and full: "encoded_block_sizes ! length ?b = 11"
    using Suc.prems by (simp_all add: encoded_block_sizes_def)
  obtain e where e: "encode_block ?b (replicate (encoded_block_sizes ! length ?b) (alphabet ! 0)) = Some e"
    using encode_block_value [OF b] by simp
  note de = decode_encode_block [OF b e]
  obtain es where es: "encode_blocks n (drop 8 data) = Some es" "length es = 11 * n + encoded_block_sizes ! r"
      "decode_blocks n es = Some (Some (drop 8 data))"
    using Suc.IH [of "drop 8 data"] Suc.prems by auto
  show ?case using e es de full by simp
qed

lemma encode_decode_blocks:
  assumes "decode_blocks n enc = Some (Some data)" and "length enc = 11 * n + r" and "r < 11"
  shows "encode_blocks n data = Some enc \<and> (\<exists>k. length data = 8 * n + k \<and> k < 8)"
  using assms
proof (induction n arbitrary: enc data)
  case 0
  show ?case
  proof (cases "enc = []")
    case True
    with 0 show ?thesis by simp
  next
    case False
    with "0.prems"(1) have "decode_block enc = Some (Some data)" by simp
    note ed = encode_decode_block [OF this]
    have "length data \<noteq> 8" using ed(3) 0 by (auto simp: encoded_block_sizes_def)
    with ed show ?thesis by auto
  qed
next
  case (Suc n)
  from Suc.prems(1) obtain b rest where b: "decode_block (take 11 enc) = Some (Some b)"
      and rest: "decode_blocks n (drop 11 enc) = Some (Some rest)" and data: "data = b @ rest"
    by (auto split: Option.bind_splits option.splits)
  note ed = encode_decode_block [OF b]
  have "length (take 11 enc) = 11" using Suc.prems by simp
  with ed(3) have "encoded_block_sizes ! length b = 11" by simp
  with block_sizes(3) [OF ed(2)] block_sizes(3) [of 8]
  have "int (length b) = 8" by (simp add: encoded_block_sizes_def)
  then have b8: "length b = 8" by simp
  with Suc.IH [OF rest] Suc.prems(2,3) ed data show ?case by (simp add: encoded_block_sizes_def)
qed

lemma decode_blocks_total:
  "length enc = 11 * n + r \<Longrightarrow> r < 11 \<Longrightarrow> decode_blocks n enc \<noteq> None"
proof (induction n arbitrary: enc)
  case 0
  then show ?case using decode_block_total [of enc] by (cases enc) auto
next
  case (Suc n)
  have "decode_block (take 11 enc) \<noteq> None" by (rule decode_block_total) (use Suc.prems in simp_all)
  moreover have "decode_blocks n (drop 11 enc) \<noteq> None" using Suc by simp
  ultimately show ?case by (auto split: option.splits)
qed

lemma encode_total: "\<exists>enc. encode data = Some enc \<and> decode enc = Some (Some data)"
proof (cases "data = []")
  case True
  then show ?thesis by (simp add: encode_def decode_def)
next
  case False
  let ?r = "length data mod 8"
  obtain enc where enc: "encode_blocks (length data div 8) data = Some enc"
      "length enc = 11 * (length data div 8) + encoded_block_sizes ! ?r"
      "decode_blocks (length data div 8) enc = Some (Some data)"
    using decode_encode_blocks [of data "length data div 8" ?r] by auto
  have r8: "?r < 8" by simp
  then have "encoded_block_sizes ! ?r < 11"
    using block_sizes(2,3) [of ?r] block_sizes(3) [of 8]
    by (cases "encoded_block_sizes ! ?r = 11") (simp_all add: encoded_block_sizes_def)
  with enc(2) have q: "length enc div 11 = length data div 8" "length enc mod 11 = encoded_block_sizes ! ?r"
    by simp_all
  have "enc \<noteq> []"
  proof
    assume "enc = []"
    with enc(3) q False show False by simp
  qed
  with enc q block_sizes(3) [of ?r] r8 False show ?thesis by (simp add: encode_def decode_def)
qed

lemma decode_total: "decode enc \<noteq> None"
proof -
  have "length enc mod 11 \<le> 11" by (simp add: less_imp_le)
  then show ?thesis
  proof (rule decoded_block_size_cases)
    assume "decoded_block_sizes (length enc mod 11) = Some (-1)"
    then show ?thesis by (simp add: decode_def)
  next
    fix s assume "decoded_block_sizes (length enc mod 11) = Some (int s)"
    then show ?thesis
      using decode_blocks_total [of enc "length enc div 11" "length enc mod 11"] by (simp add: decode_def)
  qed
qed

lemma encode_decode: "decode enc = Some (Some data) \<Longrightarrow> encode data = Some enc"
proof (cases "enc = []")
  case False
  assume "decode enc = Some (Some data)"
  with False have d: "decode_blocks (length enc div 11) enc = Some (Some data)"
    by (auto simp: decode_def Let_def split: Option.bind_splits if_splits)
  from encode_decode_blocks [OF d, of "length enc mod 11"]
  obtain k where e: "encode_blocks (length enc div 11) data = Some enc" "length data = 8 * (length enc div 11) + k" "k < 8"
    by auto
  then have "data \<noteq> []" using False by (cases "length enc div 11") auto
  with e show ?thesis by (simp add: encode_def)
qed (simp add: decode_def encode_def)


section \<open>Addresses\<close>

lemma read_tag_write: "read_tag (write_varint tag @ rest) = Some (tag, rest)"
  using write_varint_nonempty [of tag] by (simp add: read_tag_def read_varint_write)

lemma read_tag_canonical:
  assumes "read_tag bs = Some (tag, rest)" and "rest \<noteq> []"
  shows "write_varint tag @ rest = bs"
proof -
  obtain k where k: "read_varint bs = (k, tag)" "0 < k" "rest = drop (nat k) bs"
    using assms(1) by (auto simp: read_tag_def split: prod.splits if_splits)
  with assms(2) have "nat k < length bs" by (simp add: not_le)
  then have "write_varint tag = take (nat k) bs"
    using k read_varint_stops [OF k(1,2)] by (intro read_canonical) simp_all
  with k(3) show ?thesis by simp
qed

lemma decode_addr_encode_addr:
  assumes "4 \<le> length (cn_fast_hash (asBinaryArray (asString (write_varint tag) @ data)))"
  shows "\<exists>addr. encode_addr cn_fast_hash tag data = Some addr
    \<and> decode_addr cn_fast_hash addr = Some (Some (tag, data))"
proof -
  let ?buf = "asString (write_varint tag) @ data"
  let ?sum = "asString (take 4 (cn_fast_hash (asBinaryArray ?buf)))"
  obtain addr where a: "encode (?buf @ ?sum) = Some addr" "decode addr = Some (Some (?buf @ ?sum))"
    using encode_total by blast
  have "length ?sum = 4" "?buf \<noteq> []" using assms write_varint_nonempty [of tag] by (simp_all add: asString_def)
  then show ?thesis
    using a read_tag_write [of tag "asBinaryArray data"]
    by (simp add: encode_addr_def decode_addr_def addr_checksum_size_def write_varint_nonempty)
qed

lemma encode_addr_decode_addr:
  assumes "decode_addr cn_fast_hash addr = Some (Some (tag, data))" and "data \<noteq> []"
  shows "encode_addr cn_fast_hash tag data = Some addr"
proof -
  obtain raw where raw: "decode addr = Some (Some raw)"
    using assms(1) by (auto simp: decode_addr_def split: Option.bind_splits option.splits)
  define T where T: "T = take (length raw - 4) raw"
  let ?sum = "asString (take 4 (cn_fast_hash (asBinaryArray T)))"
  have len: "4 < length raw" and sum: "?sum = drop (length raw - 4) raw"
    and tag: "read_tag (asBinaryArray T) = Some (tag, asBinaryArray data)"
    using assms(1) raw
    by (auto simp: decode_addr_def addr_checksum_size_def T Let_def split: if_splits option.splits prod.splits)
  have "write_varint tag @ asBinaryArray data = asBinaryArray T"
    by (rule read_tag_canonical [OF tag]) (use assms(2) in \<open>simp add: asBinaryArray_def\<close>)
  then have buf: "asString (write_varint tag) @ data = T"
    by (metis asString_append asString_asBinaryArray)
  have "T @ ?sum = raw" unfolding sum by (simp add: T)
  then show ?thesis
    using encode_decode [OF raw] unfolding encode_addr_def Let_def buf addr_checksum_size_def by simp
qed


section \<open>Properties\<close>

text \<open>
  C20: Base58 is exact in both directions. \<open>encode\<close> never writes outside its buffer and \<open>decode\<close> never
  fails an assertion; and \<open>decode\<close> accepts a text with a given result exactly when \<open>encode\<close> produces
  that text from it, so every byte string has one Base58 form and no other text decodes to it.
\<close>

theorem base58_exact:
  "encode data \<noteq> None \<and> decode enc \<noteq> None
   \<and> (decode enc = Some (Some data) \<longleftrightarrow> encode data = Some enc)"
  using encode_total [of data] decode_total [of enc] encode_decode [of enc data] by auto

text \<open>
  Address round trip. Whatever checksum function is used, as long as it returns at least the four
  bytes taken from it, \<open>encode_addr\<close> succeeds and \<open>decode_addr\<close> of its result returns the tag and the
  data.
\<close>

lemma addr_round_trip:
  assumes "\<forall>bs. length (cn_fast_hash bs) = 32"
  shows "\<exists>addr. encode_addr cn_fast_hash tag data = Some addr
    \<and> decode_addr cn_fast_hash addr = Some (Some (tag, data))"
  using decode_addr_encode_addr [of cn_fast_hash tag data] assms by simp

lemma addr_round_trip_witness:
  "\<exists>addr. encode_addr (\<lambda>bs. take 32 (bs @ replicate 32 7)) 999730 ''abc'' = Some addr
    \<and> decode_addr (\<lambda>bs. take 32 (bs @ replicate 32 7)) addr = Some (Some (999730, ''abc''))"
  by (rule addr_round_trip) (simp add: min_def)

text \<open>
  C21: addresses are unique. A text that \<open>decode_addr\<close> accepts with non-empty data is the one
  \<open>encode_addr\<close> makes of the tag and data: no two texts are the same address, and every accepted text
  carries the checksum of its contents.
\<close>

theorem addr_unique:
  assumes "decode_addr cn_fast_hash addr = Some (Some (tag, data))" and "data \<noteq> []"
  shows "encode_addr cn_fast_hash tag data = Some addr"
  using assms by (rule encode_addr_decode_addr)

theorem addr_unique_witness:
  "encode_addr (\<lambda>_. replicate 32 7) 1 ''ab'' = Some ''142yWnrFE6''"
proof -
  have "decode_addr (\<lambda>_. replicate 32 7) ''142yWnrFE6'' = Some (Some (1, ''ab''))" by code_simp
  then show ?thesis by (rule addr_unique) simp
qed

end
