(* ===== verification/Errors.thy ===== *)
theory Errors
  imports Prelude
begin

text \<open>
  \<open>src/errors/Errors.h\<close>: the error codes of the wallet and the class \<open>Error\<close>, a code with an
  optional message. Comparison with a code looks at the code only.
\<close>

datatype ErrorCode =
    SUCCESS | FILENAME_NON_EXISTENT | INVALID_WALLET_FILENAME | NOT_A_WALLET_FILE
  | WALLET_FILE_CORRUPTED | WRONG_PASSWORD | UNSUPPORTED_WALLET_FILE_FORMAT_VERSION
  | INVALID_MNEMONIC | WALLET_FILE_ALREADY_EXISTS | WILL_OVERFLOW | ADDRESS_NOT_IN_WALLET
  | NOT_ENOUGH_BALANCE | ADDRESS_WRONG_LENGTH | ADDRESS_WRONG_PREFIX | ADDRESS_NOT_BASE58
  | ADDRESS_NOT_VALID | INTEGRATED_ADDRESS_PAYMENT_ID_INVALID | FEE_TOO_SMALL
  | NO_DESTINATIONS_GIVEN | AMOUNT_IS_ZERO | FAILED_TO_CREATE_RING_SIGNATURE | MIXIN_TOO_SMALL
  | MIXIN_TOO_BIG | PAYMENT_ID_WRONG_LENGTH | PAYMENT_ID_INVALID | ADDRESS_IS_INTEGRATED
  | CONFLICTING_PAYMENT_IDS | CANT_GET_FAKE_OUTPUTS | NOT_ENOUGH_FAKE_OUTPUTS
  | INVALID_GENERATED_KEYIMAGE | DAEMON_OFFLINE | DAEMON_ERROR | TOO_MANY_INPUTS_TO_FIT_IN_BLOCK
  | MNEMONIC_INVALID_WORD | MNEMONIC_WRONG_LENGTH | MNEMONIC_INVALID_CHECKSUM | FULLY_OPTIMIZED
  | FUSION_MIXIN_TOO_LARGE | SUBWALLET_ALREADY_EXISTS | ILLEGAL_VIEW_WALLET_OPERATION
  | ILLEGAL_NON_VIEW_WALLET_OPERATION | KEYS_NOT_DETERMINISTIC | CANNOT_DELETE_PRIMARY_ADDRESS
  | TX_PRIVATE_KEY_NOT_FOUND | AMOUNTS_NOT_PRETTY | UNEXPECTED_FEE | NEGATIVE_VALUE_GIVEN
  | INVALID_KEY_FORMAT | HASH_WRONG_LENGTH | HASH_INVALID | NON_INTEGER_GIVEN
  | INVALID_PUBLIC_KEY | INVALID_PRIVATE_KEY | INVALID_EXTRA_DATA | UNKNOWN_ERROR
  | DAEMON_STILL_PROCESSING | OUTPUT_DECOMPOSITION | API_BODY_REQUIRED
  | API_BLOCKEXPLORER_DISABLED | API_NODE_NOT_SYNCED | API_INVALID_ARGUMENT | API_INTERNAL_ERROR
  | API_TRANSACTION_POOL_INSERT_FAILED | API_BLOCK_NOT_ACCEPTED | API_HASH_NOT_FOUND

record Error =
  m_customMessage :: string
  m_errorCode :: ErrorCode

definition mkError :: "ErrorCode \<Rightarrow> Error" where
  "mkError code = \<lparr> m_customMessage = [], m_errorCode = code \<rparr>"

definition mkError_message :: "ErrorCode \<Rightarrow> string \<Rightarrow> Error" where
  "mkError_message code message = \<lparr> m_customMessage = message, m_errorCode = code \<rparr>"

definition is_error :: "Error \<Rightarrow> bool" where
  "is_error e \<longleftrightarrow> m_errorCode e \<noteq> SUCCESS"

abbreviation success :: Error where "success \<equiv> mkError SUCCESS"

lemma is_error_simps [simp]:
  "is_error (mkError c) \<longleftrightarrow> c \<noteq> SUCCESS" "is_error (mkError_message c m) \<longleftrightarrow> c \<noteq> SUCCESS"
  by (simp_all add: is_error_def mkError_def mkError_message_def)

lemma mkError_inject [simp]: "mkError c = mkError d \<longleftrightarrow> c = d"
  by (simp add: mkError_def)

lemma mkError_code [simp]: "m_errorCode (mkError c) = c" "m_errorCode (mkError_message c m) = c"
  by (simp_all add: mkError_def mkError_message_def)

end
