(* ===== verification/Addresses.thy ===== *)
theory Addresses
  imports Base58 TxExtra Utilities Errors
begin

text \<open>
  Addresses as the wallet handles them: \<open>src/utilities/Addresses.cpp\<close> and the part of
  \<open>src/errors/ValidateParameters.cpp\<close> that does not look into the wallet. The hash function
  \<open>cn_fast_hash\<close>, the curve test \<open>check_key\<close>, the scalar test \<open>sc_check\<close> and
  \<open>secret_key_to_public_key\<close> are arguments of the definitions that use them.

  The properties: an address made from two valid keys is accepted by the validation and gives
  the keys back, and an integrated address gives back the address and the payment id.
\<close>


section \<open>WalletConfig.h\<close>

definition addressPrefix :: string where "addressPrefix = ''dg''"
definition standardAddressLength :: nat where "standardAddressLength = 97"
definition integratedAddressLength :: nat where
  "integratedAddressLength = standardAddressLength + (64 * 11) div 8"

lemmas wallet_config = standardAddressLength_def integratedAddressLength_def


section \<open>Addresses.cpp\<close>

text \<open>
  \<open>decode_addr\<close> and \<open>encode_addr\<close> never leave their buffers (\<open>decode_addr_total\<close> and
  \<open>encode_addr_total\<close> below), so their callers see only the flag and the data.
\<close>

definition decode_address :: "(bytes \<Rightarrow> hash) \<Rightarrow> string \<Rightarrow> (u64 \<times> string) option" where
  "decode_address H addr = (case decode_addr H addr of None \<Rightarrow> None | Some r \<Rightarrow> r)"

definition encode_address :: "(bytes \<Rightarrow> hash) \<Rightarrow> u64 \<Rightarrow> string \<Rightarrow> string" where
  "encode_address H tag data = (case encode_addr H tag data of None \<Rightarrow> [] | Some addr \<Rightarrow> addr)"

text \<open>\<open>toBinaryArray(adr, ba)\<close>: the vector stays empty when the serializer throws.\<close>

definition address_bytes :: "AccountPublicAddress \<Rightarrow> bytes" where
  "address_bytes adr =
     (case toBinaryArray serialize_AccountPublicAddress adr of Inl _ \<Rightarrow> [] | Inr ba \<Rightarrow> ba)"

definition getAccountAddressAsStr :: "(bytes \<Rightarrow> hash) \<Rightarrow> u64 \<Rightarrow> AccountPublicAddress \<Rightarrow> string" where
  "getAccountAddressAsStr H prefix adr = encode_address H prefix (asString (address_bytes adr))"

definition parseAccountAddressString ::
  "(bytes \<Rightarrow> hash) \<Rightarrow> (public_key \<Rightarrow> bool) \<Rightarrow> string \<Rightarrow> (u64 \<times> AccountPublicAddress) option" where
  "parseAccountAddressString H check_key str =
     (case decode_address H str of None \<Rightarrow> None
      | Some (prefix, data) \<Rightarrow>
          (case fromBinaryArray deserialize_AccountPublicAddress (asBinaryArray data) of
             Inl _ \<Rightarrow> None
           | Inr adr \<Rightarrow>
               if check_key (spendPublicKey adr) \<and> check_key (viewPublicKey adr)
               then Some (prefix, adr) else None))"

definition addressToKeys ::
  "(bytes \<Rightarrow> hash) \<Rightarrow> (public_key \<Rightarrow> bool) \<Rightarrow> string \<Rightarrow> exc + public_key \<times> public_key" where
  "addressToKeys H check_key address =
     (case parseAccountAddressString H check_key address of
        None \<Rightarrow> Inl (InvalidArgument ''Address is not valid!'')
      | Some (prefix, parsedAddress) \<Rightarrow>
          if prefix \<noteq> CRYPTONOTE_PUBLIC_ADDRESS_BASE58_PREFIX
          then Inl (InvalidArgument ''Address is not valid!'')
          else Inr (spendPublicKey parsedAddress, viewPublicKey parsedAddress))"

fun addressesToSpendKeys ::
  "(bytes \<Rightarrow> hash) \<Rightarrow> (public_key \<Rightarrow> bool) \<Rightarrow> string list \<Rightarrow> exc + public_key list" where
  "addressesToSpendKeys H check_key [] = Inr []"
| "addressesToSpendKeys H check_key (address # addresses) =
     (case addressToKeys H check_key address of Inl e \<Rightarrow> Inl e
      | Inr (spendKey, viewKey) \<Rightarrow>
          (case addressesToSpendKeys H check_key addresses of Inl e \<Rightarrow> Inl e
           | Inr spendKeys \<Rightarrow> Inr (spendKey # spendKeys)))"

text \<open>
  \<open>decoded\<close> stays empty when the address is not decoded, and \<open>substr\<close> throws beyond the end.
  The result is \<open>None\<close> where the code goes on with keys that were never read.
\<close>

definition extractIntegratedAddressData ::
  "(bytes \<Rightarrow> hash) \<Rightarrow> string \<Rightarrow> (exc + string \<times> string) option" where
  "extractIntegratedAddressData H address =
     (let decoded = (case decode_address H address of None \<Rightarrow> [] | Some (_, data) \<Rightarrow> data);
          paymentIDLen = 64;
          paymentID = take paymentIDLen decoded
      in if length decoded < paymentIDLen then Some (Inl OutOfRange)
         else
           let keys' = drop paymentIDLen decoded;
               ba = asBinaryArray keys'
           in case fromBinaryArray deserialize_AccountPublicAddress ba of
                Inl _ \<Rightarrow> None
              | Inr addr \<Rightarrow>
                  Some (Inr (getAccountAddressAsStr H CRYPTONOTE_PUBLIC_ADDRESS_BASE58_PREFIX addr, paymentID)))"

definition publicKeysToAddress :: "(bytes \<Rightarrow> hash) \<Rightarrow> public_key \<Rightarrow> public_key \<Rightarrow> string" where
  "publicKeysToAddress H publicSpendKey publicViewKey =
     getAccountAddressAsStr H CRYPTONOTE_PUBLIC_ADDRESS_BASE58_PREFIX
       \<lparr> spendPublicKey = publicSpendKey, viewPublicKey = publicViewKey \<rparr>"

definition privateKeysToAddress ::
  "(bytes \<Rightarrow> hash) \<Rightarrow> (secret_key \<Rightarrow> public_key) \<Rightarrow> secret_key \<Rightarrow> secret_key \<Rightarrow> string" where
  "privateKeysToAddress H secret_key_to_public_key privateSpendKey privateViewKey =
     getAccountAddressAsStr H CRYPTONOTE_PUBLIC_ADDRESS_BASE58_PREFIX
       \<lparr> spendPublicKey = secret_key_to_public_key privateSpendKey,
         viewPublicKey = secret_key_to_public_key privateViewKey \<rparr>"


section \<open>ValidateParameters.cpp, without the wallet\<close>

text \<open>The regular expression \<open>[a-zA-Z0-9]{64}\<close>, matched against the whole text.\<close>

definition is_alnum :: "char \<Rightarrow> bool" where
  "is_alnum c \<longleftrightarrow> (let n = of_char c :: nat in
     (97 \<le> n \<and> n \<le> 122) \<or> (65 \<le> n \<and> n \<le> 90) \<or> (48 \<le> n \<and> n \<le> 57))"

definition hexRegex_match :: "string \<Rightarrow> bool" where
  "hexRegex_match s \<longleftrightarrow> length s = 64 \<and> list_all is_alnum s"

definition validateHash :: "string \<Rightarrow> Error" where
  "validateHash hash =
     (if length hash \<noteq> 64 then mkError HASH_WRONG_LENGTH
      else if \<not> hexRegex_match hash then mkError HASH_INVALID
      else success)"

definition validatePaymentID :: "string \<Rightarrow> Error" where
  "validatePaymentID paymentID =
     (if paymentID = [] then success
      else if length paymentID \<noteq> 64 then mkError PAYMENT_ID_WRONG_LENGTH
      else if \<not> hexRegex_match paymentID then mkError PAYMENT_ID_INVALID
      else success)"

definition validatePrivateKey :: "(secret_key \<Rightarrow> int) \<Rightarrow> secret_key \<Rightarrow> Error" where
  "validatePrivateKey sc_check privateViewKey =
     (if sc_check privateViewKey = 0 then success else mkError INVALID_PRIVATE_KEY)"

definition validatePublicKey :: "(public_key \<Rightarrow> bool) \<Rightarrow> public_key \<Rightarrow> Error" where
  "validatePublicKey check_key publicKey =
     (if check_key publicKey then success else mkError INVALID_PUBLIC_KEY)"

definition validateMixin :: "u64 \<Rightarrow> u64 \<Rightarrow> Error" where
  "validateMixin mixin height =
     (let (minMixin, maxMixin, defaultMixin) = getMixinAllowableRange height
      in if mixin < minMixin then
           mkError_message MIXIN_TOO_SMALL
             (''The mixin value given ('' @ to_string (unat mixin) @ '') is lower than the minimum mixin allowed (''
              @ to_string (unat minMixin) @ '')'')
         else if mixin > maxMixin then
           mkError_message MIXIN_TOO_BIG
             (''The mixin value given ('' @ to_string (unat mixin) @ '') is greater than the maximum mixin allowed (''
              @ to_string (unat maxMixin) @ '')'')
         else success)"

text \<open>One address of the loop in \<open>validateAddresses\<close>; \<open>substr\<close> may throw.\<close>

definition validateAddress ::
  "(bytes \<Rightarrow> hash) \<Rightarrow> (public_key \<Rightarrow> bool) \<Rightarrow> string \<Rightarrow> bool \<Rightarrow> exc + Error" where
  "validateAddress H check_key address integratedAddressesAllowed =
     (let check_standard = (\<lambda>address.
            case parseAccountAddressString H check_key address of
              None \<Rightarrow> Inr (mkError ADDRESS_NOT_VALID) | Some _ \<Rightarrow> Inr success)
      in if length address \<noteq> standardAddressLength \<and> length address \<noteq> integratedAddressLength then
           Inr (mkError_message ADDRESS_WRONG_LENGTH
             (''The address given is the wrong length. It should be '' @ to_string standardAddressLength
              @ '' chars or '' @ to_string integratedAddressLength @ '' chars, but it is ''
              @ to_string (length address) @ '' chars.''))
         else if take (length addressPrefix) address \<noteq> addressPrefix then Inr (mkError ADDRESS_WRONG_PREFIX)
         else if length address = integratedAddressLength then
           if \<not> integratedAddressesAllowed then
             Inr (mkError_message ADDRESS_IS_INTEGRATED
               (''The address given ('' @ address
                @ '') is an integrated address, but integrated addresses aren't valid for this parameter.''))
           else (case decode_address H address of
               None \<Rightarrow> Inr (mkError ADDRESS_NOT_BASE58)
             | Some (_, decoded) \<Rightarrow>
                 let paymentIDLen = 64;
                     paymentID = take paymentIDLen decoded
                 in if \<not> fst (createTxExtraWithPaymentId paymentID []) then
                      Inr (mkError INTEGRATED_ADDRESS_PAYMENT_ID_INVALID)
                    else if length decoded < paymentIDLen then Inl OutOfRange
                    else
                      let keys' = drop paymentIDLen decoded;
                          ba = asBinaryArray keys'
                      in (case fromBinaryArray deserialize_AccountPublicAddress ba of
                           Inl _ \<Rightarrow> Inr (mkError ADDRESS_NOT_VALID)
                         | Inr addr \<Rightarrow>
                             check_standard (getAccountAddressAsStr H CRYPTONOTE_PUBLIC_ADDRESS_BASE58_PREFIX addr)))
         else check_standard address)"

fun validateAddresses ::
  "(bytes \<Rightarrow> hash) \<Rightarrow> (public_key \<Rightarrow> bool) \<Rightarrow> string list \<Rightarrow> bool \<Rightarrow> exc + Error" where
  "validateAddresses H check_key [] integratedAddressesAllowed = Inr success"
| "validateAddresses H check_key (address # addresses) integratedAddressesAllowed =
     (case validateAddress H check_key address integratedAddressesAllowed of
        Inl e \<Rightarrow> Inl e
      | Inr error \<Rightarrow>
          if is_error error then Inr error
          else validateAddresses H check_key addresses integratedAddressesAllowed)"

text \<open>
  The loop that looks for a zero amount, and then the addresses.
\<close>

definition validateDestinations ::
  "(bytes \<Rightarrow> hash) \<Rightarrow> (public_key \<Rightarrow> bool) \<Rightarrow> (string \<times> u64) list \<Rightarrow> exc + Error" where
  "validateDestinations H check_key destinations =
     (if destinations = [] then Inr (mkError NO_DESTINATIONS_GIVEN)
      else if \<exists>d \<in> set destinations. snd d = 0 then Inr (mkError AMOUNT_IS_ZERO)
      else validateAddresses H check_key (map fst destinations) True)"

fun validateIntegratedAddresses ::
  "(bytes \<Rightarrow> hash) \<Rightarrow> (string \<times> u64) list \<Rightarrow> string \<Rightarrow> (exc + Error) option" where
  "validateIntegratedAddresses H [] paymentID = Some (Inr success)"
| "validateIntegratedAddresses H ((address, amt) # destinations) paymentID =
     (if length address \<noteq> integratedAddressLength then validateIntegratedAddresses H destinations paymentID
      else case extractIntegratedAddressData H address of
          None \<Rightarrow> None
        | Some (Inl e) \<Rightarrow> Some (Inl e)
        | Some (Inr (extractedAddress, extractedPaymentID)) \<Rightarrow>
            if paymentID = [] then validateIntegratedAddresses H destinations extractedPaymentID
            else if paymentID \<noteq> extractedPaymentID then Some (Inr (mkError CONFLICTING_PAYMENT_IDS))
            else validateIntegratedAddresses H destinations paymentID)"

text \<open>\<open>None\<close> is a use of keys that were never parsed.\<close>

definition createIntegratedAddress ::
  "(bytes \<Rightarrow> hash) \<Rightarrow> (public_key \<Rightarrow> bool) \<Rightarrow> string \<Rightarrow> string \<Rightarrow> (exc + Error \<times> string) option" where
  "createIntegratedAddress H check_key address paymentID =
     (let error = validatePaymentID paymentID
      in if is_error error then Some (Inr (error, []))
         else (case validateAddresses H check_key [address] False of
             Inl e \<Rightarrow> Some (Inl e)
           | Inr error \<Rightarrow>
               if is_error error then Some (Inr (error, []))
               else (case parseAccountAddressString H check_key address of
                   None \<Rightarrow> None
                 | Some (prefix, addr) \<Rightarrow>
                     Some (Inr (success,
                       encode_address H CRYPTONOTE_PUBLIC_ADDRESS_BASE58_PREFIX
                         (paymentID @ asString (address_bytes addr)))))))"


section \<open>Decoding and encoding are total\<close>

lemma decode_addr_total: "decode_addr H addr \<noteq> None"
  using decode_total [of addr]
  by (auto simp: decode_addr_def Let_def split: option.splits Option.bind_splits)

lemma encode_addr_total: "encode_addr H tag data \<noteq> None"
  by (metis encode_addr_def encode_total option.distinct(1))

lemma decode_encode_address:
  "4 \<le> length (H (asBinaryArray (asString (write_varint tag) @ data))) \<Longrightarrow>
     decode_address H (encode_address H tag data) = Some (tag, data)"
  using decode_addr_encode_addr [of H tag data]
  by (auto simp: decode_address_def encode_address_def)

lemma address_bytes_wf:
  "wf_address a \<Longrightarrow> address_bytes a = spendPublicKey a @ viewPublicKey a"
  by (simp add: address_bytes_def toBinaryArray_def serialize_AccountPublicAddress_def serialize_binary_def
      wf_address_def)

lemma read_address_bytes:
  "wf_address a \<Longrightarrow> fromBinaryArray deserialize_AccountPublicAddress (address_bytes a) = Inr a"
  using address.enc_dec [of a] address.binary_array_exact [of "address_bytes a" a]
  by (auto simp: address_bytes_def toBinaryArray_def)

lemma parse_standard:
  assumes "\<forall>bs. length (H bs) = 32" and "wf_address a"
  shows "parseAccountAddressString H check_key (getAccountAddressAsStr H prefix a)
    = (if check_key (spendPublicKey a) \<and> check_key (viewPublicKey a) then Some (prefix, a) else None)"
  using assms
  by (simp add: parseAccountAddressString_def getAccountAddressAsStr_def decode_encode_address read_address_bytes)


section \<open>The look of an address\<close>

lemma encode_length:
  assumes "encode data = Some enc" "data \<noteq> []"
  shows "length enc = 11 * (length data div 8) + encoded_block_sizes ! (length data mod 8)"
  using decode_encode_blocks [of data "length data div 8" "length data mod 8"] assms
  by (auto simp: encode_def)


lemma take_digits: "take k (digits B (k + m) n) = digits B k (n div B ^ m)"
proof (induction m arbitrary: n)
  case (Suc m)
  have "digits B (k + Suc m) n = digits B (k + m) (n div B) @ [n mod B]" by simp
  then show ?case using Suc [of "n div B"] by (simp add: div_mult2_eq)
qed simp

lemma byte_value_append: "byte_value (bs @ cs) = byte_value bs * 256 ^ length cs + byte_value cs"
proof (induction cs rule: rev_induct)
  case (snoc c cs)
  have last: "byte_value (xs @ [c]) = byte_value xs * 256 + unat c" for xs c
    by (simp add: byte_value_def)
  from last [of "bs @ cs" c] last [of cs c] snoc show ?case by (simp add: algebra_simps)
qed (simp add: byte_value_def)

lemma prefix_bytes: "write_varint CRYPTONOTE_PUBLIC_ADDRESS_BASE58_PREFIX = [0xDB, 0x41]"
  unfolding config by code_simp

text \<open>Every address with the prefix of the currency starts with \<open>dg\<close>.\<close>

lemma address_starts:
  assumes "8 \<le> length data" and "take 2 (asBinaryArray data) = [0xDB, 0x41]" and "encode data = Some enc"
  shows "take 2 enc = ''dg''"
proof -
  let ?b = "take 8 data"
  obtain n where n: "length data div 8 = Suc n" using assms(1) by (cases "length data div 8") auto
  have b: "1 \<le> length ?b" "length ?b \<le> 8" and l: "encoded_block_sizes ! 8 = 11" "length ?b = 8"
    using assms(1) by (simp_all add: encoded_block_sizes_def)
  obtain rest where "enc = map (\<lambda>d. alphabet ! d) (digits 58 11 (byte_value (asBinaryArray ?b))) @ rest"
    using assms(1,3) n encode_block_value [OF b, unfolded l] unfolding encode_def
    by (auto split: if_splits Option.bind_splits)
  then have e: "take 2 enc = map (\<lambda>d. alphabet ! d) (digits 58 2 (byte_value (asBinaryArray ?b) div 58 ^ 9))"
    using take_digits [of 2 58 9] by (simp add: take_map)
  define r where "r = drop 2 (asBinaryArray ?b)"
  have "asBinaryArray ?b = take 2 (asBinaryArray ?b) @ r" by (simp add: r_def)
  moreover have "take 2 (asBinaryArray ?b) = [0xDB, 0x41]" using assms(2) by (simp add: asBinaryArray_def take_map)
  moreover have "length r = 6" using l by (simp add: r_def)
  ultimately have "byte_value (asBinaryArray ?b) = 56129 * 256 ^ 6 + byte_value r"
    using byte_value_append [of "[0xDB, 0x41]" r] by (simp add: byte_value_def of_digits_def)
  moreover have "byte_value r < 256 ^ 6" using byte_value_less [of r] \<open>length r = 6\<close> by simp
  ultimately have "byte_value (asBinaryArray ?b) div 58 ^ 9 = 2127" by simp
  then show ?thesis using e by (simp add: alphabet_def numeral_2_eq_2)
qed

lemma encode_address_look:
  assumes "\<forall>bs. length (H bs) = 32" and "2 \<le> length data"
  shows "take (length addressPrefix) (encode_address H CRYPTONOTE_PUBLIC_ADDRESS_BASE58_PREFIX data) = addressPrefix"
    and "length (encode_address H CRYPTONOTE_PUBLIC_ADDRESS_BASE58_PREFIX data)
       = 11 * ((length data + 6) div 8) + encoded_block_sizes ! ((length data + 6) mod 8)"
proof -
  let ?buf = "asString [0xDB, 0x41] @ data"
  let ?raw = "?buf @ asString (take 4 (H (asBinaryArray ?buf)))"
  obtain enc where enc: "encode ?raw = Some enc" using encode_total by blast
  then have a: "encode_address H CRYPTONOTE_PUBLIC_ADDRESS_BASE58_PREFIX data = enc"
    by (simp add: encode_address_def encode_addr_def prefix_bytes addr_checksum_size_def)
  have l: "length ?raw = length data + 6" using assms(1) by simp
  show "take (length addressPrefix) (encode_address H CRYPTONOTE_PUBLIC_ADDRESS_BASE58_PREFIX data) = addressPrefix"
    using address_starts [OF _ _ enc] assms by (simp add: a addressPrefix_def numeral_2_eq_2)
  show "length (encode_address H CRYPTONOTE_PUBLIC_ADDRESS_BASE58_PREFIX data)
       = 11 * ((length data + 6) div 8) + encoded_block_sizes ! ((length data + 6) mod 8)"
    using encode_length [OF enc] assms(2) l a by (cases data) simp_all
qed


lemma standard_look:
  assumes "\<forall>bs. length (H bs) = 32" and "wf_address a"
  shows "take (length addressPrefix) (getAccountAddressAsStr H CRYPTONOTE_PUBLIC_ADDRESS_BASE58_PREFIX a) = addressPrefix"
    and "length (getAccountAddressAsStr H CRYPTONOTE_PUBLIC_ADDRESS_BASE58_PREFIX a) = standardAddressLength"
  using encode_address_look [OF assms(1), of "asString (address_bytes a)"] assms(2)
  by (simp_all add: getAccountAddressAsStr_def address_bytes_wf wf_address_def wallet_config
      encoded_block_sizes_def)

lemma integrated_look:
  assumes "\<forall>bs. length (H bs) = 32" and "wf_address a" and "length pid = 64"
  defines "ia \<equiv> encode_address H CRYPTONOTE_PUBLIC_ADDRESS_BASE58_PREFIX (pid @ asString (address_bytes a))"
  shows "take (length addressPrefix) ia = addressPrefix" and "length ia = integratedAddressLength"
    and "decode_address H ia = Some (CRYPTONOTE_PUBLIC_ADDRESS_BASE58_PREFIX, pid @ asString (address_bytes a))"
  using encode_address_look [OF assms(1), of "pid @ asString (address_bytes a)"] assms(1-3)
  by (simp_all add: ia_def address_bytes_wf wf_address_def wallet_config encoded_block_sizes_def
      decode_encode_address)

lemma validate_standard:
  assumes "\<forall>bs. length (H bs) = 32" and "wf_address a"
    and "check_key (spendPublicKey a)" and "check_key (viewPublicKey a)"
  shows "validateAddresses H check_key [getAccountAddressAsStr H CRYPTONOTE_PUBLIC_ADDRESS_BASE58_PREFIX a] b
    = Inr success"
  using standard_look [OF assms(1,2)] parse_standard [OF assms(1,2)] assms(3,4)
  by (simp add: validateAddress_def wallet_config)

lemma validate_integrated:
  assumes "\<forall>bs. length (H bs) = 32" and "wf_address a" and "length pid = 64"
    and "check_key (spendPublicKey a)" and "check_key (viewPublicKey a)"
  shows "validateAddresses H check_key
      [encode_address H CRYPTONOTE_PUBLIC_ADDRESS_BASE58_PREFIX (pid @ asString (address_bytes a))] True
    = Inr (if fst (createTxExtraWithPaymentId pid []) then success
           else mkError INTEGRATED_ADDRESS_PAYMENT_ID_INVALID)"
  using integrated_look [OF assms(1-3)] parse_standard [OF assms(1,2)] assms(3-5) read_address_bytes [OF assms(2)]
  by (simp add: validateAddress_def wallet_config)

lemma createIntegratedAddress_eq:
  assumes "\<forall>bs. length (H bs) = 32" and "wf_address a" and "hexRegex_match pid"
    and "check_key (spendPublicKey a)" and "check_key (viewPublicKey a)"
  shows "createIntegratedAddress H check_key (getAccountAddressAsStr H CRYPTONOTE_PUBLIC_ADDRESS_BASE58_PREFIX a) pid
    = Some (Inr (success,
        encode_address H CRYPTONOTE_PUBLIC_ADDRESS_BASE58_PREFIX (pid @ asString (address_bytes a))))"
  using validate_standard [OF assms(1,2,4,5), of False] parse_standard [OF assms(1,2), of check_key] assms(3-5)
  by (simp add: createIntegratedAddress_def validatePaymentID_def hexRegex_match_def)

lemma extract_integrated:
  assumes "\<forall>bs. length (H bs) = 32" and "wf_address a" and "length pid = 64"
  shows "extractIntegratedAddressData H
      (encode_address H CRYPTONOTE_PUBLIC_ADDRESS_BASE58_PREFIX (pid @ asString (address_bytes a)))
    = Some (Inr (getAccountAddressAsStr H CRYPTONOTE_PUBLIC_ADDRESS_BASE58_PREFIX a, pid))"
  using integrated_look(3) [OF assms] assms(3) read_address_bytes [OF assms(2)]
  by (simp add: extractIntegratedAddressData_def)

lemma toHex_digits: "set (toHex d) \<subseteq> set hexDigits"
proof (induction d)
  case (Cons b d)
  have "unat (drop_bit 4 b) < 16" "unat (b AND 15) < 16"
    using unat_take_bit [of 4 b] less_mult_imp_div_less [of "unat b" 16 16]
    by (simp_all add: unat_drop_bit take_bit_eq_mask mask_eq_exp_minus_1)
  then show ?case using Cons nth_mem [of _ hexDigits] by (simp add: toHex_simps hexDigits_def)
qed (simp add: toHex_simps)

lemma hex_payment_id:
  assumes "length d = 32"
  shows "hexRegex_match (toHex d)" "fst (createTxExtraWithPaymentId (toHex d) [])"
proof -
  have "list_all is_alnum hexDigits" by code_simp
  then show "hexRegex_match (toHex d)"
    using assms toHex_digits [of d] by (auto simp: hexRegex_match_def list_all_iff)
  show "fst (createTxExtraWithPaymentId (toHex d) [])"
    using podFromHex_toHex [OF assms] assms
    by (simp add: createTxExtraWithPaymentId_def parsePaymentId_def addExtraNonceToTransactionExtra_def
        setPaymentIdToTransactionExtraNonce_def extra_tags)
qed


section \<open>Properties\<close>

text \<open>
  C30: The address made from two keys on the curve passes \<open>validateAddresses\<close> (its length and its
  first two letters are always the expected ones), and \<open>addressToKeys\<close> returns the two keys.
\<close>

theorem own_address_accepted:
  assumes "\<forall>bs. length (H bs) = 32" and "length s = 32" and "length v = 32"
    and "check_key s" and "check_key v"
  shows "validateAddresses H check_key [publicKeysToAddress H s v] b = Inr success
    \<and> addressToKeys H check_key (publicKeysToAddress H s v) = Inr (s, v)"
  using validate_standard [of H "\<lparr> spendPublicKey = s, viewPublicKey = v \<rparr>" check_key b]
    parse_standard [of H "\<lparr> spendPublicKey = s, viewPublicKey = v \<rparr>" check_key] assms
  by (simp add: publicKeysToAddress_def addressToKeys_def wf_address_def)

theorem own_address_accepted_witness:
  "validateAddresses (\<lambda>bs. take 32 (bs @ replicate 32 7)) (\<lambda>_. True)
      [publicKeysToAddress (\<lambda>bs. take 32 (bs @ replicate 32 7)) (replicate 32 1) (replicate 32 2)] False
    = Inr success
   \<and> addressToKeys (\<lambda>bs. take 32 (bs @ replicate 32 7)) (\<lambda>_. True)
      (publicKeysToAddress (\<lambda>bs. take 32 (bs @ replicate 32 7)) (replicate 32 1) (replicate 32 2))
    = Inr (replicate 32 1, replicate 32 2)"
  by (rule own_address_accepted) (simp_all add: min_def)

text \<open>
  C29: An integrated address round trips: \<open>createIntegratedAddress\<close> succeeds on the wallet's own
  kind of address and the hexadecimal form of a 32-byte payment id, the result passes
  \<open>validateAddresses\<close>, and \<open>extractIntegratedAddressData\<close> returns the address and the payment id.
\<close>

theorem integrated_round_trip:
  assumes "\<forall>bs. length (H bs) = 32" and "length s = 32" and "length v = 32"
    and "check_key s" and "check_key v" and "length pid = 32"
  shows "\<exists>ia. createIntegratedAddress H check_key (publicKeysToAddress H s v) (toHex pid) = Some (Inr (success, ia))
    \<and> validateAddresses H check_key [ia] True = Inr success
    \<and> extractIntegratedAddressData H ia = Some (Inr (publicKeysToAddress H s v, toHex pid))"
proof -
  let ?a = "\<lparr> spendPublicKey = s, viewPublicKey = v \<rparr>"
  have a: "wf_address ?a" "check_key (spendPublicKey ?a)" "check_key (viewPublicKey ?a)"
    using assms by (simp_all add: wf_address_def)
  note hex = hex_payment_id [OF assms(6)]
  then have l: "length (toHex pid) = 64" by (simp add: hexRegex_match_def)
  show ?thesis
    using createIntegratedAddress_eq [of H ?a "toHex pid" check_key, OF assms(1) a(1) hex(1) a(2,3)]
      validate_integrated [of H ?a "toHex pid" check_key, OF assms(1) a(1) l a(2,3)] hex(2)
      extract_integrated [OF assms(1) a(1) l]
    by (simp add: publicKeysToAddress_def)
qed

theorem integrated_round_trip_witness:
  "\<exists>ia. createIntegratedAddress (\<lambda>bs. take 32 (bs @ replicate 32 7)) (\<lambda>_. True)
        (publicKeysToAddress (\<lambda>bs. take 32 (bs @ replicate 32 7)) (replicate 32 1) (replicate 32 2))
        (toHex (replicate 32 9)) = Some (Inr (success, ia))
    \<and> validateAddresses (\<lambda>bs. take 32 (bs @ replicate 32 7)) (\<lambda>_. True) [ia] True = Inr success
    \<and> extractIntegratedAddressData (\<lambda>bs. take 32 (bs @ replicate 32 7)) ia
      = Some (Inr (publicKeysToAddress (\<lambda>bs. take 32 (bs @ replicate 32 7)) (replicate 32 1) (replicate 32 2),
              toHex (replicate 32 9)))"
  by (rule integrated_round_trip) (simp_all add: min_def)

text \<open>
  The pattern of \<open>validatePaymentID\<close> admits letters that are not hexadecimal digits: an integrated
  address is made from such a payment id, and \<open>validateAddresses\<close> then refuses it.
\<close>

lemma payment_id_not_hex:
  assumes "\<forall>bs. length (H bs) = 32" and "wf_address a"
    and "check_key (spendPublicKey a)" and "check_key (viewPublicKey a)"
  defines "pid \<equiv> replicate 64 (CHR ''z'')"
  shows "\<exists>ia. createIntegratedAddress H check_key
        (getAccountAddressAsStr H CRYPTONOTE_PUBLIC_ADDRESS_BASE58_PREFIX a) pid = Some (Inr (success, ia))
    \<and> validateAddresses H check_key [ia] True = Inr (mkError INTEGRATED_ADDRESS_PAYMENT_ID_INVALID)"
proof -
  have "hexRegex_match pid" "length pid = 64" by (simp_all add: pid_def hexRegex_match_def is_alnum_def list_all_iff)
  moreover have "\<not> fst (createTxExtraWithPaymentId pid [])" unfolding pid_def by code_simp
  ultimately show ?thesis
    using createIntegratedAddress_eq [OF assms(1,2) _ assms(3,4), of pid]
      validate_integrated [OF assms(1,2) _ assms(3,4), of pid] by simp
qed

end
