(* ===== verification/SubWallets.thy ===== *)
theory SubWallets
  imports SubWallet Addresses
begin

text \<open>
  The container of all addresses of a wallet: the class \<open>SubWallets\<close>
  (\<open>src/subwallets/SubWallets.cpp\<close>) and the transactions it records (\<open>include/WalletTypes.h\<close>).
  The sub wallets are kept in an \<open>unordered_map\<close> by public spend key, beside a vector of these
  keys, the transactions, and a map from key images to the address that owns them.

  Every public operation locks one mutex for its whole body and is one atomic function here. The
  curve and hash functions, the clock (\<open>now\<close>), the fresh key pair of \<open>addSubWallet\<close> and the result
  of \<open>std::shuffle\<close> are arguments. \<open>Inl\<close> is an exception, \<open>None\<close> undefined behaviour.
\<close>


section \<open>WalletTypes.h: Transaction\<close>

record WalletTransaction =
  tx_transfers :: "(public_key \<times> u64) list"
  tx_hash :: hash
  tx_fee :: u64
  tx_blockHeight :: u64
  tx_timestamp :: u64
  tx_paymentID :: string
  tx_unlockTime :: u64
  tx_isCoinbaseTransaction :: bool

definition totalAmount :: "WalletTransaction \<Rightarrow> u64" where
  "totalAmount tx = foldl (\<lambda>s t. s + snd t) 0 (tx_transfers tx)"

definition isFusionTransaction :: "WalletTransaction \<Rightarrow> bool" where
  "isFusionTransaction tx \<longleftrightarrow> tx_fee tx = 0 \<and> \<not> tx_isCoinbaseTransaction tx"


section \<open>SubWallets.h and SubWallets.cpp\<close>

record SubWallets =
  m_publicSpendKeys :: "public_key list"
  m_subWallets :: "(public_key \<times> SubWallet) list"
  m_transactions :: "WalletTransaction list"
  m_lockedTransactions :: "WalletTransaction list"
  m_privateViewKey :: secret_key
  m_isViewWallet :: bool
  m_transactionPrivateKeys :: "(hash \<times> secret_key) list"
  m_keyImageOwners :: "(key_image \<times> public_key) list"

definition view_wallet_error :: exc where
  "view_wallet_error = RuntimeError ''Wallet is a view wallet, but this function cannot be called in a view wallet''"

definition throwIfViewWallet :: "SubWallets \<Rightarrow> (exc + 'a) \<Rightarrow> exc + 'a" where
  "throwIfViewWallet ws body =
     (if m_isViewWallet ws then Inl view_wallet_error else body)"

text \<open>\<open>m_subWallets.at(publicKey)\<close>, and the container with that sub wallet changed.\<close>

definition at_key :: "SubWallets \<Rightarrow> public_key \<Rightarrow> exc + SubWallet" where
  "at_key ws publicKey = (case map_of (m_subWallets ws) publicKey of None \<Rightarrow> Inl OutOfRange | Some sw \<Rightarrow> Inr sw)"

definition put_key :: "SubWallets \<Rightarrow> public_key \<Rightarrow> SubWallet \<Rightarrow> SubWallets" where
  "put_key ws publicKey sw = ws\<lparr> m_subWallets := AList.update publicKey sw (m_subWallets ws) \<rparr>"

definition map_wallets :: "(SubWallet \<Rightarrow> SubWallet) \<Rightarrow> SubWallets \<Rightarrow> SubWallets" where
  "map_wallets f ws = ws\<lparr> m_subWallets := map (\<lambda>(k, sw). (k, f sw)) (m_subWallets ws) \<rparr>"


subsection \<open>Construction\<close>

definition SubWallets_new ::
  "(secret_key \<Rightarrow> public_key) \<Rightarrow> u64 \<Rightarrow> secret_key \<Rightarrow> secret_key \<Rightarrow> string \<Rightarrow> u64 \<Rightarrow> bool \<Rightarrow> SubWallets" where
  "SubWallets_new secret_key_to_public_key now privateSpendKey privateViewKey address' scanHeight newWallet =
     (let publicSpendKey = secret_key_to_public_key privateSpendKey;
          timestamp' = (if newWallet then getCurrentTimestampAdjusted now else 0)
      in \<lparr> m_publicSpendKeys = [publicSpendKey],
           m_subWallets = [(publicSpendKey,
             SubWallet_standard publicSpendKey privateSpendKey address' scanHeight timestamp' True)],
           m_transactions = [], m_lockedTransactions = [], m_privateViewKey = privateViewKey,
           m_isViewWallet = False, m_transactionPrivateKeys = [], m_keyImageOwners = [] \<rparr>)"

definition SubWallets_new_view ::
  "(bytes \<Rightarrow> hash) \<Rightarrow> (public_key \<Rightarrow> bool) \<Rightarrow> u64 \<Rightarrow> secret_key \<Rightarrow> string \<Rightarrow> u64 \<Rightarrow> bool \<Rightarrow> exc + SubWallets" where
  "SubWallets_new_view H check_key now privateViewKey address' scanHeight newWallet =
     (case addressToKeys H check_key address' of Inl e \<Rightarrow> Inl e
      | Inr (publicSpendKey, publicViewKey) \<Rightarrow>
          let timestamp' = (if newWallet then getCurrentTimestampAdjusted now else 0)
          in Inr \<lparr> m_publicSpendKeys = [publicSpendKey],
               m_subWallets = [(publicSpendKey,
                 SubWallet_view publicSpendKey address' scanHeight timestamp' True)],
               m_transactions = [], m_lockedTransactions = [], m_privateViewKey = privateViewKey,
               m_isViewWallet = True, m_transactionPrivateKeys = [], m_keyImageOwners = [] \<rparr>)"

text \<open>The copy constructor does not list \<open>m_keyImageOwners\<close>, which starts empty.\<close>

definition SubWallets_copy :: "SubWallets \<Rightarrow> SubWallets" where
  "SubWallets_copy other = other\<lparr> m_keyImageOwners := [] \<rparr>"


subsection \<open>Adding and deleting addresses\<close>

definition insert_wallet :: "public_key \<Rightarrow> SubWallet \<Rightarrow> SubWallets \<Rightarrow> SubWallets" where
  "insert_wallet publicSpendKey sw ws =
     (put_key ws publicSpendKey sw)\<lparr> m_publicSpendKeys := m_publicSpendKeys ws @ [publicSpendKey] \<rparr>"

definition addSubWallet ::
  "(bytes \<Rightarrow> hash) \<Rightarrow> (secret_key \<Rightarrow> public_key) \<Rightarrow> u64 \<Rightarrow> public_key \<times> secret_key \<Rightarrow>
   SubWallets \<Rightarrow> SubWallets \<times> Error \<times> string \<times> secret_key" where
  "addSubWallet H secret_key_to_public_key now spendKey ws =
     (if m_isViewWallet ws then (ws, mkError ILLEGAL_VIEW_WALLET_OPERATION, [], replicate 32 0)
      else
        let (publicKey, secretKey) = spendKey;
            address' = privateKeysToAddress H secret_key_to_public_key secretKey (m_privateViewKey ws)
        in (insert_wallet publicKey
              (SubWallet_standard publicKey secretKey address' 0 (getCurrentTimestampAdjusted now) False) ws,
            success, address', secretKey))"

definition importSubWallet ::
  "(bytes \<Rightarrow> hash) \<Rightarrow> (secret_key \<Rightarrow> public_key) \<Rightarrow> secret_key \<Rightarrow> u64 \<Rightarrow>
   SubWallets \<Rightarrow> SubWallets \<times> Error \<times> string" where
  "importSubWallet H secret_key_to_public_key privateSpendKey scanHeight ws =
     (if m_isViewWallet ws then (ws, mkError ILLEGAL_VIEW_WALLET_OPERATION, [])
      else
        let publicSpendKey = secret_key_to_public_key privateSpendKey;
            address' = privateKeysToAddress H secret_key_to_public_key privateSpendKey (m_privateViewKey ws)
        in if map_of (m_subWallets ws) publicSpendKey \<noteq> None then (ws, mkError SUBWALLET_ALREADY_EXISTS, [])
           else (insert_wallet publicSpendKey
                   (SubWallet_standard publicSpendKey privateSpendKey address' scanHeight 0 False) ws,
                 success, address'))"

definition importViewSubWallet ::
  "(bytes \<Rightarrow> hash) \<Rightarrow> (secret_key \<Rightarrow> public_key) \<Rightarrow> public_key \<Rightarrow> u64 \<Rightarrow>
   SubWallets \<Rightarrow> SubWallets \<times> Error \<times> string" where
  "importViewSubWallet H secret_key_to_public_key publicSpendKey scanHeight ws =
     (if \<not> m_isViewWallet ws then (ws, mkError ILLEGAL_NON_VIEW_WALLET_OPERATION, [])
      else if map_of (m_subWallets ws) publicSpendKey \<noteq> None then (ws, mkError SUBWALLET_ALREADY_EXISTS, [])
      else
        let publicViewKey = secret_key_to_public_key (m_privateViewKey ws);
            address' = publicKeysToAddress H publicSpendKey publicViewKey
        in (insert_wallet publicSpendKey (SubWallet_view publicSpendKey address' scanHeight 0 False) ws,
            success, address'))"

definition deleteAddressTransactions :: "WalletTransaction list \<Rightarrow> public_key \<Rightarrow> WalletTransaction list" where
  "deleteAddressTransactions txs spendKey =
     List.map_filter (\<lambda>tx.
       if map_of (tx_transfers tx) spendKey \<noteq> None then
         if length (tx_transfers tx) = 1 then None
         else Some (tx\<lparr> tx_transfers := AList.delete spendKey (tx_transfers tx) \<rparr>)
       else Some tx) txs"

definition deleteSubWallet ::
  "(bytes \<Rightarrow> hash) \<Rightarrow> (public_key \<Rightarrow> bool) \<Rightarrow> string \<Rightarrow> SubWallets \<Rightarrow> exc + SubWallets \<times> Error" where
  "deleteSubWallet H check_key address' ws =
     (case addressToKeys H check_key address' of Inl e \<Rightarrow> Inl e
      | Inr (spendKey, viewKey) \<Rightarrow>
          (case map_of (m_subWallets ws) spendKey of
             None \<Rightarrow> Inr (ws, mkError ADDRESS_NOT_IN_WALLET)
           | Some sw \<Rightarrow>
               if m_isPrimaryAddress sw then Inr (ws, mkError CANNOT_DELETE_PRIMARY_ADDRESS)
               else Inr (ws\<lparr> m_subWallets := AList.delete spendKey (m_subWallets ws),
                             m_transactions := deleteAddressTransactions (m_transactions ws) spendKey,
                             m_lockedTransactions := deleteAddressTransactions (m_lockedTransactions ws) spendKey,
                             m_publicSpendKeys := filter (\<lambda>k. k \<noteq> spendKey) (m_publicSpendKeys ws) \<rparr>,
                         success)))"


subsection \<open>Synchronisation start\<close>

definition minimum :: "u64 list \<Rightarrow> u64 option" where
  "minimum xs = (case xs of [] \<Rightarrow> None | x # xs \<Rightarrow> Some (foldl (\<lambda>m y. if y < m then y else m) x xs))"

text \<open>\<open>None\<close> is \<open>min_element\<close> of an empty container being dereferenced.\<close>

definition getMinInitialSyncStart :: "u64 \<Rightarrow> SubWallets \<Rightarrow> (u64 \<times> u64) option" where
  "getMinInitialSyncStart now ws =
     Option.bind (minimum (map (m_syncStartTimestamp \<circ> snd) (m_subWallets ws))) (\<lambda>minTimestamp.
     Option.bind (minimum (map (m_syncStartHeight \<circ> snd) (m_subWallets ws))) (\<lambda>minHeight.
       if minHeight = 0 \<or> minTimestamp = 0 then Some (minHeight, minTimestamp)
       else
         let timestampFromHeight = scanHeightToTimestamp now minHeight
         in if timestampFromHeight < minTimestamp then Some (minHeight, 0) else Some (0, minTimestamp)))"


subsection \<open>Transactions\<close>

definition addUnconfirmedTransaction :: "WalletTransaction \<Rightarrow> SubWallets \<Rightarrow> SubWallets" where
  "addUnconfirmedTransaction tx ws =
     (if \<exists>t \<in> set (m_lockedTransactions ws). tx_hash tx = tx_hash t then ws
      else ws\<lparr> m_lockedTransactions := m_lockedTransactions ws @ [tx] \<rparr>)"

definition addTransaction :: "WalletTransaction \<Rightarrow> SubWallets \<Rightarrow> SubWallets" where
  "addTransaction tx ws =
     (let ws = ws\<lparr> m_lockedTransactions := filter (\<lambda>t. tx_hash tx \<noteq> tx_hash t) (m_lockedTransactions ws) \<rparr>
      in if \<exists>t \<in> set (m_transactions ws). tx_hash tx = tx_hash t then ws
         else ws\<lparr> m_transactions := m_transactions ws @ [tx] \<rparr>)"

definition getLockedTransactionsHashes :: "SubWallets \<Rightarrow> exc + hash list" where
  "getLockedTransactionsHashes ws = throwIfViewWallet ws (Inr (remdups (map tx_hash (m_lockedTransactions ws))))"

definition storeTxPrivateKey :: "secret_key \<Rightarrow> hash \<Rightarrow> SubWallets \<Rightarrow> SubWallets" where
  "storeTxPrivateKey txPrivateKey txHash ws =
     ws\<lparr> m_transactionPrivateKeys := AList.update txHash txPrivateKey (m_transactionPrivateKeys ws) \<rparr>"

definition getTxPrivateKey :: "SubWallets \<Rightarrow> hash \<Rightarrow> bool \<times> secret_key" where
  "getTxPrivateKey ws txHash =
     (case map_of (m_transactionPrivateKeys ws) txHash of None \<Rightarrow> (False, replicate 32 0) | Some k \<Rightarrow> (True, k))"


subsection \<open>Inputs\<close>

definition getTxInputKeyImage ::
  "(key_derivation \<Rightarrow> u64 \<Rightarrow> public_key \<Rightarrow> public_key) \<Rightarrow>
   (key_derivation \<Rightarrow> u64 \<Rightarrow> secret_key \<Rightarrow> secret_key) \<Rightarrow>
   (public_key \<Rightarrow> secret_key \<Rightarrow> key_image) \<Rightarrow>
   SubWallets \<Rightarrow> public_key \<Rightarrow> key_derivation \<Rightarrow> u64 \<Rightarrow> exc + key_image" where
  "getTxInputKeyImage derive_public_key derive_secret_key generate_key_image ws publicSpendKey derivation outputIndex =
     (case map_of (m_subWallets ws) publicSpendKey of
        None \<Rightarrow> Inl (RuntimeError ''Subwallet not found!'')
      | Some sw \<Rightarrow> Inr (SubWallet_getTxInputKeyImage derive_public_key derive_secret_key generate_key_image
                        sw derivation outputIndex (m_isViewWallet ws)))"

definition storeTransactionInput :: "public_key \<Rightarrow> WalletInput \<Rightarrow> SubWallets \<Rightarrow> exc + SubWallets" where
  "storeTransactionInput publicSpendKey inp ws =
     (case map_of (m_subWallets ws) publicSpendKey of
        None \<Rightarrow> Inl (RuntimeError ''Subwallet not found!'')
      | Some sw \<Rightarrow>
          let ws = (if \<not> m_isViewWallet ws
                    then ws\<lparr> m_keyImageOwners := AList.update (in_keyImage inp) publicSpendKey (m_keyImageOwners ws) \<rparr>
                    else ws)
          in Inr (put_key ws publicSpendKey (SubWallet_storeTransactionInput sw inp (m_isViewWallet ws))))"

definition getKeyImageOwner :: "SubWallets \<Rightarrow> key_image \<Rightarrow> bool \<times> public_key" where
  "getKeyImageOwner ws keyImage' =
     (case map_of (m_keyImageOwners ws) keyImage' of None \<Rightarrow> (False, replicate 32 0) | Some pk \<Rightarrow> (True, pk))"

definition storeUnconfirmedIncomingInput :: "UnconfirmedInput \<Rightarrow> public_key \<Rightarrow> SubWallets \<Rightarrow> SubWallets" where
  "storeUnconfirmedIncomingInput inp publicSpendKey ws =
     (case map_of (m_subWallets ws) publicSpendKey of None \<Rightarrow> ws
      | Some sw \<Rightarrow> put_key ws publicSpendKey (SubWallet_storeUnconfirmedIncomingInput sw inp))"

definition markInputAsSpent :: "key_image \<Rightarrow> public_key \<Rightarrow> u64 \<Rightarrow> SubWallets \<Rightarrow> exc + SubWallets" where
  "markInputAsSpent keyImage' publicKey spendHeight ws =
     throwIfViewWallet ws
       (case at_key ws publicKey of Inl e \<Rightarrow> Inl e
        | Inr sw \<Rightarrow> Inr (put_key ws publicKey (SubWallet_markInputAsSpent sw keyImage' spendHeight)))"

definition markInputAsLocked :: "key_image \<Rightarrow> public_key \<Rightarrow> SubWallets \<Rightarrow> exc + SubWallets" where
  "markInputAsLocked keyImage' publicKey ws =
     throwIfViewWallet ws
       (case at_key ws publicKey of Inl e \<Rightarrow> Inl e
        | Inr sw \<Rightarrow> Inr (put_key ws publicKey (SubWallet_markInputAsLocked sw keyImage')))"

definition removeForkedTransactions :: "u64 \<Rightarrow> SubWallets \<Rightarrow> SubWallets" where
  "removeForkedTransactions forkHeight ws =
     (let removed = map (\<lambda>(k, sw). SubWallet_removeForkedInputs sw forkHeight (m_isViewWallet ws)) (m_subWallets ws);
          keyImagesToRemove = concat (map snd removed);
          ws' = map_wallets (\<lambda>sw. fst (SubWallet_removeForkedInputs sw forkHeight (m_isViewWallet ws))) ws
      in ws'\<lparr> m_transactions := filter (\<lambda>tx. \<not> tx_blockHeight tx \<ge> forkHeight) (m_transactions ws),
              m_keyImageOwners := fold AList.delete keyImagesToRemove (m_keyImageOwners ws) \<rparr>)"

definition removeCancelledTransactions :: "hash list \<Rightarrow> SubWallets \<Rightarrow> exc + SubWallets" where
  "removeCancelledTransactions cancelledTransactions ws =
     throwIfViewWallet ws
       (let ws' = ws\<lparr> m_lockedTransactions :=
                  filter (\<lambda>tx. tx_hash tx \<notin> set cancelledTransactions) (m_lockedTransactions ws) \<rparr>
        in Inr (map_wallets (\<lambda>sw. SubWallet_removeCancelledTransactions sw cancelledTransactions) ws'))"

definition reset :: "u64 \<Rightarrow> SubWallets \<Rightarrow> SubWallets" where
  "reset scanHeight ws =
     map_wallets (\<lambda>sw. SubWallet_reset sw scanHeight)
       (ws\<lparr> m_lockedTransactions := [], m_transactions := [], m_transactionPrivateKeys := [] \<rparr>)"

definition convertSyncTimestampToHeight :: "u64 \<Rightarrow> u64 \<Rightarrow> SubWallets \<Rightarrow> SubWallets" where
  "convertSyncTimestampToHeight timestamp' height ws =
     map_wallets (\<lambda>sw. SubWallet_convertSyncTimestampToHeight sw timestamp' height) ws"

definition pruneSpentInputs :: "u64 \<Rightarrow> SubWallets \<Rightarrow> SubWallets" where
  "pruneSpentInputs pruneHeight ws = map_wallets (\<lambda>sw. SubWallet_pruneSpentInputs sw pruneHeight) ws"



subsection \<open>Queries\<close>

definition getPrimary :: "SubWallets \<Rightarrow> exc + SubWallet" where
  "getPrimary ws =
     (case List.find (\<lambda>(k, sw). m_isPrimaryAddress sw) (m_subWallets ws) of
        None \<Rightarrow> Inl (RuntimeError ''This container has no primary address!'')
      | Some (k, sw) \<Rightarrow> Inr sw)"

definition getPrimaryAddress :: "SubWallets \<Rightarrow> exc + string" where
  "getPrimaryAddress ws = map_sum id m_address (getPrimary ws)"

definition getPrimaryPrivateSpendKey :: "SubWallets \<Rightarrow> exc + secret_key" where
  "getPrimaryPrivateSpendKey ws = map_sum id m_privateSpendKey (getPrimary ws)"

definition getAddresses :: "SubWallets \<Rightarrow> string list" where
  "getAddresses ws = map (m_address \<circ> snd) (m_subWallets ws)"

definition getWalletCount :: "SubWallets \<Rightarrow> u64" where
  "getWalletCount ws = word_of_nat (length (m_subWallets ws))"

definition getPrivateSpendKeys :: "SubWallets \<Rightarrow> secret_key list" where
  "getPrivateSpendKeys ws = map (m_privateSpendKey \<circ> snd) (m_subWallets ws)"

definition getPrivateSpendKey :: "SubWallets \<Rightarrow> public_key \<Rightarrow> exc + Error \<times> secret_key" where
  "getPrivateSpendKey ws publicSpendKey =
     throwIfViewWallet ws
       (case map_of (m_subWallets ws) publicSpendKey of
          None \<Rightarrow> Inr (mkError ADDRESS_NOT_IN_WALLET, replicate 32 0)
        | Some sw \<Rightarrow> Inr (success, m_privateSpendKey sw))"

definition getAddress :: "SubWallets \<Rightarrow> public_key \<Rightarrow> Error \<times> string" where
  "getAddress ws spendKey =
     (case map_of (m_subWallets ws) spendKey of
        None \<Rightarrow> (mkError ADDRESS_NOT_IN_WALLET, []) | Some sw \<Rightarrow> (success, m_address sw))"

definition getBalances :: "u64 \<Rightarrow> SubWallets \<Rightarrow> u64 \<Rightarrow> (string \<times> u64 \<times> u64) list" where
  "getBalances now ws currentHeight =
     map (\<lambda>(k, sw). (m_address sw, SubWallet_getBalance now sw currentHeight)) (m_subWallets ws)"

text \<open>The loop that adds up the balances; \<open>at\<close> throws for an unknown key.\<close>

fun sum_balances ::
  "u64 \<Rightarrow> SubWallets \<Rightarrow> u64 \<Rightarrow> public_key list \<Rightarrow> u64 \<times> u64 \<Rightarrow> exc + u64 \<times> u64" where
  "sum_balances now ws currentHeight [] b = Inr b"
| "sum_balances now ws currentHeight (pubKey # pubKeys) b =
     (case at_key ws pubKey of Inl e \<Rightarrow> Inl e
      | Inr sw \<Rightarrow>
          let (unlocked, locked) = SubWallet_getBalance now sw currentHeight
          in sum_balances now ws currentHeight pubKeys (fst b + unlocked, snd b + locked))"

definition getBalance ::
  "u64 \<Rightarrow> SubWallets \<Rightarrow> public_key list \<Rightarrow> bool \<Rightarrow> u64 \<Rightarrow> exc + u64 \<times> u64" where
  "getBalance now ws subWalletsToTakeFrom takeFromAll currentHeight =
     (let subWalletsToTakeFrom = (if takeFromAll then m_publicSpendKeys ws else subWalletsToTakeFrom)
      in sum_balances now ws currentHeight subWalletsToTakeFrom (0, 0))"


subsection \<open>Choosing inputs\<close>

fun get_wallets :: "SubWallets \<Rightarrow> public_key list \<Rightarrow> exc + SubWallet list" where
  "get_wallets ws [] = Inr []"
| "get_wallets ws (publicKey # publicKeys) =
     (case at_key ws publicKey of Inl e \<Rightarrow> Inl e
      | Inr sw \<Rightarrow> map_sum id (\<lambda>sws. sw # sws) (get_wallets ws publicKeys))"

definition available_inputs :: "u64 \<Rightarrow> u64 \<Rightarrow> SubWallet list \<Rightarrow> TxInputAndOwner list" where
  "available_inputs now height wallets =
     concat (map (\<lambda>sw. filter (\<lambda>eachInput. in_amount (own_input eachInput) \<ge> INPUT_NOT_SENDING)
                         (SubWallet_getSpendableInputs now sw height)) wallets)"

fun take_inputs ::
  "u64 \<Rightarrow> TxInputAndOwner list \<Rightarrow> TxInputAndOwner list \<Rightarrow> u64 \<Rightarrow> exc + TxInputAndOwner list \<times> u64" where
  "take_inputs amt [] inputsToUse foundMoney = Inl (InvalidArgument ''Not enough funds found!'')"
| "take_inputs amt (walletAmount # availableInputs) inputsToUse foundMoney =
     (if in_amount (own_input walletAmount) \<ge> INPUT_NOT_SENDING then
        let inputsToUse = inputsToUse @ [walletAmount];
            foundMoney = foundMoney + in_amount (own_input walletAmount)
        in if foundMoney \<ge> amt then Inr (inputsToUse, foundMoney)
           else take_inputs amt availableInputs inputsToUse foundMoney
      else take_inputs amt availableInputs inputsToUse foundMoney)"

definition getTransactionInputsForAmount ::
  "(TxInputAndOwner list \<Rightarrow> TxInputAndOwner list) \<Rightarrow> u64 \<Rightarrow> SubWallets \<Rightarrow>
   u64 \<Rightarrow> bool \<Rightarrow> public_key list \<Rightarrow> u64 \<Rightarrow> exc + TxInputAndOwner list \<times> u64" where
  "getTransactionInputsForAmount shuffle now ws amt takeFromAll subWalletsToTakeFrom height =
     throwIfViewWallet ws
       (let subWalletsToTakeFrom = (if takeFromAll then m_publicSpendKeys ws else subWalletsToTakeFrom)
        in case get_wallets ws subWalletsToTakeFrom of Inl e \<Rightarrow> Inl e
           | Inr wallets \<Rightarrow> take_inputs amt (shuffle (available_inputs now height wallets)) [] 0)"

text \<open>
  \<open>numberOfDigits\<close> is \<open>floor(log10(amount)) + 1\<close> in floating point, as the key of a bucket;
  \<open>bucket_order\<close> is the iteration order of the \<open>unordered_map\<close> of buckets.
\<close>

definition fill_buckets ::
  "(u64 \<Rightarrow> u64) \<Rightarrow> TxInputAndOwner list \<Rightarrow> (u64 \<times> TxInputAndOwner list) list" where
  "fill_buckets numberOfDigits availableInputs =
     foldl (\<lambda>buckets walletAmount.
         let d = numberOfDigits (in_amount (own_input walletAmount))
         in AList.update d ((case map_of buckets d of None \<Rightarrow> [] | Some b \<Rightarrow> b) @ [walletAmount]) buckets)
       [] availableInputs"

fun take_fusion_inputs ::
  "u64 \<Rightarrow> TxInputAndOwner list \<Rightarrow> TxInputAndOwner list \<Rightarrow> u64 \<Rightarrow> TxInputAndOwner list \<times> u64 \<times> u64" where
  "take_fusion_inputs maxInputsToTake [] inputsToUse foundMoney = (inputsToUse, maxInputsToTake, foundMoney)"
| "take_fusion_inputs maxInputsToTake (walletAmount # rest) inputsToUse foundMoney =
     (let inputsToUse = inputsToUse @ [walletAmount];
          foundMoney = foundMoney + in_amount (own_input walletAmount)
      in if word_of_nat (length inputsToUse) \<ge> maxInputsToTake
         then (inputsToUse, maxInputsToTake, foundMoney)
         else take_fusion_inputs maxInputsToTake rest inputsToUse foundMoney)"

definition getFusionTransactionInputs ::
  "(TxInputAndOwner list \<Rightarrow> TxInputAndOwner list) \<Rightarrow>
   (TxInputAndOwner list list \<Rightarrow> TxInputAndOwner list list) \<Rightarrow>
   ((u64 \<times> TxInputAndOwner list) list \<Rightarrow> (u64 \<times> TxInputAndOwner list) list) \<Rightarrow> (u64 \<Rightarrow> u64) \<Rightarrow>
   u64 \<Rightarrow> SubWallets \<Rightarrow> bool \<Rightarrow> public_key list \<Rightarrow> u64 \<Rightarrow> u64 \<Rightarrow>
   (exc + TxInputAndOwner list \<times> u64 \<times> u64) option" where
  "getFusionTransactionInputs shuffle shuffle_buckets bucket_order numberOfDigits
      now ws takeFromAll subWalletsToTakeFrom mixin height =
     (if m_isViewWallet ws then Some (Inl view_wallet_error)
      else
        let subWalletsToTakeFrom = (if takeFromAll then m_publicSpendKeys ws else subWalletsToTakeFrom)
        in case get_wallets ws subWalletsToTakeFrom of Inl e \<Rightarrow> Some (Inl e)
           | Inr wallets \<Rightarrow>
               (case getApproximateMaximumInputCount FUSION_TX_MAX_SIZE FUSION_TX_MIN_IN_OUT_COUNT_RATIO mixin of
                  None \<Rightarrow> None
                | Some maxInputsToTake \<Rightarrow>
                    let availableInputs = shuffle (available_inputs now height wallets);
                        buckets = bucket_order (fill_buckets numberOfDigits availableInputs);
                        fullBuckets = shuffle_buckets
                          (filter (\<lambda>b. word_of_nat (length b) \<ge> FUSION_TX_MIN_INPUT_COUNT) (map snd buckets));
                        bucketsToTakeFrom = (if fullBuckets \<noteq> [] then [hd fullBuckets] else map snd buckets)
                    in Some (Inr (take_fusion_inputs maxInputsToTake (concat bucketsToTakeFrom) [] 0))))"



section \<open>The invariant\<close>

abbreviation images :: "SubWallet \<Rightarrow> key_image list" where
  "images \<equiv> SubWallet_getKeyImages"

definition wallet_images :: "SubWallets \<Rightarrow> key_image list" where
  "wallet_images ws = concat (map (images \<circ> snd) (m_subWallets ws))"

text \<open>
  Each address is stored under its own public spend key, the vector of public spend keys lists the
  addresses of the container, one address is the primary one, no key image occurs twice, and the
  owner of every key image that is held is on record. The last two are about wallets that can spend.
\<close>

definition structure_inv :: "SubWallets \<Rightarrow> bool" where
  "structure_inv ws \<longleftrightarrow>
     distinct (keys (m_subWallets ws))
     \<and> mset (m_publicSpendKeys ws) = mset (keys (m_subWallets ws))
     \<and> (\<forall>(pk, sw) \<in> set (m_subWallets ws). m_publicSpendKey sw = pk)
     \<and> length (filter (m_isPrimaryAddress \<circ> snd) (m_subWallets ws)) = 1"

definition owners_inv :: "SubWallets \<Rightarrow> bool" where
  "owners_inv ws \<longleftrightarrow>
     distinct (wallet_images ws)
     \<and> (\<forall>(pk, sw) \<in> set (m_subWallets ws). \<forall>k \<in> set (images sw). map_of (m_keyImageOwners ws) k = Some pk)"

definition wallets_inv :: "SubWallets \<Rightarrow> bool" where
  "wallets_inv ws \<longleftrightarrow> structure_inv ws \<and> (m_isViewWallet ws \<or> owners_inv ws)"

text \<open>The steps of a wallet: every public operation that changes it and does not throw.\<close>

inductive wallet_step :: "(bytes \<Rightarrow> hash) \<Rightarrow> (secret_key \<Rightarrow> public_key) \<Rightarrow> (public_key \<Rightarrow> bool) \<Rightarrow>
    SubWallets \<Rightarrow> SubWallets \<Rightarrow> bool"
  for H secret_key_to_public_key check_key where
  add: "fst kp \<notin> set (keys (m_subWallets ws)) \<Longrightarrow>
    wallet_step H secret_key_to_public_key check_key ws (fst (addSubWallet H secret_key_to_public_key now kp ws))"
| import_wallet: "wallet_step H secret_key_to_public_key check_key ws
    (fst (importSubWallet H secret_key_to_public_key sk h ws))"
| import_view: "wallet_step H secret_key_to_public_key check_key ws
    (fst (importViewSubWallet H secret_key_to_public_key pk h ws))"
| delete: "deleteSubWallet H check_key a ws = Inr (ws', e) \<Longrightarrow> wallet_step H secret_key_to_public_key check_key ws ws'"
| unconfirmed_tx: "wallet_step H secret_key_to_public_key check_key ws (addUnconfirmedTransaction tx ws)"
| add_tx: "wallet_step H secret_key_to_public_key check_key ws (addTransaction tx ws)"
| tx_key: "wallet_step H secret_key_to_public_key check_key ws (storeTxPrivateKey sk th ws)"
| store: "in_keyImage inp \<notin> set (wallet_images ws) \<or> m_isViewWallet ws \<Longrightarrow>
    storeTransactionInput pk inp ws = Inr ws' \<Longrightarrow> wallet_step H secret_key_to_public_key check_key ws ws'"
| unconfirmed_input: "wallet_step H secret_key_to_public_key check_key ws (storeUnconfirmedIncomingInput u pk ws)"
| spend: "markInputAsSpent k pk h ws = Inr ws' \<Longrightarrow> wallet_step H secret_key_to_public_key check_key ws ws'"
| lock: "markInputAsLocked k pk ws = Inr ws' \<Longrightarrow> wallet_step H secret_key_to_public_key check_key ws ws'"
| fork: "wallet_step H secret_key_to_public_key check_key ws (removeForkedTransactions h ws)"
| cancel: "removeCancelledTransactions txs ws = Inr ws' \<Longrightarrow> wallet_step H secret_key_to_public_key check_key ws ws'"
| reset: "wallet_step H secret_key_to_public_key check_key ws (reset h ws)"
| convert: "wallet_step H secret_key_to_public_key check_key ws (convertSyncTimestampToHeight t h ws)"
| prune: "wallet_step H secret_key_to_public_key check_key ws (pruneSpentInputs h ws)"

text \<open>Wallets that a constructor and any number of steps lead to.\<close>

inductive wallet_reachable :: "(bytes \<Rightarrow> hash) \<Rightarrow> (secret_key \<Rightarrow> public_key) \<Rightarrow> (public_key \<Rightarrow> bool) \<Rightarrow>
    SubWallets \<Rightarrow> bool"
  for H secret_key_to_public_key check_key where
  new: "wallet_reachable H secret_key_to_public_key check_key
    (SubWallets_new secret_key_to_public_key now sk vk a h b)"
| new_view: "SubWallets_new_view H check_key now vk a h b = Inr ws \<Longrightarrow>
    wallet_reachable H secret_key_to_public_key check_key ws"
| step: "wallet_reachable H secret_key_to_public_key check_key ws \<Longrightarrow>
    wallet_step H secret_key_to_public_key check_key ws ws' \<Longrightarrow>
    wallet_reachable H secret_key_to_public_key check_key ws'"


section \<open>Operations that only lose key images\<close>

definition shrinks :: "SubWallet \<Rightarrow> SubWallet \<Rightarrow> bool" where
  "shrinks sw sw' \<longleftrightarrow> m_publicSpendKey sw' = m_publicSpendKey sw \<and> m_isPrimaryAddress sw' = m_isPrimaryAddress sw
     \<and> mset (images sw') \<subseteq># mset (images sw)"

lemma find_mset_images:
  "List.find P xs = Some x \<Longrightarrow> mset (map in_keyImage xs) = add_mset (in_keyImage x) (mset (map in_keyImage (erase_first P xs)))"
  using mset_erase_first [of P xs x] by (metis image_mset_add_mset mset_map)

lemma shrinks_spend: "shrinks sw (SubWallet_markInputAsSpent sw k h)"
  using find_mset_images [of "\<lambda>x. in_keyImage x = k" "m_unspentInputs sw"]
    find_mset_images [of "\<lambda>x. in_keyImage x = k" "m_lockedInputs sw"]
  by (auto simp: shrinks_def SubWallet_markInputAsSpent_def SubWallet_getKeyImages_def split: option.splits)

lemma shrinks_lock: "shrinks sw (SubWallet_markInputAsLocked sw k)"
  using find_mset_images [of "\<lambda>x. in_keyImage x = k" "m_unspentInputs sw"]
  by (auto simp: shrinks_def SubWallet_markInputAsLocked_def SubWallet_getKeyImages_def split: option.splits)

lemma mset_map_filter_subset: "mset (map f (filter P xs)) \<subseteq># mset (map f xs)"
  by (metis mset_map_filter_split mset_subset_eq_add_left)

lemma subset_add_mset: "A \<subseteq># B \<Longrightarrow> A \<subseteq># add_mset a B"
  by (metis add_mset_add_single mset_subset_eq_add_left subset_mset.order_trans)

lemma distinct_subset_mset:
  assumes "mset xs \<subseteq># mset ys" and "distinct ys"
  shows "distinct xs"
proof -
  obtain zs where "mset zs = mset ys - mset xs" using ex_mset by blast
  then have "mset ys = mset (xs @ zs)" using assms(1) by simp
  then have "distinct (xs @ zs)" using assms(2) by (metis mset_eq_imp_distinct_iff)
  then show ?thesis by simp
qed

lemma mset_keys_map_entries: "mset (keys (map_entries f xs)) \<subseteq># mset (keys xs)"
proof (induction xs)
  case (Cons x xs)
  then show ?case
    by (cases x) (auto split: option.splits intro: subset_add_mset)
qed simp

lemma images_of_entries:
  assumes "mset (all_entries sw') = mset (map_entries f (all_entries sw))"
  shows "mset (images sw') \<subseteq># mset (images sw)"
proof -
  have "mset (images sw') = image_mset fst (mset (all_entries sw'))" by (simp flip: keys_all_entries)
  also have "\<dots> = mset (keys (map_entries f (all_entries sw)))" unfolding assms by simp
  finally show ?thesis using mset_keys_map_entries [of f "all_entries sw"] by (simp add: keys_all_entries)
qed

lemma shrinks_fork: "shrinks sw (fst (SubWallet_removeForkedInputs sw h v))"
  using images_of_entries [OF fork_entries] by (simp add: shrinks_def SubWallet_removeForkedInputs_def Let_def)

lemma shrinks_cancel: "shrinks sw (SubWallet_removeCancelledTransactions sw txs)"
  using images_of_entries [OF cancel_entries] by (simp add: shrinks_def SubWallet_removeCancelledTransactions_def Let_def)

lemma shrinks_others:
  "shrinks sw (SubWallet_pruneSpentInputs sw h)" "shrinks sw (SubWallet_reset sw h)"
  "shrinks sw (SubWallet_convertSyncTimestampToHeight sw t h)"
  "shrinks sw (SubWallet_storeUnconfirmedIncomingInput sw u)" "shrinks sw sw"
  using mset_map_filter_subset
  by (auto simp: shrinks_def SubWallet_pruneSpentInputs_def SubWallet_reset_def SubWallet_getKeyImages_def
      SubWallet_convertSyncTimestampToHeight_def SubWallet_storeUnconfirmedIncomingInput_def)


lemma shrinks_set: "shrinks sw sw' \<Longrightarrow> k \<in> set (images sw') \<Longrightarrow> k \<in> set (images sw)"
  by (auto simp: shrinks_def dest!: set_mset_mono)

lemma update_map:
  "distinct (keys m) \<Longrightarrow> map_of m k = Some v \<Longrightarrow> AList.update k w m = map (\<lambda>(k', v). (k', if k' = k then w else v)) m"
proof (induction m)
  case (Cons x m)
  show ?case
  proof (cases "fst x = k")
    case True
    with Cons.prems have "\<forall>y \<in> set m. fst y \<noteq> k" by (auto simp: image_iff)
    then have "map (\<lambda>(k', v). (k', if k' = k then w else v)) m = m" by (induction m) auto
    with True show ?thesis by (cases x) simp
  next
    case False
    with Cons show ?thesis by (cases x) simp
  qed
qed simp

lemma structure_map:
  assumes inv: "structure_inv ws"
    and m: "m_subWallets ws' = map (\<lambda>(k, sw). (k, g k sw)) (m_subWallets ws)"
    and g: "\<And>k sw. (k, sw) \<in> set (m_subWallets ws) \<Longrightarrow>
      m_publicSpendKey (g k sw) = m_publicSpendKey sw \<and> m_isPrimaryAddress (g k sw) = m_isPrimaryAddress sw"
    and same: "m_publicSpendKeys ws' = m_publicSpendKeys ws"
  shows "structure_inv ws'"
proof -
  have "length (filter (m_isPrimaryAddress \<circ> snd) (map (\<lambda>(k, sw). (k, g k sw)) xs))
      = length (filter (m_isPrimaryAddress \<circ> snd) xs)" if "set xs \<subseteq> set (m_subWallets ws)" for xs
    using that g by (induction xs) auto
  from this [of "m_subWallets ws"] have primary: "length (filter (m_isPrimaryAddress \<circ> snd) (m_subWallets ws'))
      = length (filter (m_isPrimaryAddress \<circ> snd) (m_subWallets ws))" by (simp only: m order_refl)
  have keys': "keys (m_subWallets ws') = keys (m_subWallets ws)" unfolding m by (rule keys_map_snd)
  have "\<forall>(pk, sw) \<in> set (m_subWallets ws'). m_publicSpendKey sw = pk"
    using inv g unfolding m structure_inv_def by fastforce
  then show ?thesis using inv unfolding structure_inv_def keys' primary same by simp
qed

text \<open>Changing sub wallets in place by operations that only lose key images keeps the invariant.\<close>

lemma shrink_inv:
  assumes inv: "wallets_inv ws"
    and m: "m_subWallets ws' = map (\<lambda>(k, sw). (k, g k sw)) (m_subWallets ws)"
    and g: "\<And>k sw. (k, sw) \<in> set (m_subWallets ws) \<Longrightarrow> shrinks sw (g k sw)"
    and same: "m_publicSpendKeys ws' = m_publicSpendKeys ws" "m_isViewWallet ws' = m_isViewWallet ws"
      "\<And>k. k \<in> set (wallet_images ws') \<Longrightarrow> map_of (m_keyImageOwners ws') k = map_of (m_keyImageOwners ws) k"
  shows "wallets_inv ws'"
proof -
  have "structure_inv ws'"
    using structure_map [OF _ m _ same(1)] inv g by (simp add: wallets_inv_def shrinks_def)
  moreover have "owners_inv ws'" if "owners_inv ws"
  proof -
    have "mset (concat (map (images \<circ> snd) (map (\<lambda>(k, sw). (k, g k sw)) xs))) \<subseteq># mset (concat (map (images \<circ> snd) xs))"
      if "set xs \<subseteq> set (m_subWallets ws)" for xs
      using that
    proof (induction xs)
      case (Cons x xs)
      then show ?case using g [of "fst x" "snd x"] by (cases x) (auto simp: shrinks_def intro: subset_mset.add_mono)
    qed simp
    from this [of "m_subWallets ws"] have sub: "mset (wallet_images ws') \<subseteq># mset (wallet_images ws)"
      by (simp add: wallet_images_def m)
    then have "distinct (wallet_images ws')"
      using that distinct_subset_mset [OF sub] by (simp add: owners_inv_def)
    moreover have "map_of (m_keyImageOwners ws') k = Some pk"
      if pk: "(pk, sw) \<in> set (m_subWallets ws')" and k: "k \<in> set (images sw)" for pk sw k
    proof -
      obtain sw0 where sw0: "(pk, sw0) \<in> set (m_subWallets ws)" "sw = g pk sw0" using pk m by auto
      then have "k \<in> set (images sw0)" using k shrinks_set [OF g [OF sw0(1)]] by simp
      moreover have "k \<in> set (wallet_images ws')" using pk k by (force simp: wallet_images_def)
      ultimately show ?thesis using \<open>owners_inv ws\<close> sw0(1) same(3) by (auto simp: owners_inv_def)
    qed
    ultimately show ?thesis by (auto simp: owners_inv_def)
  qed
  ultimately show ?thesis using inv same(2) by (auto simp: wallets_inv_def)
qed


lemma put_key_inv:
  assumes "wallets_inv ws" and "map_of (m_subWallets ws) pk = Some sw" and "shrinks sw sw'"
  shows "wallets_inv (put_key ws pk sw')"
proof (rule shrink_inv [OF assms(1), where g = "\<lambda>k v. if k = pk then sw' else v"])
  have d: "distinct (keys (m_subWallets ws))" using assms(1) by (simp add: wallets_inv_def structure_inv_def)
  show "m_subWallets (put_key ws pk sw') = map (\<lambda>(k, v). (k, if k = pk then sw' else v)) (m_subWallets ws)"
    by (simp add: put_key_def update_map [OF d assms(2)])
  show "shrinks v (if k = pk then sw' else v)" if "(k, v) \<in> set (m_subWallets ws)" for k v
    using assms(2,3) map_of_is_SomeI [OF d that] by (cases "k = pk") (simp_all add: shrinks_others)
qed (simp_all add: put_key_def)

lemma map_wallets_inv:
  assumes "wallets_inv ws" and "\<And>sw. shrinks sw (f sw)"
  shows "wallets_inv (map_wallets f ws)"
  by (rule shrink_inv [OF assms(1), where g = "\<lambda>_. f"]) (simp_all add: map_wallets_def assms(2))

text \<open>Fields that the invariant does not mention.\<close>

lemma wallets_inv_cong:
  assumes "m_publicSpendKeys ws' = m_publicSpendKeys ws" "m_subWallets ws' = m_subWallets ws"
    "m_isViewWallet ws' = m_isViewWallet ws" "m_keyImageOwners ws' = m_keyImageOwners ws"
  shows "wallets_inv ws' \<longleftrightarrow> wallets_inv ws"
  using assms by (simp add: wallets_inv_def structure_inv_def owners_inv_def wallet_images_def)

lemma insert_wallet_inv:
  assumes "wallets_inv ws" and "map_of (m_subWallets ws) pk = None"
    and "images sw = []" and "m_publicSpendKey sw = pk" and "\<not> m_isPrimaryAddress sw"
  shows "wallets_inv (insert_wallet pk sw ws)"
proof -
  have "pk \<notin> set (keys (m_subWallets ws))" using assms(2) by (simp add: map_of_eq_None_iff)
  then show ?thesis
    using assms
    by (auto simp: insert_wallet_def put_key_def update_new_append wallets_inv_def structure_inv_def owners_inv_def
        wallet_images_def)
qed

lemma new_wallet_images [simp]:
  "images (SubWallet_standard pk sk a sh ts p) = []" "images (SubWallet_view pk a sh ts p) = []"
  by (simp_all add: SubWallet_getKeyImages_def SubWallet_standard_def SubWallet_view_def)

lemma new_wallet_fields [simp]:
  "m_publicSpendKey (SubWallet_standard pk sk a sh ts p) = pk" "m_isPrimaryAddress (SubWallet_standard pk sk a sh ts p) = p"
  "m_publicSpendKey (SubWallet_view pk a sh ts p) = pk" "m_isPrimaryAddress (SubWallet_view pk a sh ts p) = p"
  by (simp_all add: SubWallet_standard_def SubWallet_view_def)

lemma concat_filter_subset:
  "mset (concat (map f (filter P xs))) \<subseteq># mset (concat (map f xs))"
proof (induction xs)
  case (Cons x xs)
  then show ?case using subset_mset.add_mono [of "{#}" "mset (f x)"] by auto
qed simp

lemma delete_inv:
  assumes inv: "wallets_inv ws" and pk: "map_of (m_subWallets ws) pk = Some sw" and np: "\<not> m_isPrimaryAddress sw"
    and m: "m_subWallets ws' = AList.delete pk (m_subWallets ws)"
      "m_publicSpendKeys ws' = filter (\<lambda>k. k \<noteq> pk) (m_publicSpendKeys ws)"
      "m_isViewWallet ws' = m_isViewWallet ws" "m_keyImageOwners ws' = m_keyImageOwners ws"
  shows "wallets_inv ws'"
proof -
  let ?m = "m_subWallets ws"
  have d: "distinct (keys ?m)" using inv by (simp add: wallets_inv_def structure_inv_def)
  have del: "m_subWallets ws' = filter (\<lambda>e. fst e \<noteq> pk) ?m"
    unfolding m(1) AList.delete_eq by (rule filter_cong) auto
  have "filter (m_isPrimaryAddress \<circ> snd) (filter (\<lambda>e. fst e \<noteq> pk) ?m) = filter (m_isPrimaryAddress \<circ> snd) ?m"
    using np map_of_is_SomeI [OF d] pk by (auto simp: filter_filter intro!: filter_cong)
  moreover have "keys (filter (\<lambda>e. fst e \<noteq> pk) ?m) = filter (\<lambda>k. k \<noteq> pk) (keys ?m)"
    by (simp add: filter_map comp_def)
  moreover have "mset (filter (\<lambda>k. k \<noteq> pk) (m_publicSpendKeys ws)) = mset (filter (\<lambda>k. k \<noteq> pk) (keys ?m))"
    using inv by (simp only: mset_filter wallets_inv_def structure_inv_def)
  ultimately have "structure_inv ws'"
    using inv unfolding wallets_inv_def structure_inv_def del m(2) by (simp del: mset_filter)
  moreover have "owners_inv ws'" if "owners_inv ws"
  proof -
    have "mset (wallet_images ws') \<subseteq># mset (wallet_images ws)"
      unfolding wallet_images_def del by (rule concat_filter_subset)
    then show ?thesis
      using that distinct_subset_mset [of "wallet_images ws'" "wallet_images ws"]
      by (auto simp: owners_inv_def del m(4))
  qed
  ultimately show ?thesis using inv m(3) by (auto simp: wallets_inv_def)
qed

lemma concat_update:
  "map_of m pk = Some sw \<Longrightarrow> mset (f sw') = add_mset k (mset (f sw)) \<Longrightarrow>
     mset (concat (map (f \<circ> snd) (AList.update pk sw' m))) = add_mset k (mset (concat (map (f \<circ> snd) m)))"
  by (induction m) (auto split: if_splits)

lemma store_inv:
  assumes inv: "wallets_inv ws" and new: "in_keyImage inp \<notin> set (wallet_images ws) \<or> m_isViewWallet ws"
    and st: "storeTransactionInput pk inp ws = Inr ws'"
  shows "wallets_inv ws'"
proof -
  let ?m = "m_subWallets ws" and ?k = "in_keyImage inp"
  obtain sw where sw: "map_of ?m pk = Some sw" using st by (auto simp: storeTransactionInput_def split: option.splits)
  define sw' where "sw' = SubWallet_storeTransactionInput sw inp (m_isViewWallet ws)"
  have ws': "m_subWallets ws' = AList.update pk sw' ?m" "m_publicSpendKeys ws' = m_publicSpendKeys ws"
      "m_isViewWallet ws' = m_isViewWallet ws"
      "\<not> m_isViewWallet ws \<Longrightarrow> m_keyImageOwners ws' = AList.update ?k pk (m_keyImageOwners ws)"
    using st sw by (auto simp: storeTransactionInput_def put_key_def sw'_def Let_def split: if_splits)
  have fields: "m_publicSpendKey sw' = m_publicSpendKey sw" "m_isPrimaryAddress sw' = m_isPrimaryAddress sw"
      "mset (images sw') = add_mset ?k (mset (images sw))"
    by (simp_all add: sw'_def SubWallet_storeTransactionInput_def SubWallet_getKeyImages_def Let_def)
  have d: "distinct (keys ?m)" using inv by (simp add: wallets_inv_def structure_inv_def)
  have "structure_inv ws'"
  proof (rule structure_map [of ws ws' "\<lambda>k v. if k = pk then sw' else v"])
    show "m_subWallets ws' = map (\<lambda>(k, v). (k, if k = pk then sw' else v)) ?m"
      by (simp add: ws'(1) update_map [OF d sw])
  qed (use inv ws'(2) fields sw map_of_is_SomeI [OF d] in \<open>auto simp: wallets_inv_def\<close>)
  moreover have "owners_inv ws'" if nv: "\<not> m_isViewWallet ws"
  proof -
    have own: "owners_inv ws" and k: "?k \<notin> set (wallet_images ws)" using inv new nv by (auto simp: wallets_inv_def)
    have "mset (wallet_images ws') = mset (?k # wallet_images ws)"
      using concat_update [OF sw, of "images" sw' ?k] fields(3) by (simp add: wallet_images_def ws'(1))
    then have "distinct (wallet_images ws')" using own k by (metis distinct.simps(2) mset_eq_imp_distinct_iff owners_inv_def)
    moreover have "map_of (m_keyImageOwners ws') j = Some q"
      if q: "(q, v) \<in> set (m_subWallets ws')" and j: "j \<in> set (images v)" for q v j
    proof (cases "q = pk")
      case True
      with q d sw have "v = sw'" by (auto simp: ws'(1) update_map [OF d sw] split: if_splits)
      with j fields(3) have "j = ?k \<or> j \<in> set (images sw)" by (metis insert_iff set_mset_add_mset_insert set_mset_mset)
      then show ?thesis
        using own map_of_SomeD [OF sw] True by (auto simp: owners_inv_def ws'(4) [OF nv] AList.update_conv')
    next
      case False
      with q have v: "(q, v) \<in> set ?m" by (auto simp: ws'(1) update_map [OF d sw] split: if_splits)
      then have "j \<noteq> ?k" using k j by (force simp: wallet_images_def)
      then show ?thesis using own v j by (auto simp: owners_inv_def ws'(4) [OF nv] AList.update_conv')
    qed
    ultimately show ?thesis by (auto simp: owners_inv_def)
  qed
  ultimately show ?thesis using inv ws'(3) by (auto simp: wallets_inv_def)
qed

lemma map_of_fold_delete:
  "map_of (fold AList.delete ks m) k = (if k \<in> set ks then None else map_of m k)"
  by (induction ks arbitrary: m) (auto simp: AList.delete_conv')

lemma concat_part_unique:
  "distinct (concat (map f xs)) \<Longrightarrow> x \<in> set xs \<Longrightarrow> y \<in> set xs \<Longrightarrow> a \<in> set (f x) \<Longrightarrow> a \<in> set (f y) \<Longrightarrow> x = y"
  by (induction xs) auto

lemma distinct_concat_part: "distinct (concat (map f xs)) \<Longrightarrow> x \<in> set xs \<Longrightarrow> distinct (f x)"
  by (induction xs) auto

lemma fork_inv:
  assumes "wallets_inv ws"
  shows "wallets_inv (removeForkedTransactions h ws)"
proof -
  let ?g = "\<lambda>k sw. fst (SubWallet_removeForkedInputs sw h (m_isViewWallet ws))"
  let ?ws = "removeForkedTransactions h ws"
  let ?r = "concat (map (\<lambda>(k, sw). snd (SubWallet_removeForkedInputs sw h (m_isViewWallet ws))) (m_subWallets ws))"
  have m: "m_subWallets ?ws = map (\<lambda>(k, sw). (k, ?g k sw)) (m_subWallets ws)"
      "m_keyImageOwners ?ws = fold AList.delete ?r (m_keyImageOwners ws)"
    by (simp_all add: removeForkedTransactions_def map_wallets_def Let_def case_prod_unfold comp_def)
  have r: "k \<notin> set ?r" if k: "k \<in> set (wallet_images ?ws)" for k
  proof (cases "m_isViewWallet ws")
    case True
    then show ?thesis by (auto simp: SubWallet_removeForkedInputs_def Let_def)
  next
    case False
    then have d: "distinct (concat (map (images \<circ> snd) (m_subWallets ws)))"
      using assms by (simp add: wallets_inv_def owners_inv_def wallet_images_def)
    from k obtain e where e: "e \<in> set (m_subWallets ws)" "k \<in> set (images (?g (fst e) (snd e)))"
      by (auto simp: wallet_images_def m(1))
    then have ke: "k \<in> set (images (snd e))" using shrinks_set shrinks_fork by blast
    show ?thesis
    proof
      assume "k \<in> set ?r"
      then obtain e' where e': "e' \<in> set (m_subWallets ws)"
          "k \<in> set (snd (SubWallet_removeForkedInputs (snd e') h False))" using False by auto
      have "distinct (images (snd e'))" using distinct_concat_part [OF d e'(1)] by simp
      then have r: "k \<in> set (images (snd e'))" "k \<notin> set (images (fst (SubWallet_removeForkedInputs (snd e') h False)))"
        using removed_key_images [of "snd e'" h] e'(2) by (simp_all add: subwallet_inv_def)
      with concat_part_unique [OF d e(1) e'(1)] ke have "e = e'" by simp
      with r e(2) False show False by simp
    qed
  qed
  show ?thesis
  proof (rule shrink_inv [OF assms m(1)])
    show "map_of (m_keyImageOwners ?ws) k = map_of (m_keyImageOwners ws) k" if "k \<in> set (wallet_images ?ws)" for k
      unfolding m(2) map_of_fold_delete using r [OF that] by (simp only: if_False)
  qed (simp_all add: shrinks_fork removeForkedTransactions_def map_wallets_def Let_def)
qed

lemma deleteSubWallet_inv:
  assumes "wallets_inv ws" and "deleteSubWallet H ck a ws = Inr (ws', e)"
  shows "wallets_inv ws'"
proof (cases "addressToKeys H ck a")
  case (Inr kv)
  show ?thesis
  proof (cases "map_of (m_subWallets ws) (fst kv)")
    case None
    then show ?thesis using assms Inr by (simp add: deleteSubWallet_def case_prod_beta)
  next
    case (Some sw)
    show ?thesis
    proof (cases "m_isPrimaryAddress sw")
      case True
      then show ?thesis using assms Inr Some by (simp add: deleteSubWallet_def case_prod_beta)
    next
      case False
      show ?thesis
        by (rule delete_inv [OF assms(1) Some False])
           (use assms(2) Inr Some False in \<open>auto simp: deleteSubWallet_def case_prod_beta\<close>)
    qed
  qed
qed (use assms in \<open>simp add: deleteSubWallet_def\<close>)

lemma step_inv:
  assumes "wallet_step H s2p ck ws ws'" and "wallets_inv ws"
  shows "wallets_inv ws'"
  using assms
proof (cases rule: wallet_step.cases)
  case (add kp now)
  then show ?thesis
    using assms(2)
    by (auto simp: addSubWallet_def Let_def map_of_eq_None_iff intro!: insert_wallet_inv split: prod.splits)
next
  case (import_wallet sk h)
  then show ?thesis
    using assms(2) by (auto simp: importSubWallet_def Let_def intro!: insert_wallet_inv)
next
  case (import_view pk h)
  then show ?thesis
    using assms(2) by (auto simp: importViewSubWallet_def Let_def intro!: insert_wallet_inv)
next
  case (delete a e)
  then show ?thesis using assms(2) deleteSubWallet_inv by blast
next
  case (unconfirmed_tx tx)
  then show ?thesis using assms(2) by (subst wallets_inv_cong [of _ ws]) (simp_all add: addUnconfirmedTransaction_def)
next
  case (add_tx tx)
  then show ?thesis using assms(2) by (subst wallets_inv_cong [of _ ws]) (simp_all add: addTransaction_def Let_def)
next
  case (tx_key sk th)
  then show ?thesis using assms(2) by (subst wallets_inv_cong [of _ ws]) (simp_all add: storeTxPrivateKey_def)
next
  case (store inp pk)
  then show ?thesis using store_inv assms(2) by blast
next
  case (unconfirmed_input u pk)
  then show ?thesis
    using assms(2)
    by (auto simp: storeUnconfirmedIncomingInput_def split: option.splits intro!: put_key_inv shrinks_others)
next
  case (spend k pk h)
  then show ?thesis
    using assms(2)
    by (auto simp: markInputAsSpent_def throwIfViewWallet_def at_key_def split: option.splits if_splits
        intro!: put_key_inv shrinks_spend)
next
  case (lock k pk)
  then show ?thesis
    using assms(2)
    by (auto simp: markInputAsLocked_def throwIfViewWallet_def at_key_def split: option.splits if_splits
        intro!: put_key_inv shrinks_lock)
next
  case (fork h)
  then show ?thesis using fork_inv assms(2) by simp
next
  case (cancel txs)
  then show ?thesis
    using assms(2)
    by (auto simp: removeCancelledTransactions_def throwIfViewWallet_def Let_def split: if_splits
        intro!: map_wallets_inv shrinks_cancel wallets_inv_cong [THEN iffD2, of _ ws])
next
  case (reset h)
  then show ?thesis
    using assms(2) by (auto simp: reset_def
        intro!: map_wallets_inv shrinks_others wallets_inv_cong [THEN iffD2, of _ ws])
next
  case (convert t h)
  then show ?thesis
    using assms(2) by (auto simp: convertSyncTimestampToHeight_def intro!: map_wallets_inv shrinks_others)
next
  case (prune h)
  then show ?thesis
    using assms(2) by (auto simp: pruneSpentInputs_def intro!: map_wallets_inv shrinks_others)
qed


lemma new_inv: "wallets_inv (SubWallets_new s2p now sk vk a h b)"
  by (simp add: SubWallets_new_def Let_def wallets_inv_def structure_inv_def owners_inv_def wallet_images_def)

lemma new_view_inv: "SubWallets_new_view H ck now vk a h b = Inr ws \<Longrightarrow> wallets_inv ws"
  by (auto simp: SubWallets_new_view_def Let_def wallets_inv_def structure_inv_def split: sum.splits prod.splits)

lemma reachable_inv: "wallet_reachable H s2p ck ws \<Longrightarrow> wallets_inv ws"
proof (induction rule: wallet_reachable.induct)
  case step
  then show ?case by (simp add: step_inv)
qed (simp_all add: new_inv new_view_inv)


section \<open>Choosing inputs\<close>

definition input_sum :: "TxInputAndOwner list \<Rightarrow> u64" where
  "input_sum xs = sum_list (map (in_amount \<circ> own_input) xs)"

lemma input_sum_simps [simp]: "input_sum [] = 0" "input_sum (x # xs) = in_amount (own_input x) + input_sum xs"
  by (simp_all add: input_sum_def)

text \<open>The loop takes the shortest non-empty prefix that reaches the amount, or throws.\<close>

lemma take_inputs_Inr:
  assumes "take_inputs amt xs used found = Inr (u, f)" and "\<forall>x \<in> set xs. INPUT_NOT_SENDING \<le> in_amount (own_input x)"
  shows "\<exists>n. 0 < n \<and> n \<le> length xs \<and> u = used @ take n xs \<and> f = found + input_sum (take n xs) \<and> amt \<le> f
    \<and> (\<forall>m. 0 < m \<longrightarrow> m < n \<longrightarrow> found + input_sum (take m xs) < amt)"
  using assms
proof (induction xs arbitrary: used found)
  case (Cons x xs)
  let ?f = "found + in_amount (own_input x)"
  show ?case
  proof (cases "amt \<le> ?f")
    case True
    with Cons.prems show ?thesis by (intro exI [of _ 1]) auto
  next
    case False
    with Cons.prems have "take_inputs amt xs (used @ [x]) ?f = Inr (u, f)" by simp
    from Cons.IH [OF this] Cons.prems(2) obtain n where n: "0 < n" "n \<le> length xs" "u = (used @ [x]) @ take n xs"
        "f = ?f + input_sum (take n xs)" "amt \<le> f" "\<forall>m. 0 < m \<longrightarrow> m < n \<longrightarrow> ?f + input_sum (take m xs) < amt"
      by auto
    have "found + input_sum (take m (x # xs)) < amt" if "0 < m" "m < Suc n" for m
      using that n(6) False by (cases m; cases "m - 1") (auto simp: add.assoc)
    with n show ?thesis by (intro exI [of _ "Suc n"]) (auto simp: add.assoc)
  qed
qed simp

lemma take_inputs_Inl:
  assumes "take_inputs amt xs used found = Inl e" and "\<forall>x \<in> set xs. INPUT_NOT_SENDING \<le> in_amount (own_input x)"
  shows "e = InvalidArgument ''Not enough funds found!'' \<and> (xs = [] \<or> found + input_sum xs < amt)"
  using assms
proof (induction xs arbitrary: used found)
  case (Cons x xs)
  let ?f = "found + in_amount (own_input x)"
  have "\<not> amt \<le> ?f" "take_inputs amt xs (used @ [x]) ?f = Inl e"
    using Cons.prems by (auto simp: Let_def split: if_splits)
  with Cons.IH [OF this(2)] Cons.prems(2) show ?case by (auto simp: add.assoc)
qed simp

lemma available_sending:
  "\<forall>x \<in> set (available_inputs now h wallets). INPUT_NOT_SENDING \<le> in_amount (own_input x)"
  by (auto simp: available_inputs_def)

lemma available_spendable:
  "x \<in> set (available_inputs now h wallets) \<Longrightarrow>
     \<exists>sw \<in> set wallets. own_input x \<in> set (m_unspentInputs sw) \<and> own_publicSpendKey x = m_publicSpendKey sw
       \<and> isInputUnlocked now (in_unlockTime (own_input x)) h"
  by (auto simp: available_inputs_def SubWallet_getSpendableInputs_def)


lemma sum_balances_total:
  "set pks \<subseteq> set (keys (m_subWallets ws)) \<Longrightarrow> \<exists>b. sum_balances now ws h pks acc = Inr b"
proof (induction pks arbitrary: acc)
  case (Cons pk pks)
  then obtain sw where "map_of (m_subWallets ws) pk = Some sw"
    by (metis list.set_intros(1) map_of_eq_None_iff not_None_eq set_map subsetD)
  with Cons show ?case by (auto simp: at_key_def split: prod.splits)
qed simp

lemma mset_take_subset: "mset (take n xs) \<subseteq># mset xs"
  by (metis append_take_drop_id mset_append mset_subset_eq_add_left)

text \<open>A wallet with one address and one input, for the examples.\<close>

definition sample_wallets :: SubWallets where
  "sample_wallets = SubWallets_new (\<lambda>sk. sk) 0 (replicate 32 5) (replicate 32 6) ''dg1'' 0 False"

definition funded_wallets :: SubWallets where
  "funded_wallets = put_key
     (sample_wallets\<lparr> m_keyImageOwners := [(replicate 32 1, replicate 32 5)] \<rparr>)
     (replicate 32 5)
     (SubWallet_storeTransactionInput
        (SubWallet_standard (replicate 32 5) (replicate 32 5) ''dg1'' 0 0 True) sample_input False)"

lemma funded_wallets_store: "storeTransactionInput (replicate 32 5) sample_input sample_wallets = Inr funded_wallets"
  by (simp add: storeTransactionInput_def sample_wallets_def SubWallets_new_def Let_def funded_wallets_def put_key_def
      sample_input_def)

lemma funded_wallets_reachable: "wallet_reachable H (\<lambda>sk. sk) check_key funded_wallets"
proof (rule wallet_reachable.step)
  show "wallet_reachable H (\<lambda>sk. sk) check_key sample_wallets"
    unfolding sample_wallets_def by (rule wallet_reachable.new)
  show "wallet_step H (\<lambda>sk. sk) check_key sample_wallets funded_wallets"
    by (rule wallet_step.store [OF _ funded_wallets_store])
       (simp add: wallet_images_def sample_wallets_def SubWallets_new_def Let_def)
qed


section \<open>Properties\<close>





text \<open>
  C28: Deleting an address leaves its key images on record. When a transaction that spends one of
  them is seen later, the owner is reported as found, and marking the input as spent throws.
\<close>

theorem deleted_wallet_throws:
  assumes "deleteSubWallet H check_key a ws = Inr (ws', success)" and "addressToKeys H check_key a = Inr (pk, vk)"
    and "\<not> m_isViewWallet ws" and "getKeyImageOwner ws k = (True, pk)"
  shows "getKeyImageOwner ws' k = (True, pk) \<and> markInputAsSpent k pk h ws' = Inl OutOfRange"
proof -
  from assms(1,2) obtain sw where "map_of (m_subWallets ws) pk = Some sw"
      and ws': "m_subWallets ws' = AList.delete pk (m_subWallets ws)" "m_keyImageOwners ws' = m_keyImageOwners ws"
        "m_isViewWallet ws' = m_isViewWallet ws"
    by (auto simp: deleteSubWallet_def split: option.splits if_splits)
  have "map_of (m_subWallets ws') pk = None" by (simp add: ws'(1) AList.delete_conv')
  with ws'(2,3) assms(3,4) show ?thesis
    by (simp add: getKeyImageOwner_def markInputAsSpent_def throwIfViewWallet_def at_key_def)
qed


theorem deleted_wallet_throws_witness:
  "\<exists>ws'. getKeyImageOwner ws' (replicate 32 1) = (True, replicate 32 5)
     \<and> markInputAsSpent (replicate 32 1) (replicate 32 5) 77 ws' = Inl OutOfRange"
proof -
  let ?H = "\<lambda>bs :: bytes. replicate 32 7 :: u8 list" and ?pk = "replicate 32 5 :: u8 list" and ?vk = "replicate 32 6 :: u8 list"
  let ?a = "publicKeysToAddress ?H ?pk ?vk"
  let ?ws = "\<lparr> m_publicSpendKeys = [?pk], m_subWallets = [(?pk, SubWallet_standard ?pk ?pk ?a 0 0 False)],
     m_transactions = [], m_lockedTransactions = [], m_privateViewKey = ?vk, m_isViewWallet = False,
     m_transactionPrivateKeys = [], m_keyImageOwners = [(replicate 32 1, ?pk)] \<rparr>"
  have a: "addressToKeys ?H (\<lambda>_. True) ?a = Inr (?pk, ?vk)"
    using parse_standard [of ?H "\<lparr> spendPublicKey = ?pk, viewPublicKey = ?vk \<rparr>" "\<lambda>_. True"]
    by (simp add: publicKeysToAddress_def addressToKeys_def wf_address_def)
  have "\<exists>ws'. deleteSubWallet ?H (\<lambda>_. True) ?a ?ws = Inr (ws', success)"
    unfolding deleteSubWallet_def a by simp
  then obtain ws' where "deleteSubWallet ?H (\<lambda>_. True) ?a ?ws = Inr (ws', success)" by blast
  from deleted_wallet_throws [OF this a, of "replicate 32 1" 77] show ?thesis
    by (auto simp: getKeyImageOwner_def)
qed

end
