(* ===== verification/ValidateParameters.thy ===== *)
theory ValidateParameters
  imports SubWallets
begin

text \<open>
  The part of \<open>src/errors/ValidateParameters.cpp\<close> that looks into the wallet: what is checked before
  a transaction is built. \<open>Inl\<close> is an exception that leaves the function, \<open>None\<close> a use of keys that
  were never read (see \<open>Addresses\<close>).

  The properties: a transaction that passes has positive amounts whose sum with the fee does not
  overflow and is covered by the unlocked balance of the chosen addresses; and the balance that is
  compared includes small inputs that the selection never uses.
\<close>


section \<open>Definitions\<close>

fun ours_loop ::
  "(bytes \<Rightarrow> hash) \<Rightarrow> (public_key \<Rightarrow> bool) \<Rightarrow> string list \<Rightarrow> SubWallets \<Rightarrow> exc + Error" where
  "ours_loop H check_key [] ws = Inr success"
| "ours_loop H check_key (address' # addresses) ws =
     (case addressToKeys H check_key address' of Inl e \<Rightarrow> Inl e
      | Inr (spendKey, viewKey) \<Rightarrow>
          if spendKey \<notin> set (m_publicSpendKeys ws) then
            Inr (mkError_message ADDRESS_NOT_IN_WALLET
              (''The address given ('' @ address'
               @ '') does not exist in the wallet container, but it is required to exist for this operation.''))
          else ours_loop H check_key addresses ws)"

definition validateOurAddresses ::
  "(bytes \<Rightarrow> hash) \<Rightarrow> (public_key \<Rightarrow> bool) \<Rightarrow> string list \<Rightarrow> SubWallets \<Rightarrow> exc + Error" where
  "validateOurAddresses H check_key addresses ws =
     (case validateAddresses H check_key addresses False of Inl e \<Rightarrow> Inl e
      | Inr err \<Rightarrow> if is_error err then Inr err else ours_loop H check_key addresses ws)"

definition validateAmount ::
  "(bytes \<Rightarrow> hash) \<Rightarrow> (public_key \<Rightarrow> bool) \<Rightarrow> u64 \<Rightarrow> (string \<times> u64) list \<Rightarrow> u64 \<Rightarrow> string list \<Rightarrow>
   SubWallets \<Rightarrow> u64 \<Rightarrow> exc + Error" where
  "validateAmount H check_key now destinations fee subWalletsToTakeFrom ws currentHeight =
     (let minFee = getMinimumFee currentHeight
      in if fee < minFee then Inr (mkError FEE_TOO_SMALL)
         else case addressesToSpendKeys H check_key subWalletsToTakeFrom of Inl e \<Rightarrow> Inl e
              | Inr spendKeys \<Rightarrow>
                  (case getBalance now ws spendKeys (subWalletsToTakeFrom = []) currentHeight of Inl e \<Rightarrow> Inl e
                   | Inr (availableBalance, lockedBalance) \<Rightarrow>
                       let totalAmount' = getTransactionSum destinations + fee;
                           amounts = fee # map snd destinations
                       in if sumWillOverflow amounts then Inr (mkError WILL_OVERFLOW)
                          else if totalAmount' > availableBalance then Inr (mkError NOT_ENOUGH_BALANCE)
                          else Inr success))"

text \<open>The next check runs when the one before reported success.\<close>

definition and_then :: "(exc + Error) option \<Rightarrow> (exc + Error) option \<Rightarrow> (exc + Error) option" where
  "and_then r rest =
     (case r of None \<Rightarrow> None | Some (Inl e) \<Rightarrow> Some (Inl e)
      | Some (Inr err) \<Rightarrow> if is_error err then Some (Inr err) else rest)"

definition validateTransaction ::
  "(bytes \<Rightarrow> hash) \<Rightarrow> (public_key \<Rightarrow> bool) \<Rightarrow> u64 \<Rightarrow> (string \<times> u64) list \<Rightarrow> u64 \<Rightarrow> u64 \<Rightarrow> string \<Rightarrow>
   string list \<Rightarrow> string \<Rightarrow> SubWallets \<Rightarrow> u64 \<Rightarrow> u64 \<Rightarrow> (exc + Error) option" where
  "validateTransaction H check_key now destinations mixin fee paymentID subWalletsToTakeFrom changeAddress
      ws unlockTime' currentHeight =
     and_then (Some (validateDestinations H check_key destinations))
    (and_then (validateIntegratedAddresses H destinations paymentID)
    (and_then (Some (validateOurAddresses H check_key subWalletsToTakeFrom ws))
    (and_then (Some (validateAmount H check_key now destinations fee subWalletsToTakeFrom ws currentHeight))
    (and_then (Some (Inr (validateMixin mixin currentHeight)))
    (and_then (Some (Inr (validatePaymentID paymentID)))
    (and_then (Some (validateOurAddresses H check_key [changeAddress] ws))
      (Some (Inr success))))))))"

definition validateFusionTransaction ::
  "(bytes \<Rightarrow> hash) \<Rightarrow> (public_key \<Rightarrow> bool) \<Rightarrow> u64 \<Rightarrow> string list \<Rightarrow> string \<Rightarrow> SubWallets \<Rightarrow> u64 \<Rightarrow>
   (exc + Error) option" where
  "validateFusionTransaction H check_key mixin subWalletsToTakeFrom destinationAddress ws currentHeight =
     and_then (Some (Inr (validateMixin mixin currentHeight)))
    (and_then (Some (validateOurAddresses H check_key subWalletsToTakeFrom ws))
    (and_then (Some (validateOurAddresses H check_key [destinationAddress] ws))
      (Some (Inr success))))"


section \<open>Facts\<close>

lemma and_then_success:
  "and_then r rest = Some (Inr e) \<Longrightarrow> \<not> is_error e \<Longrightarrow> (\<exists>e'. r = Some (Inr e') \<and> \<not> is_error e') \<and> rest = Some (Inr e)"
  by (auto simp: and_then_def split: option.splits sum.splits if_splits)

lemma validateMixin_ok:
  "\<not> is_error (validateMixin mixin h) \<Longrightarrow>
     fst (getMixinAllowableRange h) \<le> mixin \<and> mixin \<le> fst (snd (getMixinAllowableRange h))"
  by (auto simp: validateMixin_def split: prod.splits if_splits)

lemma validateAmount_ok:
  assumes "validateAmount H ck now ds fee from ws h = Inr e" and "\<not> is_error e"
  shows "\<exists>keys' u l. addressesToSpendKeys H ck from = Inr keys' \<and> getBalance now ws keys' (from = []) h = Inr (u, l)
    \<and> getMinimumFee h \<le> fee \<and> total (map snd ds) + unat fee \<le> unat u"
proof -
  have fee: "\<not> fee < getMinimumFee h" using assms by (auto simp: validateAmount_def split: if_splits)
  with assms obtain ks u l where b: "addressesToSpendKeys H ck from = Inr ks" "getBalance now ws ks (from = []) h = Inr (u, l)"
    by (auto simp: validateAmount_def split: sum.splits)
  with assms fee have o: "\<not> sumWillOverflow (fee # map snd ds)" and le: "\<not> u < getTransactionSum ds + fee"
    by (auto simp: validateAmount_def Let_def split: if_splits)
  from o have t: "unat fee + total (map snd ds) < 2 ^ 64" by (simp add: sumWillOverflow_iff)
  then have "unat (getTransactionSum ds) = total (map snd ds)" by (simp add: getTransactionSum_eq)
  with t have "unat (getTransactionSum ds + fee) = total (map snd ds) + unat fee" by (simp add: unat_add_fits)
  with le have "total (map snd ds) + unat fee \<le> unat u" by (simp add: word_less_nat_alt not_less)
  with fee b show ?thesis by auto
qed

lemma validateDestinations_ok:
  "validateDestinations H ck ds = Inr e \<Longrightarrow> \<not> is_error e \<Longrightarrow> ds \<noteq> [] \<and> (\<forall>d \<in> set ds. snd d \<noteq> 0)"
  by (auto simp: validateDestinations_def split: if_splits)


text \<open>A payment of an own address to itself, with a constant hash function and every key valid.\<close>

definition sample_hash :: "bytes \<Rightarrow> hash" where
  "sample_hash bs = replicate 32 7"

definition sample_address :: string where
  "sample_address = publicKeysToAddress sample_hash (replicate 32 5) (replicate 32 6)"

lemma sample_address_valid:
  "validateAddresses sample_hash (\<lambda>_. True) [sample_address] b = Inr success"
  "addressToKeys sample_hash (\<lambda>_. True) sample_address = Inr (replicate 32 5, replicate 32 6)"
  "length sample_address = standardAddressLength"
proof -
  let ?a = "\<lparr> spendPublicKey = replicate 32 5 :: u8 list, viewPublicKey = replicate 32 6 :: u8 list \<rparr>"
  have H: "\<forall>bs. length (sample_hash bs) = 32" and a: "wf_address ?a" by (simp_all add: sample_hash_def wf_address_def)
  show "validateAddresses sample_hash (\<lambda>_. True) [sample_address] b = Inr success"
    using validate_standard [OF H a] by (simp add: sample_address_def publicKeysToAddress_def)
  show "addressToKeys sample_hash (\<lambda>_. True) sample_address = Inr (replicate 32 5, replicate 32 6)"
    using parse_standard [OF H a] by (simp add: sample_address_def publicKeysToAddress_def addressToKeys_def)
  show "length sample_address = standardAddressLength"
    using standard_look(2) [OF H a] by (simp add: sample_address_def publicKeysToAddress_def)
qed

lemma sample_validates:
  assumes "replicate 32 5 \<in> set (m_publicSpendKeys ws)" and "getBalance 0 ws [] True 20 = Inr (u, l)"
    and "0 < amt" and "unat amt < 2 ^ 32" and "unat amt + 10 \<le> unat u"
  shows "validateTransaction sample_hash (\<lambda>_. True) 0 [(sample_address, amt)] 3 10 [] [] sample_address ws 0 20
    = Some (Inr success)"
proof -
  have "unat (amt + 10) = unat amt + 10" using assms(4) unat_add_fits [of amt 10] by simp
  then have "\<not> u < amt + 10" using assms(5) by (simp add: word_less_nat_alt)
  moreover have "\<not> sumWillOverflow [10, amt]" using assms(4) by (simp add: sumWillOverflow_iff)
  ultimately have "validateAmount sample_hash (\<lambda>_. True) 0 [(sample_address, amt)] 10 [] ws 20 = Inr success"
    using assms(2) by (simp add: validateAmount_def getMinimumFee_def config getTransactionSum_def)
  then show ?thesis
    using assms(1,3) sample_address_valid
    by (simp add: validateTransaction_def and_then_def validateDestinations_def validateOurAddresses_def
        validateMixin_def getMixinAllowableRange_def config validatePaymentID_def wallet_config)
qed

definition wallets_with :: "u64 \<Rightarrow> SubWallets" where
  "wallets_with amt = put_key sample_wallets (replicate 32 5)
     (SubWallet_storeTransactionInput
        (SubWallet_standard (replicate 32 5) (replicate 32 5) ''dg1'' 0 0 True) (sample_input\<lparr> in_amount := amt \<rparr>) False)"

lemmas wallets_with_defs = wallets_with_def sample_wallets_def SubWallets_new_def Let_def put_key_def at_key_def
  SubWallet_storeTransactionInput_def SubWallet_standard_def sample_input_def

lemma wallets_with_balance: "getBalance 0 (wallets_with amt) [] True 20 = Inr (amt, 0)"
  by (simp add: wallets_with_defs getBalance_def SubWallet_getBalance_def isInputUnlocked_def)


section \<open>Properties\<close>

text \<open>
  C22: A transaction that \<open>validateTransaction\<close> accepts has destinations, each with a positive amount,
  a mixin in the range allowed at that height and at least the minimum fee; the sum of the amounts
  and the fee, without any wrap-around, is covered by the unlocked balance of the chosen addresses.
\<close>

theorem validated_transaction_covered:
  assumes "validateTransaction H check_key now ds mixin fee pid from change ws unlock h = Some (Inr success)"
  shows "ds \<noteq> [] \<and> (\<forall>d \<in> set ds. snd d \<noteq> 0)
    \<and> fst (getMixinAllowableRange h) \<le> mixin \<and> mixin \<le> fst (snd (getMixinAllowableRange h))
    \<and> getMinimumFee h \<le> fee
    \<and> (\<exists>spendKeys u l. addressesToSpendKeys H check_key from = Inr spendKeys
        \<and> getBalance now ws spendKeys (from = []) h = Inr (u, l) \<and> total (map snd ds) + unat fee \<le> unat u)"
proof -
  have ns: "\<not> is_error success" by simp
  note s1 = and_then_success [OF assms [unfolded validateTransaction_def] ns]
  note s2 = and_then_success [OF conjunct2 [OF s1] ns]
  note s3 = and_then_success [OF conjunct2 [OF s2] ns]
  note s4 = and_then_success [OF conjunct2 [OF s3] ns]
  note s5 = and_then_success [OF conjunct2 [OF s4] ns]
  show ?thesis
    using s1 s4 s5 validateDestinations_ok [of H check_key ds] validateMixin_ok [of mixin h]
      validateAmount_ok [of H check_key now ds fee "from" ws h] by blast
qed


theorem validated_transaction_covered_witness:
  "validateTransaction sample_hash (\<lambda>_. True) 0 [(sample_address, 4000)] 3 10 [] [] sample_address (wallets_with 5000) 0 20
     = Some (Inr success)
   \<and> getMinimumFee 20 \<le> 10"
proof -
  have "validateTransaction sample_hash (\<lambda>_. True) 0 [(sample_address, 4000)] 3 10 [] [] sample_address
      (wallets_with 5000) 0 20 = Some (Inr success)"
    by (rule sample_validates [OF _ wallets_with_balance]) (simp_all add: wallets_with_defs)
  with validated_transaction_covered [OF this] show ?thesis by simp
qed

text \<open>
  The balance that is compared counts inputs below \<open>INPUT_NOT_SENDING\<close>, which the selection never
  takes: a payment passes every check, and choosing inputs for it throws.
\<close>

lemma dust_passes_validation:
  "validateTransaction sample_hash (\<lambda>_. True) 0 [(sample_address, 500)] 3 10 [] [] sample_address (wallets_with 999) 0 20
     = Some (Inr success)
   \<and> getTransactionInputsForAmount (\<lambda>inps. inps) 0 (wallets_with 999) 510 True [] 20
     = Inl (InvalidArgument ''Not enough funds found!'')"
proof
  show "validateTransaction sample_hash (\<lambda>_. True) 0 [(sample_address, 500)] 3 10 [] [] sample_address
      (wallets_with 999) 0 20 = Some (Inr success)"
    by (rule sample_validates [OF _ wallets_with_balance]) (simp_all add: wallets_with_defs)
  have "\<exists>sw. get_wallets (wallets_with 999) (m_publicSpendKeys (wallets_with 999)) = Inr [sw]
      \<and> available_inputs 0 20 [sw] = []"
    by (simp add: wallets_with_defs available_inputs_def SubWallet_getSpendableInputs_def config word_le_nat_alt)
  moreover have "\<not> m_isViewWallet (wallets_with 999)" by (simp add: wallets_with_defs)
  ultimately show "getTransactionInputsForAmount (\<lambda>inps. inps) 0 (wallets_with 999) 510 True [] 20
     = Inl (InvalidArgument ''Not enough funds found!'')"
    by (auto simp: getTransactionInputsForAmount_def throwIfViewWallet_def)
qed

end
