(* ===== verification/Synchronization.thy ===== *)
theory Synchronization
  imports Config "HOL-Library.Sublist"
begin

text \<open>
  How a wallet follows the chain: \<open>src/transfers/SynchronizationState.cpp\<close> (the block hashes a
  consumer has seen), \<open>updateConsumers\<close> of \<open>src/transfers/BlockchainSynchronizer.cpp\<close> (what is done
  with an interval of blocks from the node) and \<open>src/walletbackend/SynchronizationStatus.cpp\<close> (the
  hashes kept to resume from). A failed \<open>assert\<close> and an access out of range are \<open>None\<close>.
\<close>


section \<open>SynchronizationState\<close>

type_synonym chain = "hash list"

record CheckResult =
  detachRequired :: bool
  detachHeight :: u32
  hasNewBlocks :: bool
  newBlockHeight :: u32

record BlockchainInterval =
  startHeight :: u32
  interval_blocks :: "hash list"

definition SynchronizationState_new :: "hash \<Rightarrow> chain" where
  "SynchronizationState_new genesisBlockHash = [genesisBlockHash]"

definition size32 :: "'a list \<Rightarrow> u32" where
  "size32 xs = word_of_nat (length xs)"

text \<open>
  The loop of \<open>getShortHistory\<close>: the offset grows by one ten times and then by doubling steps. In
  32 bits both the offset and the step may wrap, and then the loop need not end.
\<close>

partial_function (option) short_history_loop ::
  "chain \<Rightarrow> u32 \<Rightarrow> u32 \<Rightarrow> u32 \<Rightarrow> u32 \<Rightarrow> bool \<Rightarrow> hash list \<Rightarrow> (bool \<times> hash list) option" where
  "short_history_loop m_blockchain sz i current_multiplier current_back_offset genesis_included history =
     (if current_back_offset < sz then
        let history = history @ [m_blockchain ! unat (sz - current_back_offset)];
            genesis_included = (if sz - current_back_offset = 0 then True else genesis_included)
        in if i < 10
           then short_history_loop m_blockchain sz (i + 1) current_multiplier (current_back_offset + 1)
                  genesis_included history
           else short_history_loop m_blockchain sz (i + 1) (current_multiplier * 2)
                  (current_back_offset + current_multiplier * 2) genesis_included history
      else Some (genesis_included, history))"

definition getShortHistory :: "chain \<Rightarrow> u32 \<Rightarrow> hash list option" where
  "getShortHistory m_blockchain localHeight =
     (let sz = min (size32 m_blockchain) (localHeight + 1)
      in if sz = 0 then Some []
         else case short_history_loop m_blockchain sz 0 1 1 False [] of None \<Rightarrow> None
              | Some (genesis_included, history) \<Rightarrow>
                  Some (if \<not> genesis_included then history @ [m_blockchain ! 0] else history))"

definition checkInterval :: "chain \<Rightarrow> BlockchainInterval \<Rightarrow> CheckResult option" where
  "checkInterval m_blockchain interval =
     (if \<not> unat (startHeight interval) \<le> length m_blockchain then None
      else
        let intervalEnd = startHeight interval + size32 (interval_blocks interval);
            iterationEnd = min (size32 m_blockchain) intervalEnd
        in case List.find (\<lambda>i. m_blockchain ! i \<noteq> interval_blocks interval ! (i - unat (startHeight interval)))
                  [unat (startHeight interval)..<unat iterationEnd] of
             Some i \<Rightarrow> Some \<lparr> detachRequired = True, detachHeight = word_of_nat i,
                            hasNewBlocks = True, newBlockHeight = word_of_nat i \<rparr>
           | None \<Rightarrow>
               if unat intervalEnd > length m_blockchain
               then Some \<lparr> detachRequired = False, detachHeight = 0,
                           hasNewBlocks = True, newBlockHeight = size32 m_blockchain \<rparr>
               else Some \<lparr> detachRequired = False, detachHeight = 0, hasNewBlocks = False, newBlockHeight = 0 \<rparr>)"

definition detach :: "chain \<Rightarrow> u32 \<Rightarrow> chain option" where
  "detach m_blockchain height =
     (if unat height < length m_blockchain then Some (take (unat height) m_blockchain) else None)"

text \<open>\<open>blockHashes\<close> is the rest of the vector the pointer points into.\<close>

definition addBlocks :: "chain \<Rightarrow> hash list \<Rightarrow> u32 \<Rightarrow> u32 \<Rightarrow> chain option" where
  "addBlocks m_blockchain blockHashes height cnt =
     (let height = (if height = 0 then 1 else height)
      in if length m_blockchain = unat height \<and> unat cnt \<le> length blockHashes
         then Some (m_blockchain @ take (unat cnt) blockHashes) else None)"

definition getHeight :: "chain \<Rightarrow> u32" where
  "getHeight m_blockchain = size32 m_blockchain"


section \<open>updateConsumers\<close>

datatype UpdateConsumersResult = nothingChanged | addedNewBlocks | errorOccurred

record update_state =
  smthChanged :: bool
  hasErrors :: bool
  lastBlockIndex :: u32

text \<open>
  One consumer: \<open>onNewBlocks\<close> is given the offset into the interval, the height and the number of
  blocks, and answers how many it took.
\<close>

definition update_consumer ::
  "(u32 \<Rightarrow> u32 \<Rightarrow> u32 \<Rightarrow> u32) \<Rightarrow> BlockchainInterval \<Rightarrow> chain \<Rightarrow> update_state \<Rightarrow> (chain \<times> update_state) option" where
  "update_consumer onNewBlocks interval m_blockchain st =
     Option.bind (checkInterval m_blockchain interval) (\<lambda>result.
     Option.bind (if detachRequired result then detach m_blockchain (detachHeight result) else Some m_blockchain)
       (\<lambda>m_blockchain.
         let newHeight = (if newBlockHeight result = 1 then 0 else newBlockHeight result)
         in if \<not> hasNewBlocks result then Some (m_blockchain, st)
            else
              let startOffset = (if newHeight = 0 then 0 else newHeight - startHeight interval);
                  blockCount = size32 (interval_blocks interval) - startOffset;
                  addedCount = onNewBlocks startOffset newHeight blockCount
              in if addedCount > 0
                 then map_option (\<lambda>bc. (bc, st\<lparr> hasErrors := hasErrors st \<or> addedCount < blockCount,
                                                smthChanged := True,
                                                lastBlockIndex := min (lastBlockIndex st) (startOffset + addedCount - 1) \<rparr>))
                        (addBlocks m_blockchain (drop (unat startOffset) (interval_blocks interval)) newHeight addedCount)
                 else Some (m_blockchain, st\<lparr> hasErrors := True \<rparr>)))"

fun update_loop ::
  "BlockchainInterval \<Rightarrow> ((u32 \<Rightarrow> u32 \<Rightarrow> u32 \<Rightarrow> u32) \<times> chain) list \<Rightarrow> update_state \<Rightarrow> (chain list \<times> update_state) option" where
  "update_loop interval [] st = Some ([], st)"
| "update_loop interval ((onNewBlocks, bc) # consumers) st =
     Option.bind (update_consumer onNewBlocks interval bc st) (\<lambda>(bc', st).
     Option.bind (update_loop interval consumers st) (\<lambda>(bcs, st). Some (bc' # bcs, st)))"

text \<open>The new chains of the consumers, the result, and the hash that becomes \<open>lastBlockId\<close>, if any.\<close>

definition updateConsumers ::
  "BlockchainInterval \<Rightarrow> ((u32 \<Rightarrow> u32 \<Rightarrow> u32 \<Rightarrow> u32) \<times> chain) list \<Rightarrow>
   (chain list \<times> UpdateConsumersResult \<times> hash option) option" where
  "updateConsumers interval consumers =
     Option.bind (update_loop interval consumers \<lparr> smthChanged = False, hasErrors = False, lastBlockIndex = - 1 \<rparr>)
       (\<lambda>(bcs, st).
         let result = (if hasErrors st then errorOccurred else if smthChanged st then addedNewBlocks else nothingChanged)
         in if lastBlockIndex st \<noteq> - 1 then
              if unat (lastBlockIndex st) < length (interval_blocks interval)
              then Some (bcs, result, Some (interval_blocks interval ! unat (lastBlockIndex st))) else None
            else Some (bcs, result, None))"


section \<open>SynchronizationStatus\<close>

record SynchronizationStatus =
  m_blockHashCheckpoints :: "hash list"
  m_lastKnownBlockHashes :: "hash list"
  m_lastKnownBlockHeight :: u64
  m_lastSavedCheckpointAt :: u64

definition SynchronizationStatus_new :: SynchronizationStatus where
  "SynchronizationStatus_new =
     \<lparr> m_blockHashCheckpoints = [], m_lastKnownBlockHashes = [], m_lastKnownBlockHeight = 0,
       m_lastSavedCheckpointAt = 0 \<rparr>"

definition storeBlockHash :: "hash \<Rightarrow> u64 \<Rightarrow> SynchronizationStatus \<Rightarrow> SynchronizationStatus" where
  "storeBlockHash hash height s =
     (let s = s\<lparr> m_lastKnownBlockHeight := height \<rparr>
      in if m_lastKnownBlockHashes s \<noteq> [] \<and> last (m_lastKnownBlockHashes s) = hash then s
         else
           let s = (if m_lastSavedCheckpointAt s + BLOCK_HASH_CHECKPOINTS_INTERVAL < height
                    then s\<lparr> m_lastSavedCheckpointAt := height,
                            m_blockHashCheckpoints := hash # m_blockHashCheckpoints s \<rparr>
                    else s);
               hashes = hash # m_lastKnownBlockHashes s
           in s\<lparr> m_lastKnownBlockHashes :=
                  (if length hashes > LAST_KNOWN_BLOCK_HASHES_SIZE then butlast hashes else hashes) \<rparr>)"


definition run_status :: "(hash \<times> u64) list \<Rightarrow> SynchronizationStatus" where
  "run_status blocks = foldl (\<lambda>s (hash, height). storeBlockHash hash height s) SynchronizationStatus_new blocks"


section \<open>Short histories\<close>

lemma history_index:
  assumes "off < (sz :: u32)" and "0 < off"
  shows "unat (sz - off) < unat sz" "sz - off \<noteq> 0"
proof -
  have "unat (sz - off) = unat sz - unat off" using assms(1) by (intro unat_sub_ge) simp
  moreover have "unat off < unat sz" "0 < unat off" using assms by (simp_all add: word_less_nat_alt)
  ultimately have n: "unat (sz - off) < unat sz" "0 < unat (sz - off)" by simp_all
  then show "unat (sz - off) < unat sz" "sz - off \<noteq> 0" by auto
qed

text \<open>While the steps double, the offset after \<open>k\<close> steps is \<open>2 ^ (k + 1) + 9\<close>.\<close>

lemma doubling_phase:
  assumes "unat (m :: u32) = 2 ^ k" and "unat off = 2 ^ Suc k + 9" and "unat i = 10 + k" and "k \<le> 30"
    and sz: "unat sz \<le> 2 ^ 31"
  shows "\<exists>h. short_history_loop bc sz i m off g hist = Some (g, hist @ h) \<and> length h \<le> 30 - k
    \<and> (\<forall>x \<in> set h. \<exists>j < unat sz. x = bc ! j)"
  using assms(1-4)
proof (induction "30 - k" arbitrary: k m off i hist)
  case 0
  then have "k = 30" by simp
  then have "\<not> off < sz" using 0 sz by (simp add: word_less_nat_alt)
  then show ?case by (simp add: short_history_loop.simps)
next
  case (Suc d)
  show ?case
  proof (cases "off < sz")
    case False
    then show ?thesis by (simp add: short_history_loop.simps)
  next
    case True
    have k: "Suc k \<le> 30" using Suc.hyps(2) by simp
    then have p: "(2 :: nat) ^ Suc k \<le> 2 ^ 30" by (intro power_increasing) simp_all
    have m': "unat (m * 2) = 2 ^ Suc k"
      using Suc.prems(1) p by (simp add: unat_word_ariths mult.commute)
    have off': "unat (off + m * 2) = 2 ^ Suc (Suc k) + 9"
      using Suc.prems(2) p m' by (simp add: unat_word_ariths)
    have i': "unat (i + 1) = 10 + Suc k" using Suc.prems(3) k by (simp add: unat_word_ariths)
    have "\<not> i < 10" using Suc.prems(3) by (simp add: word_less_nat_alt)
    moreover have "0 < off" using Suc.prems(2) by (simp add: word_less_nat_alt)
    note idx = history_index [OF True this]
    ultimately have step: "short_history_loop bc sz i m off g hist
        = short_history_loop bc sz (i + 1) (m * 2) (off + m * 2) g (hist @ [bc ! unat (sz - off)])"
      using True by (simp add: short_history_loop.simps [of bc sz i])
    have "d = 30 - Suc k" using Suc.hyps(2) by simp
    from Suc.hyps(1) [OF this m' off' i' k, of "hist @ [bc ! unat (sz - off)]"] obtain h where
        "short_history_loop bc sz (i + 1) (m * 2) (off + m * 2) g (hist @ [bc ! unat (sz - off)])
          = Some (g, (hist @ [bc ! unat (sz - off)]) @ h)" "length h \<le> 30 - Suc k"
        "\<forall>x \<in> set h. \<exists>j < unat sz. x = bc ! j" by blast
    with step idx(1) Suc.hyps(2) show ?thesis
      by (intro exI [of _ "bc ! unat (sz - off) # h"]) auto
  qed
qed

lemma first_phase:
  assumes "unat i = n" and "unat off = Suc n" and "n \<le> 10" and sz: "unat sz \<le> 2 ^ 31"
  shows "\<exists>h. short_history_loop bc sz i 1 off g hist = Some (g, hist @ h) \<and> length h \<le> 40 - n
    \<and> (\<forall>x \<in> set h. \<exists>j < unat sz. x = bc ! j) \<and> (off < sz \<longrightarrow> h \<noteq> [] \<and> hd h = bc ! unat (sz - off))"
  using assms(1-3)
proof (induction "10 - n" arbitrary: n off i hist)
  case 0
  then have n: "n = 10" by simp
  show ?case
  proof (cases "off < sz")
    case False
    then show ?thesis by (simp add: short_history_loop.simps)
  next
    case True
    have "\<not> i < 10" "0 < off" using 0 n by (simp_all add: word_less_nat_alt)
    with True history_index [OF True] have step: "short_history_loop bc sz i 1 off g hist
        = short_history_loop bc sz (i + 1) 2 (off + 2) g (hist @ [bc ! unat (sz - off)])"
      by (simp add: short_history_loop.simps [of bc sz i])
    have "unat (i + 1) = 10 + 1" "unat (off + 2) = 2 ^ Suc 1 + 9" "unat (2 :: u32) = 2 ^ 1"
      using 0 n by (simp_all add: unat_word_ariths)
    from doubling_phase [OF this(3,2,1) _ sz, of bc g "hist @ [bc ! unat (sz - off)]"] obtain h where
        "short_history_loop bc sz (i + 1) 2 (off + 2) g (hist @ [bc ! unat (sz - off)])
          = Some (g, (hist @ [bc ! unat (sz - off)]) @ h)" "length h \<le> 29" "\<forall>x \<in> set h. \<exists>j < unat sz. x = bc ! j"
      by auto
    with step n history_index(1) [OF True \<open>0 < off\<close>] show ?thesis
      by (intro exI [of _ "bc ! unat (sz - off) # h"]) auto
  qed
next
  case (Suc d)
  show ?case
  proof (cases "off < sz")
    case False
    then show ?thesis by (simp add: short_history_loop.simps)
  next
    case True
    have "i < 10" "0 < off" using Suc by (simp_all add: word_less_nat_alt)
    with True history_index [OF True] have step: "short_history_loop bc sz i 1 off g hist
        = short_history_loop bc sz (i + 1) 1 (off + 1) g (hist @ [bc ! unat (sz - off)])"
      by (simp add: short_history_loop.simps [of bc sz i])
    have "d = 10 - Suc n" "unat (i + 1) = Suc n" "unat (off + 1) = Suc (Suc n)" "Suc n \<le> 10"
      using Suc by (simp_all add: unat_word_ariths)
    from Suc.hyps(1) [OF this, of "hist @ [bc ! unat (sz - off)]"] obtain h where
        "short_history_loop bc sz (i + 1) 1 (off + 1) g (hist @ [bc ! unat (sz - off)])
          = Some (g, (hist @ [bc ! unat (sz - off)]) @ h)" "length h \<le> 40 - Suc n"
        "\<forall>x \<in> set h. \<exists>j < unat sz. x = bc ! j" by blast
    with step Suc.prems(3) history_index(1) [OF True \<open>0 < off\<close>] show ?thesis
      by (intro exI [of _ "bc ! unat (sz - off) # h"]) auto
  qed
qed



section \<open>Intervals\<close>

lemma unat_size32: "length xs < 2 ^ 32 \<Longrightarrow> unat (size32 xs) = length xs"
  unfolding size32_def by (rule unat_word_of_nat) simp

lemma find_upt:
  assumes "List.find P [a..<b] = Some i"
  shows "a \<le> i" "i < b" "P i" "\<forall>j. a \<le> j \<longrightarrow> j < i \<longrightarrow> \<not> P j"
proof -
  from assms obtain k where k: "k < b - a" "P (a + k)" "i = a + k" "\<forall>j < k. \<not> P ([a..<b] ! j)"
    by (auto simp: find_Some_iff)
  then show "a \<le> i" "i < b" "P i" by auto
  show "\<forall>j. a \<le> j \<longrightarrow> j < i \<longrightarrow> \<not> P j"
  proof (intro allI impI)
    fix j assume j: "a \<le> j" "j < i"
    then have "j - a < k" using k(3) by simp
    with k(4) have "\<not> P ([a..<b] ! (j - a))" by blast
    with j k(1,3) show "\<not> P j" by simp
  qed
qed

lemma agree_upto:
  assumes "\<forall>j. s \<le> j \<longrightarrow> j < i \<longrightarrow> xs ! j = ys ! (j - s)" and "s \<le> i" and "i \<le> length xs" and "i - s \<le> length ys"
  shows "take i xs = take s xs @ take (i - s) ys"
proof (rule nth_equalityI)
  fix j assume "j < length (take i xs)"
  then have "j < i" using assms(3) by simp
  then show "take i xs ! j = (take s xs @ take (i - s) ys) ! j"
    using assms by (cases "j < s") (simp_all add: nth_append)
qed (use assms in simp)

lemma checkInterval_mismatch:
  assumes "unat (startHeight iv) \<le> length bc" and "length bc < 2 ^ 32"
    and "unat (startHeight iv) + length (interval_blocks iv) < 2 ^ 32"
  shows "unat (startHeight iv + size32 (interval_blocks iv)) = unat (startHeight iv) + length (interval_blocks iv)"
    and "unat (min (size32 bc) (startHeight iv + size32 (interval_blocks iv)))
      = min (length bc) (unat (startHeight iv) + length (interval_blocks iv))"
proof -
  have "unat (size32 (interval_blocks iv)) = length (interval_blocks iv)" using assms(3) by (simp add: unat_size32)
  then show e: "unat (startHeight iv + size32 (interval_blocks iv)) = unat (startHeight iv) + length (interval_blocks iv)"
    using assms(3) by (simp add: unat_word_ariths)
  show "unat (min (size32 bc) (startHeight iv + size32 (interval_blocks iv)))
      = min (length bc) (unat (startHeight iv) + length (interval_blocks iv))"
    using e unat_size32 [OF assms(2)] by (simp add: min_def word_le_nat_alt)
qed

text \<open>Adding the blocks of the interval from height \<open>i\<close> on to a chain of that height.\<close>

lemma adopt_from:
  assumes "1 \<le> unat (startHeight iv)" and "unat (startHeight iv) \<le> i" and "length bc = i"
    and "i < unat (startHeight iv) + length (interval_blocks iv)"
    and "unat (startHeight iv) + length (interval_blocks iv) < 2 ^ 32"
  defines "h \<equiv> (if word_of_nat i = (1 :: u32) then 0 else word_of_nat i)"
  defines "off \<equiv> (if h = 0 then 0 else h - startHeight iv)"
  shows "0 < size32 (interval_blocks iv) - off"
    and "addBlocks bc (drop (unat off) (interval_blocks iv)) h (size32 (interval_blocks iv) - off)
      = Some (bc @ drop (i - unat (startHeight iv)) (interval_blocks iv))"
proof -
  have i: "unat (word_of_nat i :: u32) = i" using assms(4,5) by (intro unat_word_of_nat) simp
  then have i1: "word_of_nat i = (1 :: u32) \<longleftrightarrow> i = 1" "word_of_nat i = (0 :: u32) \<longleftrightarrow> i = 0"
    by (auto simp: word_unat_eq_iff)
  have off: "unat off = i - unat (startHeight iv)"
  proof (cases "i = 1")
    case True
    then show ?thesis using assms(1,2) by (simp add: off_def h_def i1)
  next
    case False
    then have "off = word_of_nat i - startHeight iv" using assms(1,2) by (simp add: off_def h_def i1)
    then show ?thesis using i assms(2) by (simp add: unat_sub_ge word_le_nat_alt)
  qed
  have n: "unat (size32 (interval_blocks iv)) = length (interval_blocks iv)" using assms(5) by (simp add: unat_size32)
  have cnt: "unat (size32 (interval_blocks iv) - off) = length (interval_blocks iv) - (i - unat (startHeight iv))"
    using n off assms(4) by (simp add: unat_sub_ge word_le_nat_alt)
  then show "0 < size32 (interval_blocks iv) - off" using assms(2,4) by (simp add: word_less_nat_alt)
  have "unat (if h = 0 then 1 else h) = i" using i1 i assms(1,2) by (simp add: h_def)
  then show "addBlocks bc (drop (unat off) (interval_blocks iv)) h (size32 (interval_blocks iv) - off)
      = Some (bc @ drop (i - unat (startHeight iv)) (interval_blocks iv))"
    using assms(3) cnt off by (simp add: addBlocks_def)
qed


lemma update_adopts:
  assumes "checkInterval bc iv = Some result" and "hasNewBlocks result"
    and "newBlockHeight result = word_of_nat i" and "detachRequired result \<longrightarrow> detachHeight result = word_of_nat i \<and> i < length bc"
    and "\<not> detachRequired result \<longrightarrow> i = length bc" and "i \<le> length bc"
    and "1 \<le> unat (startHeight iv)" and "unat (startHeight iv) \<le> i"
    and "i < unat (startHeight iv) + length (interval_blocks iv)"
    and "unat (startHeight iv) + length (interval_blocks iv) < 2 ^ 32"
  shows "\<exists>st'. update_consumer (\<lambda>_ _ c. c) iv bc st
    = Some (take i bc @ drop (i - unat (startHeight iv)) (interval_blocks iv), st')"
proof -
  have i: "unat (word_of_nat i :: u32) = i" using assms(9,10) by (intro unat_word_of_nat) simp
  have "(if detachRequired result then detach bc (detachHeight result) else Some bc) = Some (take i bc)"
    using assms(4,5) i by (simp add: detach_def)
  moreover define h off where "h = (if word_of_nat i = (1 :: u32) then 0 else word_of_nat i)"
    and "off = (if h = 0 then 0 else h - startHeight iv)"
  moreover have "length (take i bc) = i" using assms(6) by simp
  note a = adopt_from [OF assms(7,8) this assms(9,10), folded h_def, folded off_def]
  let ?c = "size32 (interval_blocks iv) - off"
  have "\<exists>f. update_consumer (\<lambda>_ _ c. c) iv bc st
      = map_option (\<lambda>bc. (bc, f)) (addBlocks (take i bc) (drop (unat off) (interval_blocks iv)) h ?c)"
    using a(1) assms(1-3) calculation(1) unfolding update_consumer_def
    by (simp only: option.case bind.bind_lunit Let_def h_def [symmetric] off_def [symmetric] if_True not_True_eq_False if_False) blast
  with a(2) show ?thesis by auto
qed

lemma interval_cases:
  assumes "1 \<le> unat (startHeight iv)" and "unat (startHeight iv) \<le> length bc" and "length bc < 2 ^ 32"
    and "unat (startHeight iv) + length (interval_blocks iv) < 2 ^ 32"
  shows "\<exists>st'. update_consumer (\<lambda>_ _ c. c) iv bc st
    = Some (if prefix (interval_blocks iv) (drop (unat (startHeight iv)) bc) then bc
            else take (unat (startHeight iv)) bc @ interval_blocks iv, st')"
proof -
  let ?s = "unat (startHeight iv)" and ?bs = "interval_blocks iv"
  let ?n = "length ?bs" and ?P = "\<lambda>i. bc ! i \<noteq> ?bs ! (i - ?s)"
  note ends = checkInterval_mismatch [OF assms(2-4)]
  have split: "take i bc @ drop (i - ?s) ?bs = take ?s bc @ ?bs"
    if "\<forall>j. ?s \<le> j \<longrightarrow> j < i \<longrightarrow> bc ! j = ?bs ! (j - ?s)" "?s \<le> i" "i \<le> length bc" "i - ?s \<le> ?n" for i
    using agree_upto [OF that] by simp
  show ?thesis
  proof (cases "List.find ?P [?s..<min (length bc) (?s + ?n)]")
    case (Some i)
    note f = find_upt [OF Some]
    have np: "\<not> prefix ?bs (drop ?s bc)"
    proof
      assume "prefix ?bs (drop ?s bc)"
      then obtain r where "drop ?s bc = ?bs @ r" by (auto simp: prefix_def)
      then have "(?bs @ r) ! (i - ?s) = bc ! i" using f(1,2) by (metis assms(2) le_add_diff_inverse nth_drop)
      moreover have "i - ?s < ?n" using f(1,2) by linarith
      ultimately show False using f(3) by (simp add: nth_append)
    qed
    have "\<exists>st'. update_consumer (\<lambda>_ _ c. c) iv bc st = Some (take i bc @ drop (i - ?s) ?bs, st')"
    proof (rule update_adopts)
      show "checkInterval bc iv = Some \<lparr> detachRequired = True, detachHeight = word_of_nat i,
          hasNewBlocks = True, newBlockHeight = word_of_nat i \<rparr>"
        using assms(2) Some by (simp add: checkInterval_def ends)
    qed (use f assms in simp_all)
    moreover have "take i bc @ drop (i - ?s) ?bs = take ?s bc @ ?bs" using f by (intro split) auto
    ultimately show ?thesis using np by simp
  next
    case None
    then have eq: "bc ! j = ?bs ! (j - ?s)" if "?s \<le> j" "j < length bc" "j < ?s + ?n" for j
      using that by (auto simp: find_None_iff_all)
    show ?thesis
    proof (cases "?s + ?n > length bc")
      case True
      have "\<exists>st'. update_consumer (\<lambda>_ _ c. c) iv bc st = Some (take (length bc) bc @ drop (length bc - ?s) ?bs, st')"
      proof (rule update_adopts)
        show "checkInterval bc iv = Some \<lparr> detachRequired = False, detachHeight = 0,
            hasNewBlocks = True, newBlockHeight = size32 bc \<rparr>"
          using assms(2) None True by (simp add: checkInterval_def ends)
      qed (use True assms in \<open>simp_all add: size32_def\<close>)
      moreover have "take (length bc) bc @ drop (length bc - ?s) ?bs = take ?s bc @ ?bs"
        using eq True assms(2) by (intro split) auto
      moreover have "\<not> prefix ?bs (drop ?s bc)" using True assms(2) by (auto dest: prefix_length_le)
      ultimately show ?thesis by simp
    next
      case False
      then have "take ?n (drop ?s bc) = ?bs" using eq by (intro nth_equalityI) auto
      then have "prefix ?bs (drop ?s bc)" by (metis take_is_prefix)
      moreover have "checkInterval bc iv = Some \<lparr> detachRequired = False, detachHeight = 0,
          hasNewBlocks = False, newBlockHeight = 0 \<rparr>"
        using assms(2) None False by (simp add: checkInterval_def ends)
      ultimately show ?thesis by (simp add: update_consumer_def)
    qed
  qed
qed


section \<open>Properties\<close>

text \<open>
  C26: \<open>getShortHistory\<close> returns for every chain of at most \<open>2 ^ 31\<close> blocks: at most 41 hashes of known
  blocks, the topmost one first and the genesis block last.
\<close>

theorem short_history_returns:
  assumes "bc \<noteq> []" and "length bc \<le> 2 ^ 31" and "unat localHeight < 2 ^ 32 - 1"
  shows "\<exists>hist. getShortHistory bc localHeight = Some hist \<and> length hist \<le> 41 \<and> last hist = bc ! 0
    \<and> hd hist = bc ! (min (length bc) (unat localHeight + 1) - 1)
    \<and> (\<forall>x \<in> set hist. \<exists>j < min (length bc) (unat localHeight + 1). x = bc ! j)"
proof -
  define sz where "sz = min (size32 bc) (localHeight + 1)"
  have "unat (size32 bc) = length bc" "unat (localHeight + 1) = unat localHeight + 1"
    using assms by (simp_all add: unat_size32 unat_word_ariths)
  then have sz: "unat sz = min (length bc) (unat localHeight + 1)"
    by (simp add: sz_def min_def word_le_nat_alt)
  have pos: "sz \<noteq> 0" "unat sz \<le> 2 ^ 31" using sz assms by (auto simp flip: unat_eq_zero)
  obtain h where h: "short_history_loop bc sz 0 1 1 False [] = Some (False, h)" "length h \<le> 40"
      "\<forall>x \<in> set h. \<exists>j < unat sz. x = bc ! j" "1 < sz \<longrightarrow> h \<noteq> [] \<and> hd h = bc ! unat (sz - 1)"
    using first_phase [of 0 0 1 sz bc False "[]"] pos(2) by auto
  then have "getShortHistory bc localHeight = Some (h @ [bc ! 0])"
    using pos(1) by (simp add: getShortHistory_def sz_def [symmetric] Let_def)
  moreover have "hd (h @ [bc ! 0]) = bc ! (unat sz - 1)"
  proof (cases "1 < sz")
    case True
    then have "unat (sz - 1) = unat sz - 1" by (intro trans [OF unat_sub_ge]) auto
    with h(4) True show ?thesis by simp
  next
    case False
    then have "unat sz \<le> 1" by (simp add: word_less_nat_alt)
    moreover have "unat sz \<noteq> 0" using pos(1) by (simp add: unat_eq_zero)
    ultimately have "unat sz = 1" by simp
    moreover from this have "sz = 1" by (simp add: word_unat_eq_iff)
    then have "h = []" using h(1) by (simp add: short_history_loop.simps)
    ultimately show ?thesis by simp
  qed
  moreover have "0 < unat sz" using pos(1) by (simp add: unat_gt_0)
  ultimately show ?thesis using h sz by (intro exI [of _ "h @ [bc ! 0]"]) auto
qed

theorem short_history_returns_witness:
  "\<exists>hist. getShortHistory [replicate 32 0, replicate 32 1, replicate 32 2] 100 = Some hist
    \<and> last hist = replicate 32 0 \<and> hd hist = replicate 32 2"
  using short_history_returns [of "[replicate 32 0, replicate 32 1, replicate 32 2]" 100] by auto




text \<open>
  An interval that starts at the genesis block is added from its first block to a chain that holds
  the genesis block already: the block is then recorded twice and every height is off by one.
\<close>

lemma genesis_recorded_twice:
  "\<exists>st'. update_consumer (\<lambda>_ _ c. c) \<lparr> startHeight = 0, interval_blocks = [g, b] \<rparr> [g] st = Some ([g, g, b], st')"
  by (simp add: update_consumer_def checkInterval_def size32_def addBlocks_def min_def word_le_nat_alt)

text \<open>
  The status of a wallet keeps at most 50 recent block hashes whatever is stored, with the last
  stored height, and only hashes that were stored.
\<close>

lemma status_bounded:
  "length (m_lastKnownBlockHashes (run_status blocks)) \<le> LAST_KNOWN_BLOCK_HASHES_SIZE
    \<and> set (m_lastKnownBlockHashes (run_status blocks)) \<union> set (m_blockHashCheckpoints (run_status blocks))
        \<subseteq> set (map fst blocks)
    \<and> m_lastKnownBlockHeight (run_status blocks) = (if blocks = [] then 0 else snd (last blocks))"
  unfolding run_status_def
proof (induction blocks rule: rev_induct)
  case Nil
  show ?case by (simp add: SynchronizationStatus_new_def)
next
  case (snoc b blocks)
  let ?s = "foldl (\<lambda>s (hash, height). storeBlockHash hash height s) SynchronizationStatus_new blocks"
  obtain hash height where b: "b = (hash, height)" by (cases b)
  have "set (butlast (hash # m_lastKnownBlockHashes ?s)) \<subseteq> insert hash (set (m_lastKnownBlockHashes ?s))"
    using in_set_butlastD by fastforce
  with snoc show ?case by (auto simp: b storeBlockHash_def Let_def config)
qed

text \<open>
  The test for a hash that is already there looks at the oldest hash, not at the newest one: a block
  that is stored again is recorded twice, unless it is the only one.
\<close>

lemma last_block_recorded_twice:
  assumes "m_lastKnownBlockHashes s = older @ [oldest]" and "oldest \<noteq> hash" and "length older < 48"
  shows "take 2 (m_lastKnownBlockHashes (storeBlockHash hash height (storeBlockHash hash height s))) = [hash, hash]"
  using assms by (auto simp: storeBlockHash_def Let_def config)

end
