(* ===== verification/FormatUtils.thy ===== *)
theory FormatUtils
  imports Transactions
begin

text \<open>
  Amounts and offsets of transactions, \<open>src/cryptonotecore/CryptoNoteFormatUtils.cpp\<close> and
  \<open>CryptoNoteFormatUtils.h\<close>: fees, the overflow checks, the change between relative and absolute
  output offsets and the decomposition of an amount into decimal digits. The curve functions are
  parameters.
\<close>

section \<open>Operations\<close>

subsection \<open>Amounts of a transaction\<close>

definition input_amount :: "TransactionInput \<Rightarrow> u64" where
  "input_amount inp = (case inp of BaseInput _ \<Rightarrow> 0 | KeyInput amt _ _ \<Rightarrow> amt)"

definition is_key_input :: "TransactionInput \<Rightarrow> bool" where
  "is_key_input inp = (case inp of BaseInput _ \<Rightarrow> False | KeyInput _ _ _ \<Rightarrow> True)"

text \<open>\<open>get_tx_fee\<close>: \<open>None\<close> is the \<open>false\<close> of the overload with an output parameter.\<close>

definition get_tx_fee_out :: "('a TransactionPrefix_scheme) \<Rightarrow> u64 option" where
  "get_tx_fee_out tx =
     (let amount_in = foldl (\<lambda>s inp. if is_key_input inp then s + input_amount inp else s) 0 (inputs tx);
          amount_out = foldl (\<lambda>s out. s + out_amount out) 0 (outputs tx)
      in if amount_in < amount_out then None else Some (amount_in - amount_out))"

definition get_tx_fee :: "('a TransactionPrefix_scheme) \<Rightarrow> u64" where
  "get_tx_fee tx = (case get_tx_fee_out tx of None \<Rightarrow> 0 | Some r \<Rightarrow> r)"

definition getInputAmount :: "('a TransactionPrefix_scheme) \<Rightarrow> u64" where
  "getInputAmount tx =
     foldl (\<lambda>amt inp. if is_key_input inp then amt + input_amount inp else amt) 0 (inputs tx)"

definition getInputsAmounts :: "('a TransactionPrefix_scheme) \<Rightarrow> u64 list" where
  "getInputsAmounts tx = map input_amount (filter is_key_input (inputs tx))"

definition getOutputAmount :: "('a TransactionPrefix_scheme) \<Rightarrow> u64" where
  "getOutputAmount tx = foldl (\<lambda>amt out. amt + out_amount out) 0 (outputs tx)"

subsection \<open>Checks\<close>

definition checkInputTypesSupported :: "('a TransactionPrefix_scheme) \<Rightarrow> bool" where
  "checkInputTypesSupported tx = list_all is_key_input (inputs tx)"

text \<open>\<open>checkOutsValid\<close>: \<open>None\<close> when the outputs are valid, else the error text.\<close>

fun checkOutsValid_loop :: "(public_key \<Rightarrow> bool) \<Rightarrow> TransactionOutput list \<Rightarrow> string option" where
  "checkOutsValid_loop check_key [] = None"
| "checkOutsValid_loop check_key (out # outs) =
     (case target out of KeyOutput k \<Rightarrow>
        if out_amount out = 0 then Some ''Zero amount ouput''
        else if \<not> check_key k then Some ''Output with invalid key''
        else checkOutsValid_loop check_key outs)"

definition checkOutsValid :: "(public_key \<Rightarrow> bool) \<Rightarrow> ('a TransactionPrefix_scheme) \<Rightarrow> string option" where
  "checkOutsValid check_key tx = checkOutsValid_loop check_key (outputs tx)"

text \<open>The loop both overflow checks share: \<open>money\<close> is the wrapping sum so far.\<close>

fun overflow_loop :: "u64 \<Rightarrow> u64 list \<Rightarrow> bool" where
  "overflow_loop money [] = True"
| "overflow_loop money (amt # amts) =
     (if money > amt + money then False else overflow_loop (money + amt) amts)"

definition checkInputsOverflow :: "('a TransactionPrefix_scheme) \<Rightarrow> bool" where
  "checkInputsOverflow tx = overflow_loop 0 (map input_amount (inputs tx))"

definition checkOutsOverflow :: "('a TransactionPrefix_scheme) \<Rightarrow> bool" where
  "checkOutsOverflow tx = overflow_loop 0 (map out_amount (outputs tx))"

subsection \<open>Output offsets\<close>

fun absolute_loop :: "u32 \<Rightarrow> u32 list \<Rightarrow> u32 list" where
  "absolute_loop prev [] = []"
| "absolute_loop prev (x # xs) = (x + prev) # absolute_loop (x + prev) xs"

definition relativeOutputOffsetsToAbsolute :: "u32 list \<Rightarrow> u32 list" where
  "relativeOutputOffsetsToAbsolute off =
     (case off of [] \<Rightarrow> [] | x # xs \<Rightarrow> x # absolute_loop x xs)"

fun relative_loop :: "u32 \<Rightarrow> u32 list \<Rightarrow> u32 list" where
  "relative_loop prev [] = []"
| "relative_loop prev (x # xs) = (x - prev) # relative_loop x xs"

definition absolute_output_offsets_to_relative :: "u32 list \<Rightarrow> u32 list" where
  "absolute_output_offsets_to_relative off =
     (case off of [] \<Rightarrow> [] | x # xs \<Rightarrow> x # relative_loop x xs)"

subsection \<open>Decomposition into digits\<close>

text \<open>
  \<open>decompose_amount_into_digits\<close> calls one of two handlers; the model returns the calls in order.
\<close>

datatype handler_call = Chunk (call_amount: u64) | Dust (call_amount: u64)

definition dust_call :: "bool \<Rightarrow> u64 \<Rightarrow> handler_call list" where
  "dust_call is_dust_handled dust = (if \<not> is_dust_handled \<and> 0 \<noteq> dust then [Dust dust] else [])"

function decompose_loop :: "u64 \<Rightarrow> u64 \<Rightarrow> bool \<Rightarrow> u64 \<Rightarrow> u64 \<Rightarrow> handler_call list" where
  "decompose_loop dust_threshold amt is_dust_handled dust order =
     (if amt = 0 then dust_call is_dust_handled dust
      else let chunk = (amt mod 10) * order in
        if dust + chunk \<le> dust_threshold
        then decompose_loop dust_threshold (amt div 10) is_dust_handled (dust + chunk) (order * 10)
        else dust_call is_dust_handled dust
             @ (if 0 \<noteq> chunk then [Chunk chunk] else [])
             @ decompose_loop dust_threshold (amt div 10) (is_dust_handled \<or> 0 \<noteq> dust) dust (order * 10))"
  by pat_completeness auto
termination
  by (relation "measure (\<lambda>(_, amt, _). unat amt)") (auto simp: unat_div unat_gt_0)

declare decompose_loop.simps [simp del]

definition decompose_amount_into_digits :: "u64 \<Rightarrow> u64 \<Rightarrow> handler_call list" where
  "decompose_amount_into_digits amt dust_threshold =
     (if amt = 0 then [] else decompose_loop dust_threshold amt False 0 1)"

definition decomposeAmount :: "u64 \<Rightarrow> u64 \<Rightarrow> u64 list" where
  "decomposeAmount amt dustThreshold = map call_amount (decompose_amount_into_digits amt dustThreshold)"

subsection \<open>Keys of an output\<close>

text \<open>
  \<open>generate_key_image_helper\<close>: the ephemeral key pair and the key image; \<open>None\<close> is a failed
  assertion.
\<close>

definition generate_key_image_helper ::
  "(public_key \<Rightarrow> secret_key \<Rightarrow> key_derivation option)
   \<Rightarrow> (key_derivation \<Rightarrow> u64 \<Rightarrow> public_key \<Rightarrow> public_key option)
   \<Rightarrow> (key_derivation \<Rightarrow> u64 \<Rightarrow> secret_key \<Rightarrow> secret_key)
   \<Rightarrow> (public_key \<Rightarrow> secret_key \<Rightarrow> key_image)
   \<Rightarrow> secret_key \<Rightarrow> public_key \<Rightarrow> secret_key \<Rightarrow> public_key \<Rightarrow> u64
   \<Rightarrow> ((public_key \<times> secret_key) \<times> key_image) option" where
  "generate_key_image_helper generate_key_derivation derive_public_key derive_secret_key generate_key_image
       view_secret spend_public spend_secret tx_public_key real_output_index =
     Option.bind (generate_key_derivation tx_public_key view_secret) (\<lambda>recv_derivation.
     Option.bind (derive_public_key recv_derivation real_output_index spend_public) (\<lambda>ephemeral_public.
       let ephemeral_secret = derive_secret_key recv_derivation real_output_index spend_secret
       in Some ((ephemeral_public, ephemeral_secret), generate_key_image ephemeral_public ephemeral_secret)))"


section \<open>Sums\<close>

lemma overflow_loop_iff: "overflow_loop money amts \<longleftrightarrow> unat money + total amts < 2 ^ 64"
proof (induction amts arbitrary: money)
  case (Cons amt amts)
  have wraps: "amt + money < money \<longleftrightarrow> 2 ^ 64 \<le> unat money + unat amt" by (rule add_wraps_iff)
  show ?case
  proof (cases "unat money + unat amt < 2 ^ 64")
    case True
    then have s: "unat (money + amt) = unat money + unat amt" by (rule unat_add_fits)
    have "overflow_loop money (amt # amts) = overflow_loop (money + amt) amts"
      using True wraps by simp
    then show ?thesis unfolding Cons.IH s by (simp add: add.assoc)
  next
    case False
    then have "\<not> overflow_loop money (amt # amts)" using wraps by simp
    moreover from False have "\<not> unat money + total (amt # amts) < 2 ^ 64" by simp
    ultimately show ?thesis by blast
  qed
qed simp

lemma inputs_sum: "getInputAmount tx = sum_list (map input_amount (inputs tx))"
proof -
  have "foldl (\<lambda>amt inp. if is_key_input inp then amt + input_amount inp else amt) a xs
          = a + sum_list (map input_amount xs)" for a xs
    by (induction xs arbitrary: a)
       (auto simp: is_key_input_def input_amount_def split: TransactionInput.splits)
  then show ?thesis by (simp add: getInputAmount_def)
qed

lemma outputs_sum: "getOutputAmount tx = sum_list (map out_amount (outputs tx))"
  by (simp add: getOutputAmount_def foldl_plus_sum_list)

lemma get_tx_fee_out_sums:
  "get_tx_fee_out tx =
     (if getInputAmount tx < getOutputAmount tx then None else Some (getInputAmount tx - getOutputAmount tx))"
  by (simp add: get_tx_fee_out_def getInputAmount_def getOutputAmount_def)

lemma checked_inputs:
  "checkInputsOverflow tx \<Longrightarrow> unat (getInputAmount tx) = total (map input_amount (inputs tx))"
  by (simp add: checkInputsOverflow_def overflow_loop_iff inputs_sum unat_sum_list)

lemma checked_outputs:
  "checkOutsOverflow tx \<Longrightarrow> unat (getOutputAmount tx) = total (map out_amount (outputs tx))"
  by (simp add: checkOutsOverflow_def overflow_loop_iff outputs_sum unat_sum_list)

text \<open>
  C39: a transaction that passes the two overflow checks has no wrap-around in its fee: \<open>get_tx_fee\<close>
  succeeds exactly when the inputs cover the outputs, and the fee with the outputs is exactly the
  inputs, as natural numbers.
\<close>

theorem checked_fee_exact:
  assumes "checkInputsOverflow tx" and "checkOutsOverflow tx"
  shows "(get_tx_fee_out tx = None \<longleftrightarrow> total (map input_amount (inputs tx)) < total (map out_amount (outputs tx)))
    \<and> (\<forall>fee. get_tx_fee_out tx = Some fee
          \<longrightarrow> total (map input_amount (inputs tx)) = total (map out_amount (outputs tx)) + unat fee)"
  unfolding checked_inputs [OF assms(1), symmetric] checked_outputs [OF assms(2), symmetric]
  by (auto simp: get_tx_fee_out_sums word_less_nat_alt unat_sub_ge word_le_nat_alt)

text \<open>A transaction with two key inputs and one output that pays a fee of 5.\<close>

definition paying_tx :: TransactionPrefix where
  "paying_tx = \<lparr> version = 1, unlockTime = 0,
     inputs = [KeyInput 70 [1] (replicate 32 1), KeyInput 35 [2] (replicate 32 2)],
     outputs = [\<lparr> out_amount = 100, target = KeyOutput (replicate 32 3) \<rparr>], extra = [] \<rparr>"

theorem checked_fee_exact_witness:
  "checkInputsOverflow paying_tx \<and> checkOutsOverflow paying_tx \<and> get_tx_fee_out paying_tx = Some 5
   \<and> total (map input_amount (inputs paying_tx)) = 100 + unat (5 :: u64)"
proof -
  have "checkInputsOverflow paying_tx" "checkOutsOverflow paying_tx" "get_tx_fee_out paying_tx = Some 5"
    by code_simp+
  then show ?thesis using checked_fee_exact [of paying_tx] by (simp add: paying_tx_def)
qed

text \<open>
  Without the check a transaction that creates money is accepted by \<open>get_tx_fee\<close>: two outputs whose
  sum wraps around to 1.
\<close>

lemma unchecked_fee_wraps:
  "get_tx_fee_out \<lparr> version = 1, unlockTime = 0, inputs = [KeyInput 1 [1] (replicate 32 1)],
     outputs = [\<lparr> out_amount = 0x8000000000000000, target = KeyOutput [] \<rparr>,
                \<lparr> out_amount = 0x8000000000000001, target = KeyOutput [] \<rparr>], extra = [] \<rparr> = Some 0"
  by code_simp


section \<open>Offsets\<close>

lemma relative_absolute_loop: "relative_loop prev (absolute_loop prev xs) = xs"
  by (induction xs arbitrary: prev) auto

lemma absolute_relative_loop: "absolute_loop prev (relative_loop prev xs) = xs"
  by (induction xs arbitrary: prev) auto

lemma length_absolute_loop [simp]: "length (absolute_loop prev xs) = length xs"
  by (induction xs arbitrary: prev) auto

text \<open>
  The two conversions of output offsets are inverse to each other on all vectors, wrap-around
  included, and keep the length.
\<close>

lemma offsets_round_trip:
  "absolute_output_offsets_to_relative (relativeOutputOffsetsToAbsolute off) = off
   \<and> relativeOutputOffsetsToAbsolute (absolute_output_offsets_to_relative off) = off
   \<and> length (relativeOutputOffsetsToAbsolute off) = length off"
  by (cases off)
     (simp_all add: absolute_output_offsets_to_relative_def relativeOutputOffsetsToAbsolute_def
        relative_absolute_loop absolute_relative_loop)


section \<open>The decomposition is exact\<close>

text \<open>
  In step \<open>k\<close> the order is \<open>10 ^ k\<close> as long as there are digits left. Once dust was handed out no
  further digit is small enough to join it.
\<close>

definition decompose_state :: "u64 \<Rightarrow> u64 \<Rightarrow> bool \<Rightarrow> u64 \<Rightarrow> u64 \<Rightarrow> nat \<Rightarrow> bool" where
  "decompose_state dust_threshold amt is_dust_handled dust order k \<longleftrightarrow>
     (amt \<noteq> 0 \<longrightarrow> unat order = 10 ^ k)
     \<and> unat amt * 10 ^ k + unat dust < 2 ^ 64
     \<and> dust \<le> dust_threshold
     \<and> (is_dust_handled \<longrightarrow> unat dust_threshold < unat dust + 10 ^ k)"

lemma decompose_chunk:
  assumes "decompose_state thr amt handled dust order k" and "amt \<noteq> 0"
  shows "unat ((amt mod 10) * order) = unat amt mod 10 * 10 ^ k"
    and "unat (dust + (amt mod 10) * order) = unat dust + unat amt mod 10 * 10 ^ k"
    and "amt div 10 \<noteq> 0 \<Longrightarrow> unat (order * 10) = 10 ^ Suc k"
    and "unat (amt div 10) * 10 ^ Suc k + unat amt mod 10 * 10 ^ k = unat amt * 10 ^ k"
proof -
  have order: "unat order = 10 ^ k" and fits: "unat amt * 10 ^ k + unat dust < 2 ^ 64"
    using assms by (auto simp: decompose_state_def)
  have split: "unat amt div 10 * 10 ^ Suc k + unat amt mod 10 * 10 ^ k = unat amt * 10 ^ k"
  proof -
    have "unat amt * 10 ^ k = (unat amt div 10 * 10 + unat amt mod 10) * 10 ^ k" by simp
    then show ?thesis by (simp only: add_mult_distrib power_Suc mult.assoc)
  qed
  then show "unat (amt div 10) * 10 ^ Suc k + unat amt mod 10 * 10 ^ k = unat amt * 10 ^ k"
    by (simp add: unat_div)
  have le: "unat amt mod 10 * 10 ^ k \<le> unat amt * 10 ^ k" by simp
  have lt: "unat dust + unat amt mod 10 * 10 ^ k < 2 ^ 64" using le fits by linarith
  show chunk: "unat ((amt mod 10) * order) = unat amt mod 10 * 10 ^ k"
    using lt by (simp add: unat_word_ariths(2) unat_mod order)
  show "unat (dust + (amt mod 10) * order) = unat dust + unat amt mod 10 * 10 ^ k"
    using unat_add_fits [of dust "(amt mod 10) * order"] lt unfolding chunk by blast
  show "unat (order * 10) = 10 ^ Suc k" if "amt div 10 \<noteq> 0"
  proof -
    have "1 \<le> unat amt div 10" using that by (simp add: unat_gt_0 [symmetric] unat_div)
    then have "1 * 10 ^ Suc k \<le> unat amt div 10 * 10 ^ Suc k" by (rule mult_right_mono) simp
    with split fits have "(10 :: nat) ^ Suc k < 2 ^ 64" by linarith
    then show ?thesis by (simp add: unat_word_ariths(2) order mult.commute)
  qed
qed

lemma decompose_state_step:
  assumes st: "decompose_state thr amt handled dust order k" and "amt \<noteq> 0"
    and chunk: "chunk = (amt mod 10) * order"
  shows "dust + chunk \<le> thr \<Longrightarrow> decompose_state thr (amt div 10) handled (dust + chunk) (order * 10) (Suc k)"
    and "dust + chunk \<le> thr \<Longrightarrow> handled \<Longrightarrow> chunk = 0"
    and "\<not> dust + chunk \<le> thr \<Longrightarrow> decompose_state thr (amt div 10) h dust (order * 10) (Suc k)"
proof -
  note c = decompose_chunk [OF st assms(2)]
  have s: "unat amt * 10 ^ k + unat dust < 2 ^ 64" "dust \<le> thr"
    "handled \<longrightarrow> unat thr < unat dust + 10 ^ k"
    using st by (auto simp: decompose_state_def)
  have p: "(10 :: nat) ^ k \<le> 10 ^ Suc k" by simp
  show zero: "chunk = 0" if "dust + chunk \<le> thr" handled
  proof (rule ccontr)
    assume "chunk \<noteq> 0"
    then have "1 \<le> unat amt mod 10" using c(1) chunk by (metis less_one mult_is_0 not_le unat_0 unat_eq_zero)
    then have "1 * 10 ^ k \<le> unat amt mod 10 * 10 ^ k" by (rule mult_right_mono) simp
    with that s(3) c(2) chunk show False by (simp add: word_le_nat_alt)
  qed
  show "decompose_state thr (amt div 10) handled (dust + chunk) (order * 10) (Suc k)"
    if le: "dust + chunk \<le> thr"
  proof -
    have "handled \<Longrightarrow> unat thr < unat (dust + chunk) + 10 ^ Suc k"
      using zero [OF le] s(3) p by auto
    then show ?thesis unfolding decompose_state_def
      using c(3) c(4) s(1) le c(2) chunk by (auto simp: algebra_simps)
  qed
  show "decompose_state thr (amt div 10) h dust (order * 10) (Suc k)" if "\<not> dust + chunk \<le> thr"
  proof -
    have "unat amt mod 10 * 10 ^ k \<le> 10 * 10 ^ k" by (rule mult_right_mono) auto
    moreover have "unat thr < unat dust + unat amt mod 10 * 10 ^ k"
      using that unfolding chunk word_le_nat_alt c(2) by simp
    ultimately have "unat thr < unat dust + 10 ^ Suc k" unfolding power_Suc by linarith
    then show ?thesis unfolding decompose_state_def
      using c(3) c(4) s(1,2) by auto
  qed
qed

lemma decompose_loop_done [simp]: "decompose_loop thr 0 handled dust order = dust_call handled dust"
  by (simp add: decompose_loop.simps [of thr 0])

lemma decompose_loop_total:
  "decompose_state thr amt handled dust order k \<Longrightarrow>
     total (map call_amount (decompose_loop thr amt handled dust order))
       = unat amt * 10 ^ k + (if handled then 0 else unat dust)"
proof (induction thr amt handled dust order arbitrary: k rule: decompose_loop.induct)
  case (1 thr amt handled dust order)
  show ?case
  proof (cases "amt = 0")
    case True
    then show ?thesis by (simp add: dust_call_def)
  next
    case False
    define chunk where "chunk = (amt mod 10) * order"
    note c = decompose_chunk [OF "1.prems" False, folded chunk_def]
    note step = decompose_state_step [OF "1.prems" False chunk_def]
    have unfold: "decompose_loop thr amt handled dust order =
      (if dust + chunk \<le> thr then decompose_loop thr (amt div 10) handled (dust + chunk) (order * 10)
       else dust_call handled dust @ (if 0 \<noteq> chunk then [Chunk chunk] else [])
            @ decompose_loop thr (amt div 10) (handled \<or> 0 \<noteq> dust) dust (order * 10))"
      using False by (simp add: decompose_loop.simps [of thr amt] chunk_def Let_def)
    show ?thesis
    proof (cases "dust + chunk \<le> thr")
      case True
      from "1.IH"(1) [OF False chunk_def True step(1) [OF True]] unfold True c(2,4) c(1) step(2) [OF True]
      show ?thesis by auto
    next
      case small: False
      from "1.IH"(2) [OF False chunk_def small step(3) [OF small]] unfold small c(1,4)
      show ?thesis by (auto simp: dust_call_def)
    qed
  qed
qed

lemma decompose_start: "decompose_state thr amt False 0 1 0"
  by (simp add: decompose_state_def)

lemma decomposeAmount_total: "total (decomposeAmount amt thr) = unat amt"
  using decompose_loop_total [OF decompose_start, of thr amt]
  by (simp add: decomposeAmount_def decompose_amount_into_digits_def)

text \<open>Every chunk is one decimal digit, in ascending order; the dust is below the threshold.\<close>

fun is_digit_call :: "u64 \<Rightarrow> handler_call \<Rightarrow> bool" where
  "is_digit_call thr (Chunk c) = (\<exists>d k. 1 \<le> d \<and> d \<le> 9 \<and> unat c = d * 10 ^ k)"
| "is_digit_call thr (Dust c) = (0 < c \<and> c \<le> thr)"

lemma decompose_loop_digits:
  "decompose_state thr amt handled dust order k \<Longrightarrow>
     list_all (is_digit_call thr) (decompose_loop thr amt handled dust order)"
proof (induction thr amt handled dust order arbitrary: k rule: decompose_loop.induct)
  case (1 thr amt handled dust order)
  have dust: "list_all (is_digit_call thr) (dust_call handled dust)"
    using "1.prems" by (auto simp: dust_call_def decompose_state_def word_neq_0_conv)
  show ?case
  proof (cases "amt = 0")
    case True
    then show ?thesis using dust by simp
  next
    case False
    define chunk where "chunk = (amt mod 10) * order"
    note c = decompose_chunk(1) [OF "1.prems" False, folded chunk_def]
    note step = decompose_state_step [OF "1.prems" False chunk_def]
    have "chunk \<noteq> 0 \<Longrightarrow> is_digit_call thr (Chunk chunk)"
    proof -
      assume "chunk \<noteq> 0"
      then have "unat amt mod 10 \<noteq> 0" using c by (metis mult_is_0 unat_eq_zero)
      moreover have "unat amt mod 10 \<le> 9" using mod_less_divisor [of 10 "unat amt"] by linarith
      ultimately have "1 \<le> unat amt mod 10 \<and> unat amt mod 10 \<le> 9 \<and> unat chunk = unat amt mod 10 * 10 ^ k"
        using c by simp
      then show ?thesis by auto
    qed
    with dust "1.IH"(1) [OF False chunk_def _ step(1)] "1.IH"(2) [OF False chunk_def _ step(3)] False
    show ?thesis
      by (auto simp: decompose_loop.simps [of thr amt] chunk_def Let_def)
  qed
qed

text \<open>
  C32: decomposing an amount loses and adds nothing: the parts handed to the handlers add up to the
  amount without wrap-around, each chunk is a single non-zero decimal digit, and the dust is not
  zero and not above the threshold. The loop returns for every amount.
\<close>

theorem decompose_exact:
  "total (map call_amount (decompose_amount_into_digits amt thr)) = unat amt
   \<and> (\<forall>c. Chunk c \<in> set (decompose_amount_into_digits amt thr)
        \<longrightarrow> (\<exists>d k. 1 \<le> d \<and> d \<le> 9 \<and> unat c = d * 10 ^ k))
   \<and> (\<forall>c. Dust c \<in> set (decompose_amount_into_digits amt thr) \<longrightarrow> 0 < c \<and> c \<le> thr)"
proof -
  have "list_all (is_digit_call thr) (decompose_amount_into_digits amt thr)"
    using decompose_loop_digits [OF decompose_start, of thr amt]
    by (simp add: decompose_amount_into_digits_def)
  then show ?thesis using decomposeAmount_total [of amt thr]
    by (fastforce simp: list_all_iff decomposeAmount_def)
qed

theorem decompose_exact_witness:
  "decompose_amount_into_digits 62387455827 455827 =
     [Dust 455827, Chunk 7000000, Chunk 80000000, Chunk 300000000, Chunk 2000000000, Chunk 60000000000]
   \<and> 0 < (455827 :: u64) \<and> (455827 :: u64) \<le> 455827
   \<and> (\<exists>d k. 1 \<le> d \<and> d \<le> 9 \<and> unat (7000000 :: u64) = d * 10 ^ k)"
proof -
  have "decompose_amount_into_digits 62387455827 455827 =
     [Dust 455827, Chunk 7000000, Chunk 80000000, Chunk 300000000, Chunk 2000000000, Chunk 60000000000]"
    by code_simp
  then show ?thesis using decompose_exact [of 62387455827 455827] by simp
qed

end
