(* ===== verification/Difficulty.thy ===== *)
theory Difficulty
  imports Config "HOL-Library.Signed_Division"
begin

text \<open>
  The difficulty of the next block, \<open>src/cryptonotecore/Difficulty.cpp\<close>. The code computes in
  \<open>int64_t\<close>: the model computes in \<open>int\<close>, with C++'s truncating division, and a signed overflow, a
  division by zero and a read past the end of a vector are \<open>None\<close>.
\<close>

section \<open>Operations\<close>

definition int64 :: "int \<Rightarrow> int option" where
  "int64 x = (if - (2 ^ 63) \<le> x \<and> x < 2 ^ 63 then Some x else None)"

text \<open>
  The loop over the solve times: the state after \<open>i\<close> rounds is the pair of \<open>L\<close> and \<open>sum_3_ST\<close>. A
  clamped solve time is at most 1800 in size, so only the difference of two timestamps can overflow.
\<close>

primrec difficulty_loop :: "int \<Rightarrow> u64 list \<Rightarrow> nat \<Rightarrow> (int \<times> int) option" where
  "difficulty_loop T timestamps 0 = Some (0, 0)"
| "difficulty_loop T timestamps (Suc j) =
     Option.bind (difficulty_loop T timestamps j) (\<lambda>(L, sum_3_ST).
     Option.bind (int64 (sint (timestamps ! Suc j) - sint (timestamps ! j))) (\<lambda>ST.
       let ST = max (-4 * T) (min ST (6 * T))
       in Some (L + ST * int (Suc j),
                if int (Suc j) > int DIFFICULTY_WINDOW - 3 then sum_3_ST + ST else sum_3_ST)))"

definition difficulty_target :: "u64 \<Rightarrow> int" where
  "difficulty_target blockHeight =
     (if blockHeight \<ge> DIFFICULTY_TARGET_V3_HEIGHT then uint DIFFICULTY_TARGET_V3
      else if blockHeight \<ge> DIFFICULTY_TARGET_V2_HEIGHT then uint DIFFICULTY_TARGET_V2
      else uint DIFFICULTY_TARGET)"

definition nextDifficulty :: "u64 list \<Rightarrow> u64 list \<Rightarrow> u64 \<Rightarrow> u64 option" where
  "nextDifficulty timestamps cumulativeDifficulties blockHeight =
     (let T = difficulty_target blockHeight; N = DIFFICULTY_WINDOW in
      if length timestamps < N + 1 then Some 10000
      else Option.bind (difficulty_loop T timestamps N) (\<lambda>(L, sum_3_ST).
        if length cumulativeDifficulties < N + 1 then None
        else Option.bind (int64 (sint (cumulativeDifficulties ! N - cumulativeDifficulties ! 0) * T)) (\<lambda>p.
        Option.bind (int64 (p * int (N + 1))) (\<lambda>p. Option.bind (int64 (p * 99)) (\<lambda>p.
        if 100 * 2 * L = 0 then None
        else let next_D = p sdiv (100 * 2 * L);
                 prev_D = sint (cumulativeDifficulties ! N - cumulativeDifficulties ! (N - 1))
        in Option.bind (int64 (prev_D * 67)) (\<lambda>low. Option.bind (int64 (prev_D * 150)) (\<lambda>high.
           let next_D = max (low sdiv 100) (min next_D (high sdiv 100))
           in if sum_3_ST < (8 * T) sdiv 10
              then Option.bind (int64 (prev_D * 108)) (\<lambda>jump. Some (word_of_int (max next_D (jump sdiv 100))))
              else Some (word_of_int next_D))))))))"


section \<open>Solve times\<close>

lemma difficulty_target_range: "10 \<le> difficulty_target h \<and> difficulty_target h \<le> 300"
  by (simp add: difficulty_target_def config)

lemma uint_small: "unat (x :: u64) < 2 ^ n \<Longrightarrow> uint x < 2 ^ n"
proof -
  assume "unat x < 2 ^ n"
  then have "int (unat x) < int (2 ^ n)" by (rule of_nat_less_iff [THEN iffD2])
  then show ?thesis unfolding uint_nat of_nat_power of_nat_numeral .
qed

lemma sint_small: "uint (x :: u64) < 2 ^ 63 \<Longrightarrow> sint x = uint x"
proof -
  assume "uint x < 2 ^ 63"
  moreover have "- (2 ^ 63) \<le> uint x" by (rule order_trans [of _ 0]) simp_all
  ultimately have "signed_take_bit 63 (uint x) = uint x" by (intro signed_take_bit_int_eq_self)
  then show ?thesis unfolding sint_uint by simp
qed

lemma int64_small: "\<bar>x\<bar> < 2 ^ 63 \<Longrightarrow> int64 x = Some x"
  by (auto simp: int64_def)

text \<open>With timestamps that do not go back, the weighted sum is positive once the time moved.\<close>

lemma difficulty_loop_returns:
  assumes "\<forall>k \<le> n. uint (ts ! k) < 2 ^ 63" and "\<forall>k < n. ts ! k \<le> ts ! Suc k" and "0 < T"
  shows "\<exists>L s. difficulty_loop T ts n = Some (L, s) \<and> 0 \<le> L \<and> (ts ! 0 < ts ! n \<longrightarrow> 0 < L)"
  using assms(1,2)
proof (induction n)
  case (Suc n)
  then obtain L s where L: "difficulty_loop T ts n = Some (L, s)" "0 \<le> L" "ts ! 0 < ts ! n \<longrightarrow> 0 < L"
    by force
  define d where "d = uint (ts ! Suc n) - uint (ts ! n)"
  have sz: "uint (ts ! Suc n) < 2 ^ 63" "uint (ts ! n) < 2 ^ 63" "ts ! n \<le> ts ! Suc n"
    using Suc.prems by auto
  have "0 \<le> uint (ts ! n)" by simp
  with sz have d: "0 \<le> d" "d < 2 ^ 63" unfolding d_def word_le_def by linarith+
  have "sint (ts ! Suc n) - sint (ts ! n) = d" unfolding d_def using sz by (simp add: sint_small)
  with d have diff: "int64 (sint (ts ! Suc n) - sint (ts ! n)) = Some d" by (simp add: int64_small)
  define ST where "ST = max (-4 * T) (min d (6 * T))"
  have ST: "0 \<le> ST" "0 < d \<Longrightarrow> 0 < ST" using d assms(3) by (auto simp: ST_def)
  have "0 < L + ST * int (Suc n)" if "ts ! 0 < ts ! Suc n"
  proof (cases "0 < d")
    case True
    then show ?thesis using L(2) ST by (auto intro: add_nonneg_pos)
  next
    case False
    then have "ts ! Suc n \<le> ts ! n" by (simp add: d_def word_le_def)
    then show ?thesis using that L(3) ST by (auto intro: add_pos_nonneg)
  qed
  moreover have "\<exists>s'. difficulty_loop T ts (Suc n) = Some (L + ST * int (Suc n), s')"
    by (simp add: L(1) diff ST_def Let_def)
  moreover have "0 \<le> L + ST * int (Suc n)" using L(2) ST(1) by simp
  ultimately show ?case by blast
qed simp

lemma difficulty_loop_frozen:
  assumes "\<forall>k \<le> n. ts ! k = t" and "0 < T"
  shows "\<exists>s. difficulty_loop T ts n = Some (0, s)"
  using assms(1)
proof (induction n)
  case (Suc n)
  then have "\<exists>s. difficulty_loop T ts n = Some (0, s)" "ts ! Suc n = t" "ts ! n = t" by auto
  then show ?case using assms(2) by (auto simp: int64_def Let_def)
qed simp


section \<open>The result\<close>

lemma sdiv_nonneg: "0 \<le> a \<Longrightarrow> 0 < b \<Longrightarrow> (a :: int) sdiv b = a div b"
  by (cases "a = 0") (auto simp: signed_divide_int_def)

lemma clamp_bounds:
  fixes P x :: int
  assumes "0 \<le> P"
  shows "P * 67 div 100 \<le> max (P * 67 div 100) (min x (P * 150 div 100))"
    and "max (P * 67 div 100) (min x (P * 150 div 100)) \<le> P * 150 div 100"
    and "max (max (P * 67 div 100) (min x (P * 150 div 100))) (P * 108 div 100) \<le> P * 150 div 100"
  using assms zdiv_mono1 [of "P * 67" "P * 150" 100] zdiv_mono1 [of "P * 108" "P * 150" 100] by auto

lemma uint_word_of_int_small: "0 \<le> x \<Longrightarrow> x < 2 ^ 64 \<Longrightarrow> uint (word_of_int x :: u64) = x"
  by (simp add: uint_word_of_int)

text \<open>The part of \<open>nextDifficulty\<close> after the loop.\<close>

lemma nextDifficulty_unfold:
  assumes "60 < length ts" "60 < length cds" "difficulty_loop (difficulty_target h) ts 60 = Some (L, s)" "0 < L"
    and D: "uint (cds ! 60 - cds ! 0) < 2 ^ 42" and P: "uint (cds ! 60 - cds ! 59) < 2 ^ 55"
  shows "\<exists>x. nextDifficulty ts cds h = Some (word_of_int x)
     \<and> uint (cds ! 60 - cds ! 59) * 67 div 100 \<le> x \<and> x \<le> uint (cds ! 60 - cds ! 59) * 150 div 100"
proof -
  define T where "T = difficulty_target h"
  define P where "P = uint (cds ! 60 - cds ! 59)"
  define D where "D = uint (cds ! 60 - cds ! 0)"
  have T: "10 \<le> T" "T \<le> 300" using difficulty_target_range by (auto simp: T_def)
  have P0: "0 \<le> P" "P < 2 ^ 55" and D0: "0 \<le> D" "D < 2 ^ 42" using assms(5,6) by (auto simp: P_def D_def)
  have s: "sint (cds ! 60 - cds ! 59) = P" "sint (cds ! 60 - cds ! 0) = D"
    using P0 D0 sint_small [of "cds ! 60 - cds ! 59"] sint_small [of "cds ! 60 - cds ! 0"]
    by (simp_all add: P_def D_def)
  have DT: "0 \<le> D * T" "D * T \<le> 2 ^ 42 * 300"
    using D0 T mult_mono [of D "2 ^ 42" T 300] by auto
  then have "int64 (D * T) = Some (D * T)" "int64 (D * T * 61) = Some (D * T * 61)"
    "int64 (D * T * 61 * 99) = Some (D * T * 61 * 99)"
    by (auto intro!: int64_small)
  moreover have "int64 (P * 67) = Some (P * 67)" "int64 (P * 150) = Some (P * 150)" "int64 (P * 108) = Some (P * 108)"
    using P0 by (auto intro!: int64_small)
  moreover define y where "y = max (P * 67 div 100) (min ((D * T * 61 * 99) sdiv (200 * L)) (P * 150 div 100))"
  moreover have "P * 67 sdiv 100 = P * 67 div 100" "P * 150 sdiv 100 = P * 150 div 100"
    "P * 108 sdiv 100 = P * 108 div 100" using P0 by (simp_all add: sdiv_nonneg)
  moreover have "\<not> length ts < 60 + 1" "\<not> length cds < 60 + 1" "100 * 2 * L \<noteq> 0" "100 * 2 * L = 200 * L"
    "int (60 + 1) = 61" "(60 :: nat) - 1 = 59"
    using assms(1,2,4) by simp_all
  ultimately have "nextDifficulty ts cds h = Some (word_of_int
      (if s < (8 * T) sdiv 10 then max y (P * 108 div 100) else y))"
    by (simp only: nextDifficulty_def DIFFICULTY_WINDOW_def T_def [symmetric] Let_def if_False
          assms(3) [folded T_def] s bind.bind_lunit prod.case)
       (simp only: split: if_split, blast)
  moreover have "P * 67 div 100 \<le> y" "y \<le> P * 150 div 100" "max y (P * 108 div 100) \<le> P * 150 div 100"
    unfolding y_def by (rule clamp_bounds [OF P0(1)])+
  moreover from this(1) have "P * 67 div 100 \<le> max y (P * 108 div 100)" by (rule max.coboundedI1)
  ultimately show ?thesis unfolding P_def [symmetric]
    by (cases "s < (8 * T) sdiv 10") (simp_all only: if_True if_False, blast+)
qed


text \<open>A window of 61 blocks, 300 seconds apart, each of difficulty 20000.\<close>

definition sample_timestamps :: "u64 list" where
  "sample_timestamps = map (\<lambda>i. word_of_nat (1000 + 300 * i)) [0..<61]"

definition sample_difficulties :: "u64 list" where
  "sample_difficulties = map (\<lambda>i. word_of_nat (20000 * i)) [0..<61]"

lemma sample_timestamps_nth: "k \<le> 60 \<Longrightarrow> unat (sample_timestamps ! k) = 1000 + 300 * k"
proof -
  assume k: "k \<le> 60"
  then have "sample_timestamps ! k = word_of_nat (1000 + 300 * k)"
    unfolding sample_timestamps_def by (subst nth_map) (simp_all del: upt_Suc)
  moreover have "take_bit 64 (1000 + 300 * k) = 1000 + 300 * k" using k by (intro take_bit_nat_eq_self) simp
  ultimately show ?thesis by (simp only: unsigned_of_nat) simp
qed


text \<open>
  When all timestamps of the window are equal, the code divides by zero. A block is accepted with a
  timestamp equal to the median of its predecessors, so no check excludes such a window.
\<close>

lemma equal_timestamps_divide_by_zero:
  assumes "60 < length ts" and "\<forall>k \<le> 60. ts ! k = t"
  shows "nextDifficulty ts cds h = None"
proof -
  have "0 < difficulty_target h" using difficulty_target_range [of h] by simp
  from difficulty_loop_frozen [OF assms(2) this] show ?thesis
    using assms(1) by (auto simp: nextDifficulty_def DIFFICULTY_WINDOW_def Let_def split: Option.bind_split)
qed

end
