(* ===== verification/Currency.thy ===== *)
theory Currency
  imports Blocks Addresses FormatUtils Difficulty
begin

text \<open>
  The rules of the coin, \<open>src/cryptonotecore/Currency.cpp\<close> and \<open>Currency.h\<close>: the parameters, block
  reward and emission, and the coinbase transaction. A failed assertion is \<open>None\<close>; a result \<open>false\<close> is an inner \<open>None\<close>. The hash and curve functions are
  parameters, and so is the random key pair of the coinbase transaction. \<open>size_t\<close> counts of decimal places
  and of outputs are natural numbers.
\<close>

section \<open>Parameters\<close>

text \<open>The members of \<open>Currency\<close> that \<open>CurrencyBuilder\<close> sets.\<close>

record Currency =
  m_maxBlockHeight :: u32
  m_maxBlockBlobSize :: u64
  m_maxTxSize :: u64
  m_publicAddressBase58Prefix :: u64
  m_timestampCheckWindow :: u64
  m_moneySupply :: u64
  m_rewardBlocksWindow :: u64
  m_blockGrantedFullRewardZone :: u64
  m_minerTxBlobReservedSize :: u64
  m_numberOfDecimalPlaces :: nat
  m_coin :: u64
  m_mininumFee :: u64
  m_defaultDustThreshold :: u64
  m_difficultyTarget :: u64
  m_difficultyWindow :: nat
  m_difficultyLag :: nat
  m_difficultyCut :: nat
  m_maxBlockSizeInitial :: u64
  m_maxBlockSizeGrowthSpeedNumerator :: u64
  m_maxBlockSizeGrowthSpeedDenominator :: u64
  m_lockedTxAllowedDeltaSeconds :: u64
  m_lockedTxAllowedDeltaBlocks :: u64
  m_mempoolTxLiveTime :: u64
  m_mempoolTxFromAltBlockLiveTime :: u64
  m_numberOfPeriodsToForgetTxDeletedFromPool :: u64
  m_fusionTxMaxSize :: u64
  m_fusionTxMinInputCount :: u64
  m_fusionTxMinInOutCountRatio :: u64
  m_upgradeHeightV2 :: u32
  m_upgradeHeightV3 :: u32
  m_upgradeHeightV4 :: u32
  m_upgradeHeightV5 :: u32
  m_upgradeHeightV6 :: u32
  m_upgradeHeightV7 :: u32
  m_upgradeVotingThreshold :: u32
  m_upgradeVotingWindow :: u32
  m_upgradeWindow :: u32
  m_isBlockexplorer :: bool

text \<open>The setters of \<open>CurrencyBuilder\<close> that check or compute something.\<close>

definition set_numberOfDecimalPlaces :: "nat \<Rightarrow> Currency \<Rightarrow> Currency" where
  "set_numberOfDecimalPlaces val c =
     c\<lparr> m_numberOfDecimalPlaces := val, m_coin := foldl (\<lambda>coin _. coin * 10) 1 [0..<val] \<rparr>"

definition set_difficultyWindow :: "nat \<Rightarrow> Currency \<Rightarrow> exc + Currency" where
  "set_difficultyWindow val c =
     (if val < 2 then Inl (InvalidArgument ''val at difficultyWindow()'')
      else Inr (c\<lparr> m_difficultyWindow := val \<rparr>))"

definition set_upgradeVotingThreshold :: "u32 \<Rightarrow> Currency \<Rightarrow> exc + Currency" where
  "set_upgradeVotingThreshold val c =
     (if val \<le> 0 \<or> val > 100 then Inl (InvalidArgument ''val at upgradeVotingThreshold()'')
      else Inr (c\<lparr> m_upgradeVotingThreshold := val \<rparr>))"

definition set_upgradeWindow :: "u32 \<Rightarrow> Currency \<Rightarrow> exc + Currency" where
  "set_upgradeWindow val c =
     (if val \<le> 0 then Inl (InvalidArgument ''val at upgradeWindow()'')
      else Inr (c\<lparr> m_upgradeWindow := val \<rparr>))"

text \<open>
  The constructor of \<open>CurrencyBuilder\<close>: every member set to its parameter. The three checked setters
  are called with constants that pass their checks.
\<close>

definition CurrencyBuilder :: Currency where
  "CurrencyBuilder = set_numberOfDecimalPlaces CRYPTONOTE_DISPLAY_DECIMAL_POINT \<lparr>
     m_maxBlockHeight = ucast CRYPTONOTE_MAX_BLOCK_NUMBER,
     m_maxBlockBlobSize = CRYPTONOTE_MAX_BLOCK_BLOB_SIZE,
     m_maxTxSize = CRYPTONOTE_MAX_TX_SIZE,
     m_publicAddressBase58Prefix = CRYPTONOTE_PUBLIC_ADDRESS_BASE58_PREFIX,
     m_timestampCheckWindow = BLOCKCHAIN_TIMESTAMP_CHECK_WINDOW,
     m_moneySupply = MONEY_SUPPLY,
     m_rewardBlocksWindow = CRYPTONOTE_REWARD_BLOCKS_WINDOW,
     m_blockGrantedFullRewardZone = CRYPTONOTE_BLOCK_GRANTED_FULL_REWARD_ZONE,
     m_minerTxBlobReservedSize = CRYPTONOTE_COINBASE_BLOB_RESERVED_SIZE,
     m_numberOfDecimalPlaces = 0,
     m_coin = 1,
     m_mininumFee = MINIMUM_FEE,
     m_defaultDustThreshold = DEFAULT_DUST_THRESHOLD,
     m_difficultyTarget = DIFFICULTY_TARGET,
     m_difficultyWindow = DIFFICULTY_WINDOW,
     m_difficultyLag = DIFFICULTY_LAG,
     m_difficultyCut = DIFFICULTY_CUT,
     m_maxBlockSizeInitial = MAX_BLOCK_SIZE_INITIAL,
     m_maxBlockSizeGrowthSpeedNumerator = MAX_BLOCK_SIZE_GROWTH_SPEED_NUMERATOR,
     m_maxBlockSizeGrowthSpeedDenominator = MAX_BLOCK_SIZE_GROWTH_SPEED_DENOMINATOR,
     m_lockedTxAllowedDeltaSeconds = CRYPTONOTE_LOCKED_TX_ALLOWED_DELTA_SECONDS,
     m_lockedTxAllowedDeltaBlocks = CRYPTONOTE_LOCKED_TX_ALLOWED_DELTA_BLOCKS,
     m_mempoolTxLiveTime = CRYPTONOTE_MEMPOOL_TX_LIVETIME,
     m_mempoolTxFromAltBlockLiveTime = CRYPTONOTE_MEMPOOL_TX_FROM_ALT_BLOCK_LIVETIME,
     m_numberOfPeriodsToForgetTxDeletedFromPool = CRYPTONOTE_NUMBER_OF_PERIODS_TO_FORGET_TX_DELETED_FROM_POOL,
     m_fusionTxMaxSize = FUSION_TX_MAX_SIZE,
     m_fusionTxMinInputCount = FUSION_TX_MIN_INPUT_COUNT,
     m_fusionTxMinInOutCountRatio = FUSION_TX_MIN_IN_OUT_COUNT_RATIO,
     m_upgradeHeightV2 = UPGRADE_HEIGHT_V2,
     m_upgradeHeightV3 = UPGRADE_HEIGHT_V3,
     m_upgradeHeightV4 = UPGRADE_HEIGHT_V4,
     m_upgradeHeightV5 = UPGRADE_HEIGHT_V5,
     m_upgradeHeightV6 = UPGRADE_HEIGHT_V6,
     m_upgradeHeightV7 = UPGRADE_HEIGHT_V7,
     m_upgradeVotingThreshold = UPGRADE_VOTING_THRESHOLD,
     m_upgradeVotingWindow = UPGRADE_VOTING_WINDOW,
     m_upgradeWindow = UPGRADE_WINDOW,
     m_isBlockexplorer = False \<rparr>"

definition difficultyWindowByBlockVersion :: "u8 \<Rightarrow> nat" where
  "difficultyWindowByBlockVersion blockMajorVersion = DIFFICULTY_WINDOW"

definition difficultyLagByBlockVersion :: "Currency \<Rightarrow> u8 \<Rightarrow> nat" where
  "difficultyLagByBlockVersion c blockMajorVersion =
     (if blockMajorVersion \<ge> BLOCK_MAJOR_VERSION_3 then m_difficultyLag c
      else if blockMajorVersion = BLOCK_MAJOR_VERSION_2 then DIFFICULTY_LAG_V2
      else DIFFICULTY_LAG_V1)"

definition difficultyCutByBlockVersion :: "Currency \<Rightarrow> u8 \<Rightarrow> nat" where
  "difficultyCutByBlockVersion c blockMajorVersion =
     (if blockMajorVersion \<ge> BLOCK_MAJOR_VERSION_3 then m_difficultyCut c
      else if blockMajorVersion = BLOCK_MAJOR_VERSION_2 then DIFFICULTY_CUT_V2
      else DIFFICULTY_CUT_V1)"

definition difficultyBlocksCountByBlockVersion :: "Currency \<Rightarrow> u8 \<Rightarrow> u32 \<Rightarrow> nat" where
  "difficultyBlocksCountByBlockVersion c blockMajorVersion height =
     difficultyWindowByBlockVersion blockMajorVersion + difficultyLagByBlockVersion c blockMajorVersion"

definition blockGrantedFullRewardZoneByBlockVersion :: "Currency \<Rightarrow> u8 \<Rightarrow> u64" where
  "blockGrantedFullRewardZoneByBlockVersion c blockMajorVersion =
     (if blockMajorVersion \<ge> BLOCK_MAJOR_VERSION_3 then m_blockGrantedFullRewardZone c
      else if blockMajorVersion = BLOCK_MAJOR_VERSION_2 then CRYPTONOTE_BLOCK_GRANTED_FULL_REWARD_ZONE_V2
      else CRYPTONOTE_BLOCK_GRANTED_FULL_REWARD_ZONE_V1)"

definition upgradeHeight :: "Currency \<Rightarrow> u8 \<Rightarrow> u32" where
  "upgradeHeight c v =
     (if v = BLOCK_MAJOR_VERSION_2 then m_upgradeHeightV2 c
      else if v = BLOCK_MAJOR_VERSION_3 then m_upgradeHeightV3 c
      else if v = BLOCK_MAJOR_VERSION_4 then m_upgradeHeightV4 c
      else if v = BLOCK_MAJOR_VERSION_5 then m_upgradeHeightV5 c
      else if v = BLOCK_MAJOR_VERSION_6 then m_upgradeHeightV6 c
      else if v = BLOCK_MAJOR_VERSION_7 then m_upgradeHeightV7 c
      else -1)"

definition minNumberVotingBlocks :: "Currency \<Rightarrow> u32" where
  "minNumberVotingBlocks c = (m_upgradeVotingWindow c * m_upgradeVotingThreshold c + 99) div 100"

definition maxUpgradeDistance :: "Currency \<Rightarrow> u32" where
  "maxUpgradeDistance c = 7 * m_upgradeWindow c"

definition calculateUpgradeHeight :: "Currency \<Rightarrow> u32 \<Rightarrow> u32" where
  "calculateUpgradeHeight c voteCompleteHeight = voteCompleteHeight + m_upgradeWindow c"

text \<open>\<open>defaultDustThreshold\<close> and \<open>defaultFusionDustThreshold\<close> ignore the height.\<close>

definition defaultDustThreshold :: "Currency \<Rightarrow> u32 \<Rightarrow> u64" where
  "defaultDustThreshold c height = m_defaultDustThreshold c"

definition defaultFusionDustThreshold :: "Currency \<Rightarrow> u32 \<Rightarrow> u64" where
  "defaultFusionDustThreshold c height = m_defaultDustThreshold c"


section \<open>Reward and size\<close>

text \<open>The reward and the emission change, an \<open>int64_t\<close> in two's complement.\<close>

definition getBlockReward ::
  "Currency \<Rightarrow> u8 \<Rightarrow> u64 \<Rightarrow> u64 \<Rightarrow> u64 \<Rightarrow> u64 \<Rightarrow> u64 \<Rightarrow> (u64 \<times> u64) option option" where
  "getBlockReward c blockMajorVersion medianSize currentBlockSize alreadyGeneratedCoins fee blockHeight =
     (if \<not> (alreadyGeneratedCoins \<le> m_moneySupply c) then None
      else
        let emission = (if blockHeight \<ge> EMISSION_SPEED_FACTOR_V2_HEIGHT then EMISSION_SPEED_FACTOR_V2
                        else EMISSION_SPEED_FACTOR);
            baseReward = drop_bit emission (m_moneySupply c - alreadyGeneratedCoins);
            medianSize = max medianSize (blockGrantedFullRewardZoneByBlockVersion c blockMajorVersion)
        in if currentBlockSize > 2 * medianSize then Some None
           else Option.bind (getPenalizedAmount baseReward medianSize currentBlockSize) (\<lambda>penalizedBaseReward.
             Option.bind (if blockMajorVersion \<ge> BLOCK_MAJOR_VERSION_2
                          then getPenalizedAmount fee medianSize currentBlockSize else Some fee) (\<lambda>penalizedFee.
               Some (Some (penalizedBaseReward + penalizedFee, penalizedBaseReward - (fee - penalizedFee))))))"

definition maxBlockCumulativeSize :: "Currency \<Rightarrow> u64 \<Rightarrow> u64 option" where
  "maxBlockCumulativeSize c height =
     (if m_maxBlockSizeGrowthSpeedNumerator c = 0 \<or> m_maxBlockSizeGrowthSpeedDenominator c = 0
         \<or> \<not> height \<le> -1 div m_maxBlockSizeGrowthSpeedNumerator c then None
      else
        let maxSize = m_maxBlockSizeInitial c
              + (height * m_maxBlockSizeGrowthSpeedNumerator c) div m_maxBlockSizeGrowthSpeedDenominator c
        in if \<not> maxSize \<ge> m_maxBlockSizeInitial c then None
           else if height \<ge> MAX_BLOCK_SIZE_V1_HEIGHT then Some MAX_BLOCK_SIZE_V1
           else Some maxSize)"


section \<open>The coinbase transaction\<close>

text \<open>
  The loop that folds the outputs beyond \<open>maxOuts\<close> into the last one kept. It is entered with
  \<open>maxOuts\<close> at least 1, so there are two elements whenever it runs.
\<close>

function merge_outs :: "nat \<Rightarrow> u64 list \<Rightarrow> u64 list" where
  "merge_outs maxOuts outAmounts =
     (if length outAmounts \<le> maxOuts \<or> length outAmounts < 2 then outAmounts
      else merge_outs maxOuts
        (butlast (outAmounts[length outAmounts - 2 := outAmounts ! (length outAmounts - 2) + last outAmounts])))"
  by pat_completeness auto
termination by (relation "measure (\<lambda>(_, xs). length xs)") auto

declare merge_outs.simps [simp del]

fun miner_outputs ::
  "(public_key \<Rightarrow> secret_key \<Rightarrow> key_derivation option) \<Rightarrow> (key_derivation \<Rightarrow> nat \<Rightarrow> public_key \<Rightarrow> public_key option)
   \<Rightarrow> public_key \<Rightarrow> public_key \<Rightarrow> secret_key \<Rightarrow> nat \<Rightarrow> u64 list \<Rightarrow> TransactionOutput list option" where
  "miner_outputs gen derive viewKey spendKey txSecret no [] = Some []"
| "miner_outputs gen derive viewKey spendKey txSecret no (amt # amts) =
     (case gen viewKey txSecret of None \<Rightarrow> None
      | Some derivation \<Rightarrow>
          (case derive derivation no spendKey of None \<Rightarrow> None
           | Some k \<Rightarrow>
               map_option (\<lambda>outs. \<lparr> out_amount = amt, target = KeyOutput k \<rparr> # outs)
                 (miner_outputs gen derive viewKey spendKey txSecret (Suc no) amts)))"

definition mined_unlock_time :: "u32 \<Rightarrow> u64" where
  "mined_unlock_time height =
     (if ucast height \<ge> CRYPTONOTE_MINED_MONEY_UNLOCK_WINDOW_V2_HEIGHT
      then ucast (height + CRYPTONOTE_MINED_MONEY_UNLOCK_WINDOW_V2)
      else ucast (height + CRYPTONOTE_MINED_MONEY_UNLOCK_WINDOW))"

definition constructMinerTx ::
  "(public_key \<Rightarrow> secret_key \<Rightarrow> key_derivation option) \<Rightarrow> (key_derivation \<Rightarrow> nat \<Rightarrow> public_key \<Rightarrow> public_key option)
   \<Rightarrow> public_key \<times> secret_key \<Rightarrow> Currency \<Rightarrow> u8 \<Rightarrow> u32 \<Rightarrow> u64 \<Rightarrow> u64 \<Rightarrow> u64 \<Rightarrow> u64
   \<Rightarrow> public_key \<Rightarrow> public_key \<Rightarrow> Transaction \<Rightarrow> bytes \<Rightarrow> nat \<Rightarrow> Transaction option option" where
  "constructMinerTx gen derive txkey c blockMajorVersion height medianSize alreadyGeneratedCoins currentBlockSize
       fee publicViewKey publicSpendKey tx extraNonce maxOuts =
     (let txExtra = snd (addTransactionPublicKeyToExtra [] (fst txkey));
          (ok, txExtra) = (if extraNonce \<noteq> [] then addExtraNonceToTransactionExtra txExtra extraNonce
                           else (True, txExtra))
      in if \<not> ok then Some None
         else Option.bind (getBlockReward c blockMajorVersion medianSize currentBlockSize alreadyGeneratedCoins
                             fee (ucast height)) (\<lambda>r.
           case r of None \<Rightarrow> Some None
           | Some (blockReward, emissionChange) \<Rightarrow>
               let outAmounts = decomposeAmount blockReward (defaultDustThreshold c height)
               in if \<not> 1 \<le> maxOuts then Some None
                  else
                    let outAmounts = merge_outs maxOuts outAmounts
                    in case miner_outputs gen derive publicViewKey publicSpendKey (snd txkey) 0 outAmounts of
                         None \<Rightarrow> Some None
                       | Some outs \<Rightarrow>
                           if \<not> sum_list outAmounts = blockReward then Some None
                           else Some (Some (tx\<lparr>
                             version := CURRENT_TRANSACTION_VERSION,
                             unlockTime := mined_unlock_time height,
                             inputs := [BaseInput height],
                             outputs := outs,
                             extra := txExtra \<rparr>))))"


section \<open>Emission\<close>

lemma penalized_guards:
  assumes "getPenalizedAmount amt median sz = Some r"
  shows "unat sz \<le> 2 * unat median" "unat median < 2 ^ 32" "unat sz < 2 ^ 32"
proof -
  have g: "sz \<le> 2 * median" "median \<le> 0xFFFFFFFF" "sz \<le> 0xFFFFFFFF"
    using assms by (auto simp: getPenalizedAmount_def split: if_splits)
  then show m: "unat median < 2 ^ 32" and "unat sz < 2 ^ 32" by (simp_all add: word_le_nat_alt)
  have "unat (2 * median) = 2 * unat median" using m by (simp add: unat_word_ariths)
  with g(1) show "unat sz \<le> 2 * unat median" by (simp add: word_le_nat_alt)
qed

lemma penalized_below:
  assumes "getPenalizedAmount amt median sz = Some r"
  shows "r \<le> amt"
proof -
  note g = penalized_guards [OF assms]
  from getPenalizedAmount_spec_aux [OF g, of amt] assms
  have "unat r = penalized (unat amt) (unat median) (unat sz)" by auto
  with penalized_le [OF g(1), of "unat amt"] show ?thesis by (simp add: word_le_nat_alt)
qed

text \<open>What a successful call computed: the two penalised parts.\<close>

lemma getBlockReward_parts:
  assumes "getBlockReward c v median sz generated fee h = Some (Some (reward, emissionChange))"
  obtains base paid where "reward = base + paid" "emissionChange = base - (fee - paid)"
    "base \<le> m_moneySupply c - generated" "paid \<le> fee" "generated \<le> m_moneySupply c"
proof -
  define e where "e = (if h \<ge> EMISSION_SPEED_FACTOR_V2_HEIGHT then EMISSION_SPEED_FACTOR_V2 else EMISSION_SPEED_FACTOR)"
  define zone where "zone = max median (blockGrantedFullRewardZoneByBlockVersion c v)"
  obtain base paid where
    base: "getPenalizedAmount (drop_bit e (m_moneySupply c - generated)) zone sz = Some base"
    and paid: "(if v \<ge> BLOCK_MAJOR_VERSION_2 then getPenalizedAmount fee zone sz else Some fee) = Some paid"
    and r: "reward = base + paid" "emissionChange = base - (fee - paid)" "generated \<le> m_moneySupply c"
    using assms unfolding getBlockReward_def e_def [symmetric] zone_def [symmetric]
    by (auto simp: Let_def zone_def [symmetric] bind_eq_Some_conv split: if_splits)
  have "drop_bit e (m_moneySupply c - generated) \<le> m_moneySupply c - generated"
    by (simp add: word_le_nat_alt unat_drop_bit)
  with penalized_below [OF base] have "base \<le> m_moneySupply c - generated" by (rule order_trans)
  moreover have "paid \<le> fee" using paid penalized_below by (auto split: if_splits)
  ultimately show thesis using that r by blast
qed

text \<open>
  Emission is bounded. When the fees come out of coins already generated, the reward is computed
  without wrap-around, the emission change is exactly the reward less the fees, and the coins
  generated after the block are at most the money supply.
\<close>

lemma emission_bounded:
  assumes "getBlockReward c v median sz generated fee h = Some (Some (reward, emissionChange))"
    and "fee \<le> generated"
  shows "generated + emissionChange \<le> m_moneySupply c
    \<and> int (unat (generated + emissionChange)) = int (unat generated) + int (unat reward) - int (unat fee)
    \<and> unat reward \<le> unat (m_moneySupply c) - unat generated + unat fee"
proof -
  obtain base paid where p: "reward = base + paid" "emissionChange = base - (fee - paid)"
    "base \<le> m_moneySupply c - generated" "paid \<le> fee" "generated \<le> m_moneySupply c"
    by (rule getBlockReward_parts [OF assms(1)])
  define B P F G M where "B = unat base" "P = unat paid" "F = unat fee" "G = unat generated" "M = unat (m_moneySupply c)"
  note d = this
  have n: "B \<le> M - G" "P \<le> F" "F \<le> G" "G \<le> M" "M < 2 ^ 64"
    using p assms(2) unat_sub_ge [OF p(5)] by (simp_all add: d word_le_nat_alt)
  then have lt: "B + P < 2 ^ 64" "G + B < 2 ^ 64" by linarith+
  have reward: "unat reward = B + P" using lt(1) unfolding p(1) d by (rule unat_add_fits)
  have fp: "unat (fee - paid) = F - P" using unat_sub_ge [OF p(4)] by (simp add: d)
  have gb: "unat (generated + base) = G + B" using lt(2) unfolding d by (rule unat_add_fits)
  have em: "generated + emissionChange = (generated + base) - (fee - paid)" by (simp add: p(2))
  have "fee - paid \<le> generated + base" unfolding word_le_nat_alt fp gb using n by linarith
  from unat_sub_ge [OF this] have u: "unat (generated + emissionChange) = G + B - (F - P)"
    unfolding em fp gb .
  have "G + B - (F - P) \<le> M" "int (G + B - (F - P)) = int G + int (B + P) - int F" "B + P \<le> M - G + F"
    using n by linarith+
  then show ?thesis unfolding word_le_nat_alt u reward unfolding d by blast
qed

lemma emission_bounded_witness:
  "\<exists>reward em. getBlockReward CurrencyBuilder 3 0 150000 1000000000 400 800000 = Some (Some (reward, em))
     \<and> 1000000000 + em \<le> MONEY_SUPPLY
     \<and> int (unat (1000000000 + em)) = 1000000000 + int (unat reward) - 400"
proof -
  have "getBlockReward CurrencyBuilder 3 0 150000 1000000000 400 800000 = Some (Some (447035091, 447034691))"
    by code_simp
  from emission_bounded [OF this] show ?thesis using \<open>_ = Some (Some (447035091, 447034691))\<close>
    by (simp add: CurrencyBuilder_def set_numberOfDecimalPlaces_def)
qed


section \<open>The coinbase transaction pays the reward\<close>

lemma merge_step:
  assumes "\<not> length xs < 2"
  obtains ys a b where "xs = ys @ [a, b]"
    "butlast (xs[length xs - 2 := xs ! (length xs - 2) + last xs]) = ys @ [a + b]"
proof -
  obtain zs b where "xs = zs @ [b]" using assms by (cases xs rule: rev_cases) auto
  moreover then obtain ys a where "zs = ys @ [a]" using assms by (cases zs rule: rev_cases) auto
  ultimately show thesis using that by (simp add: nth_append list_update_append butlast_append)
qed

lemma merge_outs_total: "total xs < 2 ^ 64 \<Longrightarrow> total (merge_outs n xs) = total xs"
proof (induction n xs rule: merge_outs.induct)
  case (1 n xs)
  show ?case
  proof (cases "length xs \<le> n \<or> length xs < 2")
    case False
    then obtain ys a b where xs: "xs = ys @ [a, b]"
      and step: "butlast (xs[length xs - 2 := xs ! (length xs - 2) + last xs]) = ys @ [a + b]"
      by (auto elim: merge_step)
    have "unat a + unat b < 2 ^ 64" using "1.prems" by (simp add: xs)
    then have "total (ys @ [a + b]) = total xs" by (simp add: xs unat_add_fits)
    with "1.IH" [OF False] "1.prems" False show ?thesis
      unfolding step by (simp add: merge_outs.simps [of n xs] step)
  qed (simp add: merge_outs.simps [of n xs])
qed

lemma merge_outs_length: "1 \<le> n \<Longrightarrow> length (merge_outs n xs) \<le> n"
proof (induction n xs rule: merge_outs.induct)
  case (1 n xs)
  then show ?case by (cases "length xs \<le> n \<or> length xs < 2") (auto simp: merge_outs.simps [of n xs])
qed

lemma miner_outputs_amounts:
  "miner_outputs gen derive viewKey spendKey sec no amts = Some outs \<Longrightarrow> map out_amount outs = amts"
  by (induction gen derive viewKey spendKey sec no amts arbitrary: outs rule: miner_outputs.induct)
     (auto split: option.splits)

lemma miner_outputs_returns:
  assumes "gen viewKey sec = Some d" and "\<forall>n. derive d n spendKey \<noteq> None"
  shows "\<exists>outs. miner_outputs gen derive viewKey spendKey sec no amts = Some outs"
proof (induction amts arbitrary: no)
  case (Cons amt amts)
  obtain k where "derive d no spendKey = Some k" using assms(2) by blast
  moreover obtain outs where "miner_outputs gen derive viewKey spendKey sec (Suc no) amts = Some outs"
    using Cons.IH by blast
  ultimately show ?case using assms(1) by simp
qed simp

text \<open>The extra field of a coinbase transaction is read back as the transaction key and the nonce.\<close>

lemma miner_extra:
  assumes "length k = 32" and "length extraNonce \<le> 255"
  obtains bs where "(if extraNonce \<noteq> [] then addExtraNonceToTransactionExtra (snd (addTransactionPublicKeyToExtra [] k)) extraNonce
      else (True, snd (addTransactionPublicKeyToExtra [] k))) = (True, bs)"
    "getTransactionPublicKeyFromExtra bs = k"
proof -
  define fs where "fs = TransactionExtraPublicKey k # (if extraNonce \<noteq> [] then [TransactionExtraNonce extraNonce] else [])"
  have "wf_fields fs" using assms by (simp add: fs_def wf_fields_def extra_tags)
  then obtain bs where bs: "writeTransactionExtra [] fs = (True, bs)" "parseTransactionExtra bs = (True, fs)"
    by (rule extra_write_parse)
  have "getTransactionPublicKeyFromExtra bs = k" by (simp add: getTransactionPublicKeyFromExtra_def bs(2) fs_def)
  with bs(1) that [of bs] assms(2) show thesis
    by (auto simp: fs_def visit_field_def addTransactionPublicKeyToExtra_def addExtraNonceToTransactionExtra_def
        extra_tags split: if_splits)
qed

text \<open>
  C14: a coinbase transaction is built whenever the block is not too big, and pays exactly the reward:
  if the key functions succeed and the nonce fits, \<open>constructMinerTx\<close> returns a transaction with at most
  \<open>maxOuts\<close> outputs whose amounts add up to the reward without wrap-around, whose only input names the
  height and whose extra field gives back the transaction key; the branch for a wrong sum is never taken.
\<close>

theorem miner_tx_pays_reward:
  assumes "getBlockReward c v median sz generated fee (ucast height) = Some (Some (reward, emissionChange))"
    and "length extraNonce \<le> 255" and "1 \<le> maxOuts" and "length (fst txkey) = 32"
    and "gen viewKey (snd txkey) = Some d" and "\<forall>n. derive d n spendKey \<noteq> None"
  shows "\<exists>tx'. constructMinerTx gen derive txkey c v height median generated sz fee viewKey spendKey tx extraNonce maxOuts
        = Some (Some tx')
     \<and> total (map out_amount (outputs tx')) = unat reward \<and> length (outputs tx') \<le> maxOuts
     \<and> inputs tx' = [BaseInput height] \<and> getTransactionPublicKeyFromExtra (extra tx') = fst txkey"
proof -
  define amts where "amts = merge_outs maxOuts (decomposeAmount reward (defaultDustThreshold c height))"
  have sum: "total amts = unat reward"
    using merge_outs_total [of "decomposeAmount reward (defaultDustThreshold c height)" maxOuts]
      decomposeAmount_total by (simp add: amts_def)
  then have words: "sum_list amts = reward" using unat_sum_list [of amts] by (simp add: word_unat_eq_iff)
  obtain outs where outs: "miner_outputs gen derive viewKey spendKey (snd txkey) 0 amts = Some outs"
    using miner_outputs_returns [of gen viewKey "snd txkey" d derive spendKey] assms(5,6) by blast
  note amounts = miner_outputs_amounts [OF outs]
  have len: "length outs \<le> maxOuts"
    using merge_outs_length [OF assms(3)] amounts unfolding amts_def by (metis length_map)
  obtain bs where bs: "(if extraNonce \<noteq> [] then addExtraNonceToTransactionExtra (snd (addTransactionPublicKeyToExtra [] (fst txkey))) extraNonce
      else (True, snd (addTransactionPublicKeyToExtra [] (fst txkey)))) = (True, bs)"
    "getTransactionPublicKeyFromExtra bs = fst txkey"
    by (rule miner_extra [OF assms(4,2)])
  have "constructMinerTx gen derive txkey c v height median generated sz fee viewKey spendKey tx extraNonce maxOuts
      = Some (Some (tx\<lparr> version := CURRENT_TRANSACTION_VERSION, unlockTime := mined_unlock_time height,
          inputs := [BaseInput height], outputs := outs, extra := bs \<rparr>))"
    unfolding constructMinerTx_def Let_def bs(1) assms(1)
    using assms(3) words outs by (simp add: amts_def [symmetric])
  then show ?thesis using amounts sum len bs(2) by simp
qed

theorem miner_tx_pays_reward_witness:
  "\<exists>tx'. constructMinerTx (\<lambda>_ _. Some (replicate 32 4)) (\<lambda>_ n _. Some (replicate 32 (word_of_nat n)))
        (replicate 32 1, replicate 32 2) CurrencyBuilder 3 800000 0 1000000000 150000 400 [] []
        (TransactionPrefix.extend paying_tx \<lparr> signatures = [] \<rparr>) [1, 2, 3] 4 = Some (Some tx')
     \<and> total (map out_amount (outputs tx')) = 447035091 \<and> length (outputs tx') \<le> 4
     \<and> inputs tx' = [BaseInput 800000] \<and> getTransactionPublicKeyFromExtra (extra tx') = replicate 32 1"
proof -
  have "getBlockReward CurrencyBuilder 3 0 150000 1000000000 400 (ucast (800000 :: u32))
      = Some (Some (447035091, 447034691))" by code_simp
  from miner_tx_pays_reward [OF this, of "[1, 2, 3]" 4 "(replicate 32 1, replicate 32 2)"
      "\<lambda>_ _. Some (replicate 32 4)" "[]" "replicate 32 4" "\<lambda>_ n _. Some (replicate 32 (word_of_nat n))" "[]"]
  show ?thesis by simp
qed

end
