(* ===== verification/Decimal.thy ===== *)
theory Decimal
  imports Utilities
begin

text \<open>
  Facts on numbers written in decimal digits, shared by the parsers of amounts, checkpoints and text
  fields.
\<close>

definition text_value :: "string \<Rightarrow> nat" where
  "text_value s = of_digits 10 (map (\<lambda>ch. of_char ch - 48) s)"

lemma text_value_snoc: "text_value (s @ [ch]) = text_value s * 10 + (of_char ch - 48)"
  by (simp add: text_value_def of_digits_def)

lemma text_value_zeros: "text_value (replicate k (CHR ''0'') @ s) = text_value s"
  by (induction k) (simp_all add: text_value_def of_digits_def)

lemma digit_char: "d < 10 \<Longrightarrow> of_char (char_of (48 + d)) = (48 + d :: nat)"
  by (simp add: of_char_of)

lemma to_string_number: "text_value (to_string n) = n \<and> list_all is_digit (to_string n) \<and> to_string n \<noteq> []"
proof (induction n rule: to_string.induct)
  case (1 n)
  show ?case
  proof (cases "n < 10")
    case True
    then show ?thesis
      using digit_char [of n] by (simp add: to_string.simps [of n] text_value_def of_digits_def is_digit_def)
  next
    case False
    have d: "of_char (char_of (48 + n mod 10)) = (48 + n mod 10 :: nat)" by (rule digit_char) simp
    have r: "n mod 10 \<le> 9" by presburger
    from 1 [OF False] False r show ?thesis
      by (simp add: to_string.simps [of n] text_value_snoc is_digit_def d)
  qed
qed

lemma trim_id:
  assumes "s \<noteq> []" and "hd s \<notin> set whitespace" and "last s \<notin> set whitespace"
  shows "trim s = s"
proof -
  have "rightTrim s = s" using assms(1,3) by (cases s rule: rev_cases) (simp_all add: rightTrim_def)
  moreover have "leftTrim s = s" using assms(1,2) by (cases s) (simp_all add: leftTrim_def)
  ultimately show ?thesis by (simp add: trim_def)
qed

lemma digit_not_special: "is_digit ch \<Longrightarrow> ch \<notin> set whitespace \<and> ch \<noteq> CHR ''.''"
  by (auto simp: is_digit_def whitespace_def)

end
