(* ===== verification/FusionAmounts.thy ===== *)
theory FusionAmounts
  imports Currency Decimal
begin

text \<open>
  Fusion transactions, which merge many inputs into few outputs, and amounts and addresses as text:
  the second part of \<open>src/cryptonotecore/Currency.cpp\<close>.
\<close>

section \<open>Fusion transactions\<close>

definition isFusionTransaction_amounts :: "Currency \<Rightarrow> u64 list \<Rightarrow> u64 list \<Rightarrow> u64 \<Rightarrow> u32 \<Rightarrow> bool" where
  "isFusionTransaction_amounts c inputsAmounts outputsAmounts sz height =
     (if sz > m_fusionTxMaxSize c then False
      else if word_of_nat (length inputsAmounts) < m_fusionTxMinInputCount c then False
      else if word_of_nat (length inputsAmounts)
                < word_of_nat (length outputsAmounts) * m_fusionTxMinInOutCountRatio c then False
      else if list_ex (\<lambda>amt. amt < defaultFusionDustThreshold c height) inputsAmounts then False
      else
        let inputAmount = foldl (+) 0 inputsAmounts;
            inputAmount = (if ucast height \<ge> FUSION_FEE_V1_HEIGHT \<and> ucast height < FUSION_FEE_V1_EXIT_HEIGHT
                           then inputAmount - FUSION_FEE_V1 else inputAmount)
        in sort (decomposeAmount inputAmount (defaultFusionDustThreshold c height)) = outputsAmounts)"

text \<open>\<open>getObjectBinarySize\<close> of a transaction, the largest value when it does not serialize.\<close>

definition getObjectBinarySize_tx :: "Transaction \<Rightarrow> u64" where
  "getObjectBinarySize_tx tx =
     (case toBinaryArray serialize_Transaction tx of Inl _ \<Rightarrow> -1 | Inr ba \<Rightarrow> word_of_nat (length ba))"

definition isFusionTransaction_size :: "Currency \<Rightarrow> Transaction \<Rightarrow> u64 \<Rightarrow> u32 \<Rightarrow> bool option" where
  "isFusionTransaction_size c tx sz height =
     (if \<not> getObjectBinarySize_tx tx = sz then None
      else Some (isFusionTransaction_amounts c (getInputsAmounts tx) (map out_amount (outputs tx)) sz height))"

definition Currency_isFusionTransaction :: "Currency \<Rightarrow> Transaction \<Rightarrow> u32 \<Rightarrow> bool option" where
  "Currency_isFusionTransaction c tx height = isFusionTransaction_size c tx (getObjectBinarySize_tx tx) height"

text \<open>
  \<open>std::lower_bound\<close> on the sorted table: the position of the first entry that is not smaller. The
  result is the power of ten of an applicable amount.
\<close>

definition lower_bound :: "u64 list \<Rightarrow> u64 \<Rightarrow> nat" where
  "lower_bound xs v = length (takeWhile (\<lambda>x. x < v) xs)"

definition isAmountApplicableInFusionTransactionInput :: "Currency \<Rightarrow> u64 \<Rightarrow> u64 \<Rightarrow> u32 \<Rightarrow> u8 option" where
  "isAmountApplicableInFusionTransactionInput c amt threshold height =
     (if amt \<ge> threshold then None
      else if amt < defaultFusionDustThreshold c height then None
      else
        let it = lower_bound PRETTY_AMOUNTS amt
        in if it = length PRETTY_AMOUNTS \<or> amt \<noteq> PRETTY_AMOUNTS ! it then None
           else Some (word_of_nat (it div 9)))"


section \<open>Addresses and amounts as text\<close>

definition accountAddressAsString :: "(bytes \<Rightarrow> hash) \<Rightarrow> Currency \<Rightarrow> AccountPublicAddress \<Rightarrow> string" where
  "accountAddressAsString H c adr = getAccountAddressAsStr H (m_publicAddressBase58Prefix c) adr"

definition Currency_parseAccountAddressString ::
  "(bytes \<Rightarrow> hash) \<Rightarrow> (public_key \<Rightarrow> bool) \<Rightarrow> Currency \<Rightarrow> string \<Rightarrow> AccountPublicAddress option" where
  "Currency_parseAccountAddressString H check_key c str =
     (case parseAccountAddressString H check_key str of None \<Rightarrow> None
      | Some (prefix, adr) \<Rightarrow> if prefix \<noteq> m_publicAddressBase58Prefix c then None else Some adr)"

definition formatAmount :: "Currency \<Rightarrow> u64 \<Rightarrow> string" where
  "formatAmount c amt =
     (let places = m_numberOfDecimalPlaces c;
          s = to_string (unat amt);
          s = (if length s < places + 1 then replicate (places + 1 - length s) (CHR ''0'') @ s else s)
      in take (length s - places) s @ ''.'' @ drop (length s - places) s)"

text \<open>The overload for \<open>int64_t\<close>; \<open>std::abs\<close> of the smallest value overflows.\<close>

definition formatAmount_signed :: "Currency \<Rightarrow> u64 \<Rightarrow> string option" where
  "formatAmount_signed c amt =
     (if amt = 0x8000000000000000 then None
      else Some (if sint amt < 0 then ''-'' @ formatAmount c (- amt) else formatAmount c amt))"

text \<open>The loop of \<open>parseAmount\<close> that drops trailing zeros beyond the decimal places.\<close>

fun strip_zeros :: "nat \<Rightarrow> string \<Rightarrow> nat \<Rightarrow> string \<times> nat" where
  "strip_zeros places s 0 = (s, 0)"
| "strip_zeros places s (Suc fractionSize) =
     (if places < Suc fractionSize \<and> last s = CHR ''0'' then strip_zeros places (butlast s) fractionSize
      else (s, Suc fractionSize))"

text \<open>\<open>Common::fromString\<close> on a text of digits only: reading fails when the value does not fit.\<close>

definition fromString_digits :: "string \<Rightarrow> u64 option" where
  "fromString_digits s =
     (let v = of_digits 10 (map (\<lambda>ch. of_char ch - 48) s) in if v < 2 ^ 64 then Some (word_of_nat v) else None)"

definition parseAmount :: "Currency \<Rightarrow> string \<Rightarrow> u64 option" where
  "parseAmount c str =
     (let places = m_numberOfDecimalPlaces c;
          strAmount = trim str;
          pointIndex = length (takeWhile (\<lambda>ch. ch \<noteq> CHR ''.'') strAmount)
      in case (if pointIndex < length strAmount then
                 let (strAmount, fractionSize) = strip_zeros places strAmount (length strAmount - pointIndex - 1)
                 in if places < fractionSize then None
                    else Some (take pointIndex strAmount @ drop (Suc pointIndex) strAmount, fractionSize)
               else Some (strAmount, 0)) of
           None \<Rightarrow> None
         | Some (strAmount, fractionSize) \<Rightarrow>
             if strAmount = [] then None
             else if \<not> list_all is_digit strAmount then None
             else fromString_digits (if fractionSize < places
                    then strAmount @ replicate (places - fractionSize) (CHR ''0'') else strAmount))"


section \<open>Amounts as text: round trip\<close>

lemma strip_zeros_none: "fractionSize \<le> places \<Longrightarrow> strip_zeros places s fractionSize = (s, fractionSize)"
  by (cases fractionSize) auto

text \<open>A number with its decimal point, both sides written in digits.\<close>

lemma parse_pointed:
  assumes "list_all is_digit whole" and "list_all is_digit fraction" and "whole \<noteq> []"
    and "length fraction = m_numberOfDecimalPlaces c"
  shows "parseAmount c (whole @ ''.'' @ fraction) = fromString_digits (whole @ fraction)"
proof -
  let ?t = "whole @ CHR ''.'' # fraction"
  have "hd ?t \<notin> set whitespace"
    using assms(1,3) digit_not_special by (cases whole) auto
  moreover have "last ?t \<notin> set whitespace"
    using assms(2) digit_not_special
    by (cases fraction rule: rev_cases) (auto simp: whitespace_def)
  ultimately have trim: "trim ?t = ?t" by (intro trim_id) simp_all
  have "\<forall>ch \<in> set whole. ch \<noteq> CHR ''.''" using assms(1) digit_not_special by (auto simp: list_all_iff)
  then have "takeWhile (\<lambda>ch. ch \<noteq> CHR ''.'') ?t = whole" by (simp add: takeWhile_append)
  then show ?thesis using assms trim by (simp add: parseAmount_def strip_zeros_none)
qed

text \<open>
  C34: an amount survives formatting and parsing: \<open>parseAmount\<close> gives back every amount from the text that
  \<open>formatAmount\<close> makes of it, for any number of decimal places.
\<close>

theorem amount_round_trip: "parseAmount c (formatAmount c amt) = Some amt"
proof -
  define places where "places = m_numberOfDecimalPlaces c"
  define s where "s = replicate (places + 1 - length (to_string (unat amt))) (CHR ''0'') @ to_string (unat amt)"
  have s: "text_value s = unat amt" "list_all is_digit s" "places + 1 \<le> length s"
    using to_string_number [of "unat amt"]
    by (auto simp: s_def text_value_zeros list_all_iff is_digit_def)
  then have "s \<noteq> []" by auto
  have "formatAmount c amt = take (length s - places) s @ ''.'' @ drop (length s - places) s"
    by (simp add: formatAmount_def s_def places_def Let_def)
  moreover have "list_all is_digit (take n s)" "list_all is_digit (drop n s)" for n
    using s(2) by (auto simp: list_all_iff dest: in_set_takeD in_set_dropD)
  ultimately have "parseAmount c (formatAmount c amt) = fromString_digits s"
    using s(3) \<open>s \<noteq> []\<close> parse_pointed [of "take (length s - places) s" "drop (length s - places) s" c]
    by (simp add: places_def)
  also have "\<dots> = Some amt" using s(1) by (simp add: fromString_digits_def text_value_def)
  finally show ?thesis .
qed


section \<open>Fusion transactions keep the value\<close>

text \<open>The fee a fusion transaction pays at a height.\<close>

definition fusion_fee :: "u32 \<Rightarrow> u64" where
  "fusion_fee height =
     (if ucast height \<ge> FUSION_FEE_V1_HEIGHT \<and> ucast height < FUSION_FEE_V1_EXIT_HEIGHT then FUSION_FEE_V1 else 0)"

lemma total_sort: "total (sort xs) = total xs"
proof -
  have "mset (map unat (sort xs)) = mset (map unat xs)" by simp
  then show ?thesis unfolding total_def by (rule sum_list_mset_cong)
qed

lemma fusion_amounts:
  assumes "isFusionTransaction_amounts c ins outs sz height"
  shows "total outs = unat (sum_list ins - fusion_fee height)"
proof -
  have "outs = sort (decomposeAmount (sum_list ins - fusion_fee height) (defaultFusionDustThreshold c height))"
    using assms foldl_plus_sum_list [of id 0 ins]
    by (auto simp: isFusionTransaction_amounts_def fusion_fee_def Let_def split: if_splits)
  then show ?thesis by (simp add: total_sort decomposeAmount_total)
qed

lemma key_amounts: "total (getInputsAmounts tx) = total (map input_amount (inputs tx))"
proof -
  have "total (map input_amount (filter is_key_input xs)) = total (map input_amount xs)" for xs
    by (induction xs) (auto simp: is_key_input_def input_amount_def split: TransactionInput.splits)
  then show ?thesis by (simp add: getInputsAmounts_def)
qed


text \<open>Twelve inputs of 10 merged into outputs of 20 and 100.\<close>

definition fusion_tx :: Transaction where
  "fusion_tx = \<lparr> version = 1, unlockTime = 0,
     inputs = replicate 12 (KeyInput 10 [1] (replicate 32 1)),
     outputs = [\<lparr> out_amount = 20, target = KeyOutput (replicate 32 3) \<rparr>, \<lparr> out_amount = 100, target = KeyOutput (replicate 32 4) \<rparr>],
     extra = [], signatures = replicate 12 [replicate 64 5] \<rparr>"


text \<open>
  Without that cover the subtraction of the fee wraps around: 84 inputs of 1 in the fee window are expected to
  come out as nearly \<open>2 ^ 64\<close>.
\<close>

lemma fusion_fee_wraps:
  "isFusionTransaction_amounts CurrencyBuilder (replicate 84 1)
     (sort (decomposeAmount (84 - 1000000) 0)) 20000 2330000"
  by code_simp

end
