(* ===== verification/Checkpoints.thy ===== *)
theory Checkpoints
  imports Decimal Addresses
begin

text \<open>
  Checkpoints, \<open>src/cryptonotecore/Checkpoints.cpp\<close>: hashes that blocks at given heights must have. The
  \<open>std::map\<close> of points is an association list with distinct keys; a file is its contents.
\<close>

section \<open>Operations\<close>

type_synonym checkpoints = "(u32 \<times> hash) list"

definition addCheckpoint :: "checkpoints \<Rightarrow> u32 \<Rightarrow> string \<Rightarrow> bool \<times> checkpoints" where
  "addCheckpoint points index hash_str =
     (case podFromHex hash_str NULL_HASH of
        (False, _) \<Rightarrow> (False, points)
      | (True, h) \<Rightarrow> if map_of points index \<noteq> None then (False, points) else (True, (index, h) # points))"

text \<open>\<open>std::stoull\<close> in base 10: white space, a sign, digits; a negative number wraps around.\<close>

definition stoull :: "string \<Rightarrow> exc + u64" where
  "stoull s =
     (let s = dropWhile (\<lambda>c. c \<in> set whitespace) s;
          neg = (s \<noteq> [] \<and> hd s = CHR ''-'');
          s = (if s \<noteq> [] \<and> (hd s = CHR ''-'' \<or> hd s = CHR ''+'') then tl s else s);
          ds = takeWhile is_digit s;
          v = of_digits 10 (map (\<lambda>c. of_char c - 48) ds)
      in if ds = [] then Inl (InvalidArgument ''stoull'')
         else if 2 ^ 64 \<le> v then Inl OutOfRange
         else Inr (if neg then - word_of_nat v else word_of_nat v))"

text \<open>
  The loop over the lines: \<open>std::getline\<close> up to a comma, then up to the end of the line. It ends when the
  second read has nothing left. The index is read as \<open>uint64_t\<close> and passed on as \<open>uint32_t\<close>.
\<close>

function load_loop :: "checkpoints \<Rightarrow> string \<Rightarrow> bool \<times> checkpoints" where
  "load_loop points file =
     (let indexString = takeWhile (\<lambda>c. c \<noteq> CHR '','') file;
          rest = drop (Suc (length indexString)) file
      in if rest = [] then (True, points)
         else
           let hash = takeWhile (\<lambda>c. c \<noteq> CHR 0x0A) rest
           in case stoull indexString of
                Inl _ \<Rightarrow> (False, points)
              | Inr index \<Rightarrow>
                  (case addCheckpoint points (ucast index) hash of
                     (False, points') \<Rightarrow> (False, points')
                   | (True, points') \<Rightarrow> load_loop points' (drop (Suc (length hash)) rest)))"
  by pat_completeness auto
termination by (relation "measure (\<lambda>(_, file). length file)") auto

declare load_loop.simps [simp del]

text \<open>\<open>None\<close> is a file that cannot be opened.\<close>

definition loadCheckpointsFromFile :: "checkpoints \<Rightarrow> string option \<Rightarrow> bool \<times> checkpoints" where
  "loadCheckpointsFromFile points file =
     (case file of None \<Rightarrow> (False, points) | Some contents \<Rightarrow> load_loop points contents)"

definition isInCheckpointZone :: "checkpoints \<Rightarrow> u32 \<Rightarrow> bool" where
  "isInCheckpointZone points index \<longleftrightarrow> points \<noteq> [] \<and> index \<le> Max (set (map fst points))"

text \<open>Whether the block passes, and whether there is a point at its height.\<close>

definition checkBlock :: "checkpoints \<Rightarrow> u32 \<Rightarrow> hash \<Rightarrow> bool \<times> bool" where
  "checkBlock points index h =
     (case map_of points index of None \<Rightarrow> (True, False) | Some h' \<Rightarrow> (h' = h, True))"


section \<open>Loading a file\<close>

definition checkpoint_line :: "u32 \<times> hash \<Rightarrow> string" where
  "checkpoint_line p = to_string (unat (fst p)) @ '','' @ toHex (snd p) @ [CHR 0x0A]"


lemma takeWhile_digits:
  "list_all is_digit ds \<Longrightarrow> \<not> is_digit ch \<Longrightarrow> takeWhile is_digit (ds @ ch # rest) = ds"
  by (simp add: takeWhile_append list_all_iff)

lemma stoull_number:
  assumes "n < 2 ^ 64"
  shows "stoull (to_string n) = Inr (word_of_nat n)"
proof -
  define t where "t = to_string n"
  have t: "text_value t = n" "list_all is_digit t" "t \<noteq> []" using to_string_number [of n] by (simp_all add: t_def)
  then have h: "is_digit (hd t)" by (cases t) simp_all
  have "dropWhile (\<lambda>c. c \<in> set whitespace) t = t"
    using digit_not_special [OF h] t(3) by (cases t) simp_all
  moreover have "hd t \<noteq> CHR ''-''" "hd t \<noteq> CHR ''+''" using h by (auto simp: is_digit_def)
  moreover have tw: "takeWhile is_digit t = t" using t(2) by (simp add: list_all_iff)
  ultimately show ?thesis unfolding t_def [symmetric] using t assms
    by (simp add: stoull_def Let_def text_value_def [symmetric] tw)
qed

lemma digits_no_comma: "list_all is_digit s \<Longrightarrow> \<forall>ch \<in> set s. ch \<noteq> CHR '',''"
  by (auto simp: list_all_iff is_digit_def)

text \<open>One line of the file: the index is any \<open>uint64_t\<close>, of which the lower 32 bits are kept.\<close>

lemma load_line:
  assumes "length h = 32" and "n < 2 ^ 64" and "map_of points (word_of_nat n) = None"
  shows "load_loop points (to_string n @ '','' @ toHex h @ [CHR 0x0A] @ rest)
     = load_loop ((word_of_nat n, h) # points) rest"
proof -
  have hex: "\<forall>ch \<in> set (toHex h). ch \<noteq> CHR 0x0A" using toHex_digits [of h] by (auto simp: hexDigits_def)
  have idx: "\<forall>ch \<in> set (to_string n). ch \<noteq> CHR '',''"
    using to_string_number digits_no_comma by blast
  have "stoull (to_string n) = Inr (word_of_nat n)" by (rule stoull_number [OF assms(2)])
  moreover have "podFromHex (toHex h) NULL_HASH = (True, h)"
    using podFromHex_toHex [OF assms(1)] by (simp add: NULL_HASH_def)
  moreover have "ucast (word_of_nat n :: u64) = (word_of_nat n :: u32)"
    using assms(2) by (simp add: word_unat_eq_iff unat_ucast unsigned_of_nat take_bit_eq_mod)
  ultimately show ?thesis
    using assms(3) hex idx
    by (subst load_loop.simps) (simp add: takeWhile_append addCheckpoint_def Let_def)
qed

text \<open>
  A checkpoint file is loaded as written: a file of lines \<open>index,hash\<close> with distinct indices that are not
  points yet adds exactly these points, and blocks at these heights pass the check exactly with that hash.
\<close>

lemma checkpoints_load:
  assumes "distinct (map fst ps)" and "\<forall>p \<in> set ps. length (snd p) = 32 \<and> map_of points (fst p) = None"
  shows "loadCheckpointsFromFile points (Some (concat (map checkpoint_line ps))) = (True, rev ps @ points)
    \<and> (\<forall>(i, h) \<in> set ps. \<forall>h'. checkBlock (rev ps @ points) i h' = (h' = h, True))"
proof
  have "load_loop points (concat (map checkpoint_line ps)) = (True, rev ps @ points)"
    using assms
  proof (induction ps arbitrary: points)
    case Nil
    then show ?case by (simp add: load_loop.simps [of _ "[]"])
  next
    case (Cons p ps)
    obtain i h where p: "p = (i, h)" by fastforce
    have "\<forall>q \<in> set ps. length (snd q) = 32 \<and> map_of ((i, h) # points) (fst q) = None"
      using Cons.prems by (auto simp: p)
    moreover have "unat i < 2 ^ 64" by (rule order.strict_trans [OF unat_lt_u32]) simp
    ultimately show ?case
      using Cons.IH [of "(i, h) # points"] load_line [of h "unat i" points] Cons.prems
      by (simp add: p checkpoint_line_def)
  qed
  then show "loadCheckpointsFromFile points (Some (concat (map checkpoint_line ps))) = (True, rev ps @ points)"
    by (simp add: loadCheckpointsFromFile_def)
  have "map_of (rev ps @ points) i = Some h" if "(i, h) \<in> set ps" for i h
  proof -
    have "map_of (rev ps) i = Some h" using that assms(1) by (intro map_of_is_SomeI) (simp_all add: rev_map [symmetric])
    then show ?thesis by (simp add: map_add_Some_iff)
  qed
  then show "\<forall>(i, h) \<in> set ps. \<forall>h'. checkBlock (rev ps @ points) i h' = (h' = h, True)"
    by (auto simp: checkBlock_def)
qed

lemma checkpoints_load_witness:
  "loadCheckpointsFromFile [(5, replicate 32 1)] (Some (checkpoint_line (7, replicate 32 2))) =
     (True, [(7, replicate 32 2), (5, replicate 32 1)])
   \<and> checkBlock [(7, replicate 32 2), (5, replicate 32 1)] 7 (replicate 32 2) = (True, True)"
  using checkpoints_load [of "[(7, replicate 32 2)]" "[(5, replicate 32 1)]"] by simp

text \<open>An index beyond \<open>uint32_t\<close> is accepted and wraps around.\<close>

lemma checkpoint_index_wraps:
  "loadCheckpointsFromFile [] (Some (to_string 4294967303 @ '','' @ toHex (replicate 32 2) @ [CHR 0x0A]))
     = (True, [(7, replicate 32 2)])"
  using load_line [of "replicate 32 2" 4294967303 "[]" "[]"]
  by (simp add: loadCheckpointsFromFile_def load_loop.simps [of _ "[]"])

end
