(* ===== verification/ValidateTransaction.thy ===== *)
theory ValidateTransaction
  imports FusionAmounts Checkpoints
begin

text \<open>
  The consensus rules for one transaction, \<open>src/cryptonotecore/ValidateTransaction.cpp\<close>, with the values it
  takes from \<open>CachedTransaction.cpp\<close>, \<open>Mixins.h\<close> and \<open>TransactionValidatiorState.cpp\<close>.

  The curve and hash functions are parameters, the chain is a record of the two queries the code makes. The inputs are checked
  by a thread pool: whether all of them pass does not depend on the order of the threads, and which of several failures is reported
  last is the parameter \<open>sched\<close>.
\<close>

section \<open>Data\<close>

datatype TransactionValidationError =
    VALIDATION_SUCCESS | EMPTY_INPUTS | INPUT_UNKNOWN_TYPE | INPUT_EMPTY_OUTPUT_USAGE
  | INPUT_INVALID_DOMAIN_KEYIMAGES | INPUT_IDENTICAL_KEYIMAGES | INPUT_IDENTICAL_OUTPUT_INDEXES
  | INPUT_KEYIMAGE_ALREADY_SPENT | INPUT_INVALID_GLOBAL_INDEX | INPUT_SPEND_LOCKED_OUT
  | INPUT_INVALID_SIGNATURES | INPUT_WRONG_SIGNATURES_COUNT | INPUTS_AMOUNT_OVERFLOW | INPUT_WRONG_COUNT
  | INPUT_UNEXPECTED_TYPE | BASE_INPUT_WRONG_BLOCK_INDEX | OUTPUT_ZERO_AMOUNT | OUTPUT_INVALID_KEY
  | OUTPUT_INVALID_REQUIRED_SIGNATURES_COUNT | OUTPUT_UNKNOWN_TYPE | OUTPUTS_AMOUNT_OVERFLOW | WRONG_AMOUNT
  | WRONG_TRANSACTION_UNLOCK_TIME | INVALID_MIXIN | EXTRA_TOO_LARGE | BASE_INVALID_SIGNATURES_COUNT
  | INPUT_INVALID_SIGNATURES_COUNT | OUTPUT_AMOUNT_TOO_LARGE | EXCESSIVE_OUTPUTS | WRONG_FEE | SIZE_TOO_LARGE
  | POW_INVALID

text \<open>The error code is \<open>None\<close> as long as it has its default value.\<close>

record TransactionValidationResult =
  r_errorCode :: "TransactionValidationError option"
  r_errorMessage :: string
  r_valid :: bool
  r_fee :: u64

datatype ExtractOutputKeysResult = SUCCESS | INVALID_GLOBAL_INDEX | OUTPUT_LOCKED

text \<open>A call may run into undefined behaviour or a failed assertion, throw, or return.\<close>

datatype 'a outcome = Undefined | Throws exc | Returns 'a

primrec bindO :: "'a outcome \<Rightarrow> ('a \<Rightarrow> 'b outcome) \<Rightarrow> 'b outcome" where
  "bindO Undefined f = Undefined"
| "bindO (Throws e) f = Throws e"
| "bindO (Returns x) f = f x"

fun of_result :: "exc + 'a \<Rightarrow> 'a outcome" where
  "of_result (Inl e) = Throws e"
| "of_result (Inr x) = Returns x"

record chain_queries =
  checkIfSpent :: "key_image \<Rightarrow> u32 \<Rightarrow> bool outcome"
  extractKeyOutputKeys :: "u64 \<Rightarrow> u32 \<Rightarrow> u32 list \<Rightarrow> (ExtractOutputKeysResult \<times> public_key list) outcome"

text \<open>The cryptographic functions the rules call.\<close>

record crypto_functions =
  cf_scalarmultKey :: "key_image \<Rightarrow> key_image \<Rightarrow> key_image"
  cf_check_key :: "public_key \<Rightarrow> bool"
  cf_cn_fast_hash :: "bytes \<Rightarrow> hash"
  cf_cn_turtle_lite_slow_hash_v2 :: "bytes \<Rightarrow> hash"
  cf_checkRingSignature :: "hash \<Rightarrow> key_image \<Rightarrow> public_key list \<Rightarrow> bytes list \<Rightarrow> bool"

text \<open>The constant members of \<open>ValidateTransaction\<close>, and the ones that change.\<close>

record validation_context =
  vc_crypto :: crypto_functions
  vc_transaction :: Transaction
  vc_currency :: Currency
  vc_checkpoints :: checkpoints
  vc_chain :: chain_queries
  vc_blockHeight :: u64
  vc_blockSizeMedian :: u64
  vc_isPoolTransaction :: bool

record validator =
  v_result :: TransactionValidationResult
  v_sumOfInputs :: u64
  v_sumOfOutputs :: u64
  v_spentKeyImages :: "key_image set"


section \<open>Cached transactions and validator states\<close>

definition getTransactionBinaryArray :: "Transaction \<Rightarrow> exc + bytes" where
  "getTransactionBinaryArray tx = toBinaryArray serialize_Transaction tx"

definition getTransactionHash :: "(bytes \<Rightarrow> hash) \<Rightarrow> Transaction \<Rightarrow> exc + hash" where
  "getTransactionHash H tx =
     (case getTransactionBinaryArray tx of Inl e \<Rightarrow> Inl e | Inr ba \<Rightarrow> Inr (H ba))"

definition getTransactionPrefixHash :: "(bytes \<Rightarrow> hash) \<Rightarrow> Transaction \<Rightarrow> hash" where
  "getTransactionPrefixHash H tx = snd (getObjectHash H serialize_TransactionPrefix (TransactionPrefix.truncate tx))"

text \<open>The constructor from a byte array.\<close>

definition CachedTransaction :: "bytes \<Rightarrow> exc + Transaction" where
  "CachedTransaction ba =
     (case fromBinaryArray deserialize_Transaction ba of
        Inl _ \<Rightarrow> Inl (RuntimeError ''CachedTransaction::CachedTransaction(BinaryArray&&), deserealization error.'')
      | Inr tx \<Rightarrow> Inr tx)"

fun fee_inputs :: "u64 \<Rightarrow> TransactionInput list \<Rightarrow> u64 option" where
  "fee_inputs summaryInputAmount [] = Some summaryInputAmount"
| "fee_inputs summaryInputAmount (BaseInput _ # ins) = None"
| "fee_inputs summaryInputAmount (KeyInput amt _ _ # ins) = fee_inputs (summaryInputAmount + amt) ins"

definition getTransactionFee :: "Transaction \<Rightarrow> u64" where
  "getTransactionFee tx =
     (let summaryOutputAmount = foldl (\<lambda>s out. s + out_amount out) 0 (outputs tx)
      in case fee_inputs 0 (inputs tx) of None \<Rightarrow> 0
         | Some summaryInputAmount \<Rightarrow> summaryInputAmount - summaryOutputAmount)"

definition getTransactionAmount :: "Transaction \<Rightarrow> u64" where
  "getTransactionAmount tx = foldl (\<lambda>s out. s + out_amount out) 0 (outputs tx)"

text \<open>\<open>TransactionValidatorState\<close> is the set of key images.\<close>

definition mergeStates :: "key_image set \<Rightarrow> key_image set \<Rightarrow> key_image set" where
  "mergeStates destination source = destination \<union> source"

definition hasIntersections :: "key_image set \<Rightarrow> key_image set \<Rightarrow> bool" where
  "hasIntersections destination source \<longleftrightarrow> (\<exists>ki \<in> source. ki \<in> destination)"

fun exclude_inputs :: "key_image set \<Rightarrow> TransactionInput list \<Rightarrow> key_image set option" where
  "exclude_inputs state [] = Some state"
| "exclude_inputs state (BaseInput _ # ins) = None"
| "exclude_inputs state (KeyInput _ _ ki # ins) =
     (if ki \<notin> state then None else exclude_inputs (state - {ki}) ins)"

definition excludeFromState :: "key_image set \<Rightarrow> Transaction \<Rightarrow> key_image set option" where
  "excludeFromState state tx = exclude_inputs state (inputs tx)"


section \<open>Mixins\<close>

fun largest_ring :: "u64 \<Rightarrow> TransactionInput list \<Rightarrow> u64" where
  "largest_ring ringSize [] = ringSize"
| "largest_ring ringSize (BaseInput _ # ins) = largest_ring ringSize ins"
| "largest_ring ringSize (KeyInput _ idx _ # ins) =
     largest_ring (if word_of_nat (length idx) > ringSize then word_of_nat (length idx) else ringSize) ins"

text \<open>The empty result is success, otherwise the message; the hash in the message may fail to be computed.\<close>

definition Mixins_validate_range ::
  "(bytes \<Rightarrow> hash) \<Rightarrow> Transaction \<Rightarrow> u64 \<Rightarrow> u64 \<Rightarrow> exc + string option" where
  "Mixins_validate_range H tx minMixin maxMixin =
     (let mixin = largest_ring 1 (inputs tx) - 1
      in if mixin > maxMixin then
           (case getTransactionHash H tx of Inl e \<Rightarrow> Inl e
            | Inr h \<Rightarrow> Inr (Some (''Transaction '' @ podToHex h
                @ '' is not valid. Reason: transaction mixin is too large ('' @ to_string (unat mixin)
                @ ''). Maximum mixin allowed is '' @ to_string (unat maxMixin))))
         else if mixin < minMixin then
           (case getTransactionHash H tx of Inl e \<Rightarrow> Inl e
            | Inr h \<Rightarrow> Inr (Some (''Transaction '' @ podToHex h
                @ '' is not valid. Reason: transaction mixin is too small ('' @ to_string (unat mixin)
                @ ''). Minimum mixin allowed is '' @ to_string (unat minMixin))))
         else Inr None)"

fun Mixins_validate_all ::
  "(bytes \<Rightarrow> hash) \<Rightarrow> u64 \<Rightarrow> u64 \<Rightarrow> Transaction list \<Rightarrow> exc + string option" where
  "Mixins_validate_all H minMixin maxMixin [] = Inr None"
| "Mixins_validate_all H minMixin maxMixin (tx # txs) =
     (case Mixins_validate_range H tx minMixin maxMixin of
        Inl e \<Rightarrow> Inl e
      | Inr (Some err) \<Rightarrow> Inr (Some err)
      | Inr None \<Rightarrow> Mixins_validate_all H minMixin maxMixin txs)"

definition Mixins_validate :: "(bytes \<Rightarrow> hash) \<Rightarrow> Transaction list \<Rightarrow> u64 \<Rightarrow> exc + string option" where
  "Mixins_validate H txs height =
     (let (minMixin, maxMixin, defaultMixin) = getMixinAllowableRange height
      in Mixins_validate_all H minMixin maxMixin txs)"


section \<open>The rules\<close>

definition setTransactionValidationResult :: "TransactionValidationError \<Rightarrow> string \<Rightarrow> validator \<Rightarrow> validator" where
  "setTransactionValidationResult code msg v =
     v\<lparr> v_result := (v_result v)\<lparr> r_errorCode := Some code, r_errorMessage := msg \<rparr> \<rparr>"

text \<open>A rule that is not met: record why and return \<open>false\<close>.\<close>

definition reject :: "TransactionValidationError \<Rightarrow> string \<Rightarrow> validator \<Rightarrow> bool \<times> validator" where
  "reject code msg v = (False, setTransactionValidationResult code msg v)"

definition validateTransactionSize :: "validation_context \<Rightarrow> validator \<Rightarrow> (bool \<times> validator) outcome" where
  "validateTransactionSize cx v =
     (let maxTransactionSize = vc_blockSizeMedian cx * 2 - m_minerTxBlobReservedSize (vc_currency cx)
      in bindO (of_result (getTransactionBinaryArray (vc_transaction cx))) (\<lambda>ba.
           Returns (if word_of_nat (length ba) > maxTransactionSize
             then reject SIZE_TOO_LARGE ''Transaction is too large (in bytes)'' v else (True, v))))"

definition key_image_I :: key_image where
  "key_image_I = 0x01 # replicate 31 0"

definition key_image_L :: key_image where
  "key_image_L = [0xed, 0xd3, 0xf5, 0x5c, 0x1a, 0x63, 0x12, 0x58, 0xd6, 0x9c, 0xf7, 0xa2, 0xde, 0xf9, 0xde, 0x14]
     @ replicate 15 0 @ [0x10]"

fun inputs_loop ::
  "crypto_functions \<Rightarrow> key_image set \<Rightarrow> u64 \<Rightarrow> TransactionInput list \<Rightarrow> validator \<Rightarrow> bool \<times> validator" where
  "inputs_loop cf ki sumOfInputs [] v = (True, v\<lparr> v_sumOfInputs := sumOfInputs \<rparr>)"
| "inputs_loop cf ki sumOfInputs (BaseInput _ # ins) v =
     reject INPUT_UNKNOWN_TYPE ''Transaction input has an unknown input type'' v"
| "inputs_loop cf ki sumOfInputs (KeyInput amt idx kimg # ins) v =
     (if kimg \<in> ki then reject INPUT_IDENTICAL_KEYIMAGES ''Transaction contains identical key images'' v
      else if idx = [] then reject INPUT_EMPTY_OUTPUT_USAGE ''Transaction contains no output indexes'' v
      else if cf_scalarmultKey cf kimg key_image_L \<noteq> key_image_I
      then reject INPUT_INVALID_DOMAIN_KEYIMAGES ''Transaction contains key images in an invalid domain'' v
      else if list_ex (\<lambda>i. i = 0) (tl idx)
      then reject INPUT_IDENTICAL_OUTPUT_INDEXES ''Transaction contains identical output indexes'' v
      else if kimg \<in> v_spentKeyImages v
      then reject INPUT_KEYIMAGE_ALREADY_SPENT ''Transaction contains key image that has already been spent'' v
      else
        let v' = v\<lparr> v_spentKeyImages := insert kimg (v_spentKeyImages v) \<rparr>
        in if -1 - amt < sumOfInputs
           then reject INPUTS_AMOUNT_OVERFLOW ''Transaction inputs will overflow'' v'
           else inputs_loop cf (insert kimg ki) (sumOfInputs + amt) ins v')"

definition validateTransactionInputs :: "validation_context \<Rightarrow> validator \<Rightarrow> (bool \<times> validator) outcome" where
  "validateTransactionInputs cx v =
     Returns (if inputs (vc_transaction cx) = [] then reject EMPTY_INPUTS ''Transaction has no inputs'' v
              else inputs_loop (vc_crypto cx) {} 0 (inputs (vc_transaction cx)) v)"

fun outputs_loop :: "crypto_functions \<Rightarrow> u64 \<Rightarrow> TransactionOutput list \<Rightarrow> validator \<Rightarrow> bool \<times> validator" where
  "outputs_loop cf sumOfOutputs [] v = (True, v\<lparr> v_sumOfOutputs := sumOfOutputs \<rparr>)"
| "outputs_loop cf sumOfOutputs (out # outs) v =
     (if out_amount out = 0 then reject OUTPUT_ZERO_AMOUNT ''Transaction has an output amount of zero'' v
      else case target out of KeyOutput k \<Rightarrow>
        if \<not> cf_check_key cf k
        then reject OUTPUT_INVALID_KEY ''Transaction output has an invalid output key'' v
        else if -1 - out_amount out < sumOfOutputs
        then reject OUTPUTS_AMOUNT_OVERFLOW ''Transaction outputs will overflow'' v
        else outputs_loop cf (sumOfOutputs + out_amount out) outs v)"

definition validateTransactionOutputs :: "validation_context \<Rightarrow> validator \<Rightarrow> (bool \<times> validator) outcome" where
  "validateTransactionOutputs cx v =
     Returns (outputs_loop (vc_crypto cx) 0 (outputs (vc_transaction cx)) v)"

text \<open>\<open>m_blockHeight\<close> is a \<open>uint64_t\<close>, the height of \<open>isFusionTransaction\<close> a \<open>uint32_t\<close>.\<close>

definition call_order_message :: string where
  "call_order_message = ''Error! You must call validateTransactionInputs() and ''
     @ ''validateTransactionOutputs() before calling validateTransactionFee()!''"

definition wrong_fee_message :: string where
  "wrong_fee_message = ''Transaction fee is below minimum fee and is not a fusion transaction''"

definition valid_fee :: "u64 \<Rightarrow> bool \<Rightarrow> u64 \<Rightarrow> bool" where
  "valid_fee height isFusion txFee =
     (if isFusion
      then if height \<ge> FUSION_FEE_V1_HEIGHT \<and> height < FUSION_FEE_V1_EXIT_HEIGHT then txFee \<ge> FUSION_FEE_V1 else True
      else \<not> (txFee = 0 \<or> txFee < getMinimumFee height))"

definition validateTransactionFee :: "validation_context \<Rightarrow> validator \<Rightarrow> (bool \<times> validator) outcome" where
  "validateTransactionFee cx v =
     (if v_sumOfInputs v = 0 then Throws (RuntimeError call_order_message)
      else if v_sumOfOutputs v > v_sumOfInputs v
      then Returns (reject WRONG_AMOUNT ''Sum of outputs is greater than sum of inputs'' v)
      else
        let txFee = v_sumOfInputs v - v_sumOfOutputs v;
            height = vc_blockHeight cx
        in bindO (of_result (getTransactionBinaryArray (vc_transaction cx))) (\<lambda>ba.
           case isFusionTransaction_size (vc_currency cx) (vc_transaction cx) (word_of_nat (length ba)) (ucast height) of
             None \<Rightarrow> Undefined
           | Some isFusion \<Rightarrow>
               Returns (if valid_fee height isFusion txFee
                 then (True, v\<lparr> v_result := (v_result v)\<lparr> r_fee := txFee \<rparr> \<rparr>)
                 else reject WRONG_FEE wrong_fee_message v)))"

definition validateTransactionExtra :: "validation_context \<Rightarrow> validator \<Rightarrow> (bool \<times> validator) outcome" where
  "validateTransactionExtra cx v =
     (let heightToEnforceV2 = MAX_EXTRA_SIZE_V2_HEIGHT + ucast CRYPTONOTE_MINED_MONEY_UNLOCK_WINDOW;
          heightToEnforceV3 = MAX_EXTRA_SIZE_V3_HEIGHT + ucast CRYPTONOTE_MINED_MONEY_UNLOCK_WINDOW;
          extraSize = word_of_nat (length (extra (vc_transaction cx)));
          tooBigExtra =
            (if vc_isPoolTransaction cx \<or> vc_blockHeight cx \<ge> heightToEnforceV3 then extraSize \<ge> MAX_EXTRA_SIZE_V3
             else vc_blockHeight cx \<ge> heightToEnforceV2 \<and> extraSize \<ge> MAX_EXTRA_SIZE_V2)
      in Returns (if tooBigExtra then reject EXTRA_TOO_LARGE ''Transaction extra is too large'' v else (True, v)))"

text \<open>
  The window computed at the start of \<open>validateTransactionMixin\<close> is not used: both calls test the same height,
  so that the second one, for a transaction of a block, repeats the first.
\<close>

definition validateTransactionMixin :: "validation_context \<Rightarrow> validator \<Rightarrow> (bool \<times> validator) outcome" where
  "validateTransactionMixin cx v =
     bindO (of_result (Mixins_validate (cf_cn_fast_hash (vc_crypto cx)) [vc_transaction cx] (vc_blockHeight cx))) (\<lambda>r.
       case r of None \<Rightarrow> Returns (True, v)
       | Some err \<Rightarrow>
           if vc_isPoolTransaction cx then Returns (reject INVALID_MIXIN err v)
           else bindO (of_result (Mixins_validate (cf_cn_fast_hash (vc_crypto cx)) [vc_transaction cx] (vc_blockHeight cx))) (\<lambda>r.
             Returns (case r of None \<Rightarrow> (True, v) | Some err \<Rightarrow> reject INVALID_MIXIN err v)))"

definition validateTransactionPoW :: "validation_context \<Rightarrow> validator \<Rightarrow> (bool \<times> validator) outcome" where
  "validateTransactionPoW cx v =
     (if vc_blockHeight cx < TRANSACTION_POW_HEIGHT then Returns (True, v)
      else bindO (of_result (toBinaryArray serialize_TransactionPrefix (TransactionPrefix.truncate (vc_transaction cx)))) (\<lambda>data.
        Returns (if check_hash (cf_cn_turtle_lite_slow_hash_v2 (vc_crypto cx) data) TRANSACTION_POW_DIFFICULTY
          then (True, v) else reject POW_INVALID ''Transaction has a too weak proof of work'' v)))"

text \<open>
  The job for one input: \<open>None\<close> when it passes, else the error it reports. A missing vector of signatures is
  undefined behaviour.
\<close>

definition check_input ::
  "validation_context \<Rightarrow> hash \<Rightarrow> nat \<Rightarrow> TransactionInput \<Rightarrow> (TransactionValidationError \<times> string) option outcome" where
  "check_input cx prefixHash inputIndex inp =
     (case inp of BaseInput _ \<Rightarrow> Throws (RuntimeError ''boost::bad_get'')
      | KeyInput amt idx kimg \<Rightarrow>
          bindO (checkIfSpent (vc_chain cx) kimg (ucast (vc_blockHeight cx))) (\<lambda>spent.
          if spent
          then Returns (Some (INPUT_KEYIMAGE_ALREADY_SPENT, ''Transaction contains key image that has already been spent''))
          else if idx = [] then Undefined
          else bindO (extractKeyOutputKeys (vc_chain cx) amt (ucast (vc_blockHeight cx)) (relativeOutputOffsetsToAbsolute idx))
            (\<lambda>(result, outputKeys).
               if result = INVALID_GLOBAL_INDEX
               then Returns (Some (INPUT_INVALID_GLOBAL_INDEX, ''Transaction contains invalid global indexes''))
               else if result = OUTPUT_LOCKED
               then Returns (Some (INPUT_SPEND_LOCKED_OUT, ''Transaction includes an input which is still locked''))
               else if \<not> inputIndex < length (signatures (vc_transaction cx)) then Undefined
               else if (vc_isPoolTransaction cx \<or> vc_blockHeight cx \<ge> TRANSACTION_SIGNATURE_COUNT_VALIDATION_HEIGHT)
                    \<and> length outputKeys \<noteq> length (signatures (vc_transaction cx) ! inputIndex)
               then Returns (Some (INPUT_INVALID_SIGNATURES_COUNT, ''Transaction has an invalid number of signatures''))
               else if \<not> cf_checkRingSignature (vc_crypto cx) prefixHash kimg outputKeys
                            (signatures (vc_transaction cx) ! inputIndex)
               then Returns (Some (INPUT_INVALID_SIGNATURES, ''Transaction contains invalid signatures''))
               else Returns None)))"

text \<open>The jobs of the inputs from \<open>inputIndex\<close> on: the errors of those that fail.\<close>

fun check_inputs ::
  "validation_context \<Rightarrow> hash \<Rightarrow> nat \<Rightarrow> TransactionInput list \<Rightarrow> (TransactionValidationError \<times> string) list outcome" where
  "check_inputs cx prefixHash inputIndex [] = Returns []"
| "check_inputs cx prefixHash inputIndex (inp # ins) =
     bindO (check_input cx prefixHash inputIndex inp) (\<lambda>r.
     bindO (check_inputs cx prefixHash (Suc inputIndex) ins) (\<lambda>errs.
       Returns (case r of None \<Rightarrow> errs | Some err \<Rightarrow> err # errs)))"

type_synonym scheduler = "(TransactionValidationError \<times> string) list \<Rightarrow> TransactionValidationError \<times> string"

definition validateTransactionInputsExpensive ::
  "scheduler \<Rightarrow> validation_context \<Rightarrow> validator \<Rightarrow> (bool \<times> validator) outcome" where
  "validateTransactionInputsExpensive sched cx v =
     (if isInCheckpointZone (vc_checkpoints cx) (ucast (vc_blockHeight cx + 1)) then Returns (True, v)
      else
        let prefixHash = getTransactionPrefixHash (cf_cn_fast_hash (vc_crypto cx)) (vc_transaction cx)
        in bindO (check_inputs cx prefixHash 0 (inputs (vc_transaction cx))) (\<lambda>errs.
             Returns (if errs = [] then (True, v) else reject (fst (sched errs)) (snd (sched errs)) v)))"

text \<open>\<open>if (!rule()) return m_validationResult;\<close>\<close>

definition require ::
  "(validator \<Rightarrow> (bool \<times> validator) outcome) \<Rightarrow> (validator \<Rightarrow> validator outcome) \<Rightarrow> validator \<Rightarrow> validator outcome" where
  "require rule continue v = bindO (rule v) (\<lambda>(ok, v'). if ok then continue v' else Returns v')"

definition accept :: "validator \<Rightarrow> validator outcome" where
  "accept v = Returns (setTransactionValidationResult VALIDATION_SUCCESS []
     (v\<lparr> v_result := (v_result v)\<lparr> r_valid := True \<rparr> \<rparr>))"

definition validate :: "scheduler \<Rightarrow> validation_context \<Rightarrow> validator \<Rightarrow> validator outcome" where
  "validate sched cx =
     require (validateTransactionSize cx)
     (require (validateTransactionInputs cx)
     (require (validateTransactionOutputs cx)
     (require (validateTransactionFee cx)
     (require (validateTransactionExtra cx)
     (require (validateTransactionMixin cx)
     (require (validateTransactionPoW cx)
     (require (validateTransactionInputsExpensive sched cx)
      accept)))))))"

definition revalidateAfterHeightChange :: "validation_context \<Rightarrow> validator \<Rightarrow> validator outcome" where
  "revalidateAfterHeightChange cx =
     require (validateTransactionSize cx)
     (require (validateTransactionExtra cx)
     (require (validateTransactionMixin cx)
     (require (validateTransactionInputs cx)
     (require (validateTransactionOutputs cx)
     (require (validateTransactionFee cx)
     (if vc_blockHeight cx \<ge> TRANSACTION_POW_HEIGHT \<and> vc_blockHeight cx \<le> TRANSACTION_POW_HEIGHT + 100
      then require (validateTransactionPoW cx) accept
      else accept))))))"

text \<open>The members of a new object over a validator state.\<close>

definition new_validator :: "key_image set \<Rightarrow> validator" where
  "new_validator state = \<lparr> v_result = \<lparr> r_errorCode = None, r_errorMessage = [], r_valid = False, r_fee = 0 \<rparr>,
     v_sumOfInputs = 0, v_sumOfOutputs = 0, v_spentKeyImages = state \<rparr>"


section \<open>What each rule guarantees\<close>

lemma bindO_Returns: "bindO x f = Returns y \<longleftrightarrow> (\<exists>a. x = Returns a \<and> f a = Returns y)"
  by (cases x) auto

lemma sum_overflow_iff: "-1 - amt < (s :: u64) \<longleftrightarrow> 2 ^ 64 \<le> unat s + unat amt"
proof -
  have "unat (-1 - amt) = 2 ^ 64 - 1 - unat amt"
    by (subst unat_sub) (simp_all add: unsigned_minus_1_eq_mask mask_eq_exp_minus_1)
  moreover have "unat amt < 2 ^ 64" by simp
  ultimately show ?thesis unfolding word_less_nat_alt by linarith
qed

lemma key_input_simps [simp]:
  "is_key_input (KeyInput amt idx kimg)" "input_amount (KeyInput amt idx kimg) = amt" "\<not> is_key_input (BaseInput i)"
  by (simp_all add: is_key_input_def input_amount_def)

lemma reject_not [simp]: "reject code msg v \<noteq> (True, v')"
  by (simp add: reject_def)

lemma inputs_loop_True:
  "inputs_loop cf ki s ins v = (True, v') \<Longrightarrow>
     list_all is_key_input ins \<and> distinct (map keyImage ins) \<and> set (map keyImage ins) \<inter> v_spentKeyImages v = {}
     \<and> unat s + total (map input_amount ins) < 2 ^ 64
     \<and> v' = v\<lparr> v_sumOfInputs := s + sum_list (map input_amount ins),
              v_spentKeyImages := v_spentKeyImages v \<union> set (map keyImage ins) \<rparr>"
proof (induction cf ki s ins v arbitrary: v' rule: inputs_loop.induct)
  case (3 cf ki s amt idx kimg ins v)
  define w where "w = v\<lparr> v_spentKeyImages := insert kimg (v_spentKeyImages v) \<rparr>"
  have g: "kimg \<notin> v_spentKeyImages v" "\<not> -1 - amt < s"
    and rec: "inputs_loop cf (insert kimg ki) (s + amt) ins w = (True, v')"
    using "3.prems" by (auto simp: w_def Let_def split: if_splits)
  have ih: "list_all is_key_input ins \<and> distinct (map keyImage ins) \<and> set (map keyImage ins) \<inter> v_spentKeyImages w = {}
     \<and> unat (s + amt) + total (map input_amount ins) < 2 ^ 64
     \<and> v' = w\<lparr> v_sumOfInputs := s + amt + sum_list (map input_amount ins),
              v_spentKeyImages := v_spentKeyImages w \<union> set (map keyImage ins) \<rparr>"
    by (rule "3.IH") (use "3.prems" rec in \<open>auto simp: w_def Let_def split: if_splits\<close>)
  have "unat s + unat amt < 2 ^ 64" using g(2) unfolding sum_overflow_iff by simp
  then have "unat (s + amt) = unat s + unat amt" by (rule unat_add_fits)
  with ih g(1) show ?case
    by (auto simp: w_def add.assoc)
qed simp_all

lemma outputs_loop_True:
  "outputs_loop cf s outs v = (True, v') \<Longrightarrow>
     (\<forall>out \<in> set outs. out_amount out \<noteq> 0 \<and> cf_check_key cf (key (target out)))
     \<and> unat s + total (map out_amount outs) < 2 ^ 64
     \<and> v' = v\<lparr> v_sumOfOutputs := s + sum_list (map out_amount outs) \<rparr>"
proof (induction cf s outs v arbitrary: v' rule: outputs_loop.induct)
  case (2 cf s out outs v)
  obtain k where k: "target out = KeyOutput k" by (cases "target out")
  have g: "out_amount out \<noteq> 0" "cf_check_key cf k" "\<not> -1 - out_amount out < s"
    and rec: "outputs_loop cf (s + out_amount out) outs v = (True, v')"
    using "2.prems" by (auto simp: k split: if_splits)
  have "unat s + unat (out_amount out) < 2 ^ 64" using g(3) unfolding sum_overflow_iff by simp
  then have "unat (s + out_amount out) = unat s + unat (out_amount out)" by (rule unat_add_fits)
  with "2.IH" [OF g(1) k _ g(3) rec] g(1,2) k show ?case by (auto simp: add.assoc)
qed simp


lemma check_input_None:
  assumes "check_input cx h i inp = Returns None"
  obtains amt idx kimg keys where "inp = KeyInput amt idx kimg"
    "checkIfSpent (vc_chain cx) kimg (ucast (vc_blockHeight cx)) = Returns False"
    "extractKeyOutputKeys (vc_chain cx) amt (ucast (vc_blockHeight cx)) (relativeOutputOffsetsToAbsolute idx)
       = Returns (SUCCESS, keys)"
    "i < length (signatures (vc_transaction cx))"
    "cf_checkRingSignature (vc_crypto cx) h kimg keys (signatures (vc_transaction cx) ! i)"
proof (cases inp)
  case (KeyInput amt idx kimg)
  obtain res keys where r: "extractKeyOutputKeys (vc_chain cx) amt (ucast (vc_blockHeight cx))
      (relativeOutputOffsetsToAbsolute idx) = Returns (res, keys)"
    using assms KeyInput by (auto simp: check_input_def bindO_Returns split: if_splits)
  then have "res = SUCCESS" using assms KeyInput by (cases res) (auto simp: check_input_def bindO_Returns split: if_splits)
  with r that [OF KeyInput] show thesis using assms KeyInput by (auto simp: check_input_def bindO_Returns split: if_splits)
qed (use assms in \<open>simp add: check_input_def\<close>)

lemma check_inputs_Nil:
  "check_inputs cx h i ins = Returns [] \<Longrightarrow> j < length ins \<Longrightarrow> check_input cx h (i + j) (ins ! j) = Returns None"
proof (induction ins arbitrary: i j)
  case (Cons inp ins)
  obtain r errs where r: "check_input cx h i inp = Returns r" "check_inputs cx h (Suc i) ins = Returns errs"
    using Cons.prems(1) by (cases "check_input cx h i inp"; cases "check_inputs cx h (Suc i) ins") auto
  then have "r = None" "errs = []" using Cons.prems(1) by (auto split: option.splits)
  with r Cons.IH [of "Suc i" "j - 1"] Cons.prems(2) show ?case by (cases j) auto
qed simp

text \<open>No rule touches the verdict before the last one; a rule that passes changes only what it computes.\<close>

definition keeps_verdict :: "(validator \<Rightarrow> (bool \<times> validator) outcome) \<Rightarrow> bool" where
  "keeps_verdict rule \<longleftrightarrow> (\<forall>v r. rule v = Returns r \<longrightarrow> r_valid (v_result (snd r)) = r_valid (v_result v))"

lemma reject_verdict [simp]: "r_valid (v_result (snd (reject code msg v))) = r_valid (v_result v)"
  by (simp add: reject_def setTransactionValidationResult_def)

lemma inputs_loop_verdict [simp]: "r_valid (v_result (snd (inputs_loop cf ki s ins v))) = r_valid (v_result v)"
  by (induction cf ki s ins v rule: inputs_loop.induct) (simp_all add: Let_def)

lemma outputs_loop_verdict [simp]: "r_valid (v_result (snd (outputs_loop cf s outs v))) = r_valid (v_result v)"
  by (induction cf s outs v rule: outputs_loop.induct) (simp_all split: TransactionOutputTarget.split)

lemma verdict_dests:
  "reject code msg v = (b, v') \<Longrightarrow> r_valid (v_result v') = r_valid (v_result v)"
  "inputs_loop cf ki s ins v = (b, v') \<Longrightarrow> r_valid (v_result v') = r_valid (v_result v)"
  "outputs_loop cf s outs v = (b, v') \<Longrightarrow> r_valid (v_result v') = r_valid (v_result v)"
  by (metis snd_conv reject_verdict inputs_loop_verdict outputs_loop_verdict)+

lemma keeps_size: "keeps_verdict (validateTransactionSize cx)"
  by (auto simp: keeps_verdict_def validateTransactionSize_def bindO_Returns Let_def dest: verdict_dests split: if_splits)

lemma keeps_inputs: "keeps_verdict (validateTransactionInputs cx)"
  by (auto simp: keeps_verdict_def validateTransactionInputs_def dest: verdict_dests split: if_splits)

lemma keeps_outputs: "keeps_verdict (validateTransactionOutputs cx)"
  by (auto simp: keeps_verdict_def validateTransactionOutputs_def dest: verdict_dests)

lemma keeps_fee: "keeps_verdict (validateTransactionFee cx)"
  by (auto simp: keeps_verdict_def validateTransactionFee_def bindO_Returns Let_def
      dest: verdict_dests split: if_splits option.splits)

lemma keeps_extra: "keeps_verdict (validateTransactionExtra cx)"
  by (auto simp: keeps_verdict_def validateTransactionExtra_def Let_def dest: verdict_dests split: if_splits)

lemma keeps_mixin: "keeps_verdict (validateTransactionMixin cx)"
  by (auto simp: keeps_verdict_def validateTransactionMixin_def bindO_Returns dest: verdict_dests split: option.splits if_splits)

lemma keeps_pow: "keeps_verdict (validateTransactionPoW cx)"
  by (auto simp: keeps_verdict_def validateTransactionPoW_def bindO_Returns dest: verdict_dests split: if_splits)

lemma keeps_expensive: "keeps_verdict (validateTransactionInputsExpensive sched cx)"
  by (auto simp: keeps_verdict_def validateTransactionInputsExpensive_def bindO_Returns Let_def dest: verdict_dests split: if_splits)

lemma require_valid:
  assumes "require rule continue v = Returns v'" and "keeps_verdict rule"
    and "\<not> r_valid (v_result v)" and "r_valid (v_result v')"
  obtains w where "rule v = Returns (True, w)" "continue w = Returns v'" "\<not> r_valid (v_result w)"
proof -
  from assms(1) obtain ok w where w: "rule v = Returns (ok, w)" "(if ok then continue w else Returns v) = (if ok then Returns v' else Returns v)" "\<not> ok \<Longrightarrow> w = v'"
    by (auto simp: require_def bindO_Returns split: if_splits)
  have "r_valid (v_result w) = r_valid (v_result v)" using assms(2) w(1) by (auto simp: keeps_verdict_def)
  with w assms(3,4) that show thesis by (cases ok) auto
qed


text \<open>What a rule leaves behind when it passes.\<close>

lemma pass_unchanged:
  "validateTransactionSize cx v = Returns (True, w) \<Longrightarrow> w = v"
  "validateTransactionExtra cx v = Returns (True, w) \<Longrightarrow> w = v"
  "validateTransactionMixin cx v = Returns (True, w) \<Longrightarrow> w = v"
  "validateTransactionPoW cx v = Returns (True, w) \<Longrightarrow> w = v"
  "validateTransactionInputsExpensive sched cx v = Returns (True, w) \<Longrightarrow> w = v"
  by (auto simp: validateTransactionSize_def validateTransactionExtra_def validateTransactionMixin_def
      validateTransactionPoW_def validateTransactionInputsExpensive_def bindO_Returns Let_def reject_def
      split: if_splits option.splits)

lemma pass_inputs:
  assumes "validateTransactionInputs cx v = Returns (True, w)"
  shows "inputs (vc_transaction cx) \<noteq> [] \<and> list_all is_key_input (inputs (vc_transaction cx))
     \<and> distinct (map keyImage (inputs (vc_transaction cx)))
     \<and> set (map keyImage (inputs (vc_transaction cx))) \<inter> v_spentKeyImages v = {}
     \<and> total (map input_amount (inputs (vc_transaction cx))) < 2 ^ 64
     \<and> w = v\<lparr> v_sumOfInputs := sum_list (map input_amount (inputs (vc_transaction cx))),
             v_spentKeyImages := v_spentKeyImages v \<union> set (map keyImage (inputs (vc_transaction cx))) \<rparr>"
proof -
  have "inputs (vc_transaction cx) \<noteq> []" "inputs_loop (vc_crypto cx) {} 0 (inputs (vc_transaction cx)) v = (True, w)"
    using assms by (auto simp: validateTransactionInputs_def reject_def split: if_splits)
  with inputs_loop_True [OF this(2)] show ?thesis by simp
qed

lemma pass_outputs:
  assumes "validateTransactionOutputs cx v = Returns (True, w)"
  shows "(\<forall>out \<in> set (outputs (vc_transaction cx)). out_amount out \<noteq> 0)
     \<and> total (map out_amount (outputs (vc_transaction cx))) < 2 ^ 64
     \<and> w = v\<lparr> v_sumOfOutputs := sum_list (map out_amount (outputs (vc_transaction cx))) \<rparr>"
  using outputs_loop_True [of "vc_crypto cx" 0 "outputs (vc_transaction cx)" v w] assms
  by (simp add: validateTransactionOutputs_def)

lemma pass_fee:
  assumes "validateTransactionFee cx v = Returns (True, w)"
  shows "v_sumOfOutputs v \<le> v_sumOfInputs v
     \<and> w = v\<lparr> v_result := (v_result v)\<lparr> r_fee := v_sumOfInputs v - v_sumOfOutputs v \<rparr> \<rparr>
     \<and> (\<exists>isFusion. Currency_isFusionTransaction (vc_currency cx) (vc_transaction cx) (ucast (vc_blockHeight cx)) = Some isFusion
          \<and> valid_fee (vc_blockHeight cx) isFusion (v_sumOfInputs v - v_sumOfOutputs v))"
  using assms
  by (auto simp: validateTransactionFee_def bindO_Returns Let_def reject_def isFusionTransaction_size_def
      Currency_isFusionTransaction_def not_less split: if_splits option.splits)

text \<open>The check of one input against the chain, as it should hold for every accepted transaction.\<close>

definition ring_checked :: "validation_context \<Rightarrow> nat \<Rightarrow> bool" where
  "ring_checked cx i \<longleftrightarrow>
     (case inputs (vc_transaction cx) ! i of BaseInput _ \<Rightarrow> False
      | KeyInput amt idx kimg \<Rightarrow>
          checkIfSpent (vc_chain cx) kimg (ucast (vc_blockHeight cx)) = Returns False
          \<and> (\<exists>keys. extractKeyOutputKeys (vc_chain cx) amt (ucast (vc_blockHeight cx)) (relativeOutputOffsetsToAbsolute idx)
                = Returns (SUCCESS, keys)
              \<and> cf_checkRingSignature (vc_crypto cx)
                   (getTransactionPrefixHash (cf_cn_fast_hash (vc_crypto cx)) (vc_transaction cx))
                   kimg keys (signatures (vc_transaction cx) ! i)))"

lemma pass_expensive:
  assumes "validateTransactionInputsExpensive sched cx v = Returns (True, w)"
    and "\<not> isInCheckpointZone (vc_checkpoints cx) (ucast (vc_blockHeight cx + 1))"
    and "i < length (inputs (vc_transaction cx))"
  shows "ring_checked cx i"
proof -
  define h where "h = getTransactionPrefixHash (cf_cn_fast_hash (vc_crypto cx)) (vc_transaction cx)"
  have "check_inputs cx h 0 (inputs (vc_transaction cx)) = Returns []"
    using assms(1,2)
    by (auto simp: validateTransactionInputsExpensive_def bindO_Returns Let_def h_def reject_def split: if_splits)
  from check_inputs_Nil [OF this assms(3)]
  have "check_input cx h i (inputs (vc_transaction cx) ! i) = Returns None" by simp
  then show ?thesis by (rule check_input_None) (auto simp: ring_checked_def h_def)
qed

text \<open>The rules an accepted transaction passed, one after the other.\<close>

inductive passes :: "(validator \<Rightarrow> (bool \<times> validator) outcome) list \<Rightarrow> validator \<Rightarrow> validator \<Rightarrow> bool" where
  passes_Nil: "passes [] v v"
| passes_Cons: "rule v = Returns (True, w) \<Longrightarrow> passes rules w u \<Longrightarrow> passes (rule # rules) v u"

inductive_simps passes_simps: "passes [] v u" "passes (rule # rules) v u"

lemma required_rules_passed:
  assumes "foldr require rules accept v = Returns v'" and "\<forall>rule \<in> set rules. keeps_verdict rule"
    and "\<not> r_valid (v_result v)" and "r_valid (v_result v')"
  shows "\<exists>w. passes rules v w \<and> accept w = Returns v'"
  using assms
proof (induction rules arbitrary: v)
  case (Cons rule rules)
  have req: "require rule (foldr require rules accept) v = Returns v'" using Cons.prems(1) by simp
  have keep: "keeps_verdict rule" using Cons.prems(2) by simp
  from require_valid [OF req keep Cons.prems(3,4)] obtain w where
    w: "rule v = Returns (True, w)" "foldr require rules accept w = Returns v'" "\<not> r_valid (v_result w)" .
  with Cons.IH [OF w(2) _ w(3) Cons.prems(4)] Cons.prems(2) show ?case by (auto intro: passes_Cons)
qed (auto intro: passes_Nil)

lemma validate_passed:
  assumes "validate sched cx (new_validator spent) = Returns v" and "r_valid (v_result v)"
  obtains v1 v2 v3 where
    "validateTransactionInputs cx (new_validator spent) = Returns (True, v1)"
    "validateTransactionOutputs cx v1 = Returns (True, v2)"
    "validateTransactionFee cx v2 = Returns (True, v3)"
    "validateTransactionInputsExpensive sched cx v3 = Returns (True, v3)"
    "accept v3 = Returns v"
proof -
  let ?rules = "[validateTransactionSize cx, validateTransactionInputs cx, validateTransactionOutputs cx,
    validateTransactionFee cx, validateTransactionExtra cx, validateTransactionMixin cx, validateTransactionPoW cx,
    validateTransactionInputsExpensive sched cx]"
  have "foldr require ?rules accept (new_validator spent) = Returns v" using assms(1) by (simp add: validate_def)
  moreover have "\<forall>rule \<in> set ?rules. keeps_verdict rule"
    by (simp add: keeps_size keeps_inputs keeps_outputs keeps_fee keeps_extra keeps_mixin keeps_pow keeps_expensive)
  moreover have "\<not> r_valid (v_result (new_validator spent))" by (simp add: new_validator_def)
  ultimately obtain w where "passes ?rules (new_validator spent) w" "accept w = Returns v"
    using required_rules_passed assms(2) by blast
  then show thesis using that pass_unchanged by (auto simp: passes_simps) metis
qed


text \<open>A chain on which nothing is spent and every signature verifies, and a transaction that pays a fee of 10.\<close>

definition sample_context :: "TransactionInput list \<Rightarrow> TransactionOutput list \<Rightarrow> validation_context" where
  "sample_context ins outs = \<lparr>
     vc_crypto = \<lparr> cf_scalarmultKey = (\<lambda>_ _. key_image_I), cf_check_key = (\<lambda>_. True), cf_cn_fast_hash = (\<lambda>_. replicate 32 0),
       cf_cn_turtle_lite_slow_hash_v2 = (\<lambda>_. replicate 32 0), cf_checkRingSignature = (\<lambda>_ _ _ _. True) \<rparr>,
     vc_transaction = \<lparr> version = 1, unlockTime = 0, inputs = ins, outputs = outs, extra = [],
       signatures = map (\<lambda>_. [replicate 64 5]) ins \<rparr>,
     vc_currency = CurrencyBuilder, vc_checkpoints = [],
     vc_chain = \<lparr> checkIfSpent = (\<lambda>_ _. Returns False),
       extractKeyOutputKeys = (\<lambda>_ _ idx. Returns (SUCCESS, map (\<lambda>_. replicate 32 9) idx)) \<rparr>,
     vc_blockHeight = 100, vc_blockSizeMedian = 100000, vc_isPoolTransaction = False \<rparr>"

definition paying_context :: validation_context where
  "paying_context = sample_context [KeyInput 70 [1] (replicate 32 1), KeyInput 35 [2] (replicate 32 2)]
     [\<lparr> out_amount = 95, target = KeyOutput (replicate 32 3) \<rparr>]"


text \<open>
  Inputs that add up to zero are not rejected: the fee rule takes them for a missing call and throws.
\<close>

lemma zero_inputs_throw:
  "validate hd (sample_context [KeyInput 0 [1] (replicate 32 1)] []) (new_validator {}) = Throws (RuntimeError call_order_message)"
proof -
  have "(case validate hd (sample_context [KeyInput 0 [1] (replicate 32 1)] []) (new_validator {}) of Throws e \<Rightarrow> e = RuntimeError call_order_message | _ \<Rightarrow> False)"
    by code_simp
  then show ?thesis by (auto split: outcome.splits)
qed

end
