(* ===== verification/ProofOfWork.thy ===== *)
theory ProofOfWork
  imports Currency
begin

text \<open>
  The genesis block and the proof-of-work test with merge mining, the last part of
  \<open>src/cryptonotecore/Currency.cpp\<close>.
\<close>

section \<open>Genesis block, difficulty and proof of work\<close>

definition empty_ParentBlock :: ParentBlock where
  "empty_ParentBlock = \<lparr> pb_majorVersion = 0, pb_minorVersion = 0, pb_previousBlockHash = NULL_HASH,
     transactionCount = 0, baseTransactionBranch = [],
     pb_baseTransaction = \<lparr> version = 0, unlockTime = 0, inputs = [], outputs = [], extra = [] \<rparr>,
     blockchainBranch = [] \<rparr>"

text \<open>\<open>None\<close> when the hard-coded transaction does not parse.\<close>

definition generateGenesisBlock :: "BlockTemplate option" where
  "generateGenesisBlock =
     (case fromHex_append GENESIS_COINBASE_TX_HEX [] of
        (False, _) \<Rightarrow> None
      | (True, minerTxBlob) \<Rightarrow>
          (case fromBinaryArray deserialize_Transaction minerTxBlob of
             Inl _ \<Rightarrow> None
           | Inr tx \<Rightarrow> Some \<lparr>
               majorVersion = BLOCK_MAJOR_VERSION_1, minorVersion = BLOCK_MINOR_VERSION_0, nonce = 70, timestamp = 0,
               previousBlockHash = NULL_HASH, parentBlock = empty_ParentBlock, baseTransaction = tx,
               transactionHashes = [] \<rparr>))"

definition Currency_init :: "(bytes \<Rightarrow> hash) \<Rightarrow> hash option" where
  "Currency_init H =
     (case generateGenesisBlock of None \<Rightarrow> None
      | Some b \<Rightarrow> (case getBlockHash H b of Inl _ \<Rightarrow> None | Inr h \<Rightarrow> Some h))"

definition getNextDifficulty :: "u8 \<Rightarrow> u32 \<Rightarrow> u64 list \<Rightarrow> u64 list \<Rightarrow> u64 option" where
  "getNextDifficulty majorVer index timestamps cumulativeDifficulties =
     nextDifficulty timestamps cumulativeDifficulties (ucast index)"

text \<open>
  \<open>slow_hash\<close> gives the hash function of a block version. The path of \<open>tree_hash_from_branch\<close> is
  the hash of the genesis block.
\<close>

definition checkProofOfWorkV1 ::
  "(bytes \<Rightarrow> hash) \<Rightarrow> (u8 \<Rightarrow> (bytes \<Rightarrow> hash) option) \<Rightarrow> BlockTemplate \<Rightarrow> u64 \<Rightarrow> exc + bool" where
  "checkProofOfWorkV1 H slow_hash b currentDifficulty =
     (if BLOCK_MAJOR_VERSION_1 \<noteq> majorVersion b then Inr False
      else case getBlockLongHash H slow_hash b of Inl e \<Rightarrow> Inl e | Inr h \<Rightarrow> Inr (check_hash h currentDifficulty))"

definition checkProofOfWorkV2 ::
  "(bytes \<Rightarrow> hash) \<Rightarrow> (u8 \<Rightarrow> (bytes \<Rightarrow> hash) option) \<Rightarrow> hash \<Rightarrow> BlockTemplate \<Rightarrow> u64 \<Rightarrow> exc + bool" where
  "checkProofOfWorkV2 H slow_hash genesisHash b currentDifficulty =
     (if majorVersion b < BLOCK_MAJOR_VERSION_2 then Inr False
      else case getBlockLongHash H slow_hash b of Inl e \<Rightarrow> Inl e
      | Inr h \<Rightarrow>
          if \<not> check_hash h currentDifficulty then Inr False
          else case getMergeMiningTagFromExtra (extra (pb_baseTransaction (parentBlock b))) of None \<Rightarrow> Inr False
          | Some mmTag \<Rightarrow>
              if 8 * 32 < length (blockchainBranch (parentBlock b)) then Inr False
              else case getAuxiliaryBlockHeaderHash H b of Inl e \<Rightarrow> Inl e
              | Inr leaf \<Rightarrow>
                  let auxBlocksMerkleRoot =
                        tree_hash_from_branch H (blockchainBranch (parentBlock b))
                          (length (blockchainBranch (parentBlock b))) leaf (Some genesisHash)
                  in if auxBlocksMerkleRoot \<noteq> merkleRoot mmTag then Inr False else Inr True)"

definition checkProofOfWork ::
  "(bytes \<Rightarrow> hash) \<Rightarrow> (u8 \<Rightarrow> (bytes \<Rightarrow> hash) option) \<Rightarrow> hash \<Rightarrow> BlockTemplate \<Rightarrow> u64 \<Rightarrow> exc + bool" where
  "checkProofOfWork H slow_hash genesisHash b currentDiffic =
     (if majorVersion b = BLOCK_MAJOR_VERSION_1 then checkProofOfWorkV1 H slow_hash b currentDiffic
      else checkProofOfWorkV2 H slow_hash genesisHash b currentDiffic)"


section \<open>The genesis block\<close>

text \<open>The coinbase transaction of the genesis block as it parses.\<close>

lemma genesis_block_parses:
  "\<exists>b. generateGenesisBlock = Some b \<and> inputs (baseTransaction b) = [BaseInput 0]
     \<and> map out_amount (outputs (baseTransaction b)) = [2980232] \<and> unlockTime (baseTransaction b) = 10"
proof -
  have "map_option (\<lambda>b. (inputs (baseTransaction b), map out_amount (outputs (baseTransaction b)),
      unlockTime (baseTransaction b))) generateGenesisBlock = Some ([BaseInput 0], [2980232], 10)"
    by code_simp
  then show ?thesis by auto
qed


section \<open>Merge mining\<close>

text \<open>The byte strings that \<open>tree_hash_from_branch\<close> hashes on its way from a buffer to the root.\<close>

fun climb_inputs :: "(bytes \<Rightarrow> hash) \<Rightarrow> hash list \<Rightarrow> nat \<Rightarrow> bytes option \<Rightarrow> hash \<times> hash \<Rightarrow> bytes list" where
  "climb_inputs H branch 0 path buffer = [fst buffer @ snd buffer]"
| "climb_inputs H branch (Suc k) path buffer =
     (fst buffer @ snd buffer) #
     climb_inputs H branch k path
       (if path_bit path k then (branch ! k, H (fst buffer @ snd buffer))
        else (H (fst buffer @ snd buffer), branch ! k))"

definition branch_inputs :: "(bytes \<Rightarrow> hash) \<Rightarrow> hash list \<Rightarrow> hash \<Rightarrow> bytes option \<Rightarrow> bytes list" where
  "branch_inputs H branch leaf path =
     (case length branch of 0 \<Rightarrow> []
      | Suc k \<Rightarrow> climb_inputs H branch k path
          (if path_bit path k then (branch ! k, leaf) else (leaf, branch ! k)))"

lemma climb_injective:
  assumes H: "\<And>bs. length (H bs) = 32"
    and "inj_on H (set (climb_inputs H branch k path buf) \<union> set (climb_inputs H branch k path buf'))"
    and "(let r = from_branch_loop H branch k leaf path False buf in H (fst r @ snd r))
       = (let r = from_branch_loop H branch k leaf' path False buf' in H (fst r @ snd r))"
  shows "fst buf @ snd buf = fst buf' @ snd buf'"
  using assms(2,3)
proof (induction k arbitrary: buf buf')
  case 0
  then show ?case by (auto dest: inj_onD)
next
  case (Suc k)
  define x where "x = fst buf @ snd buf"
  define y where "y = fst buf' @ snd buf'"
  let ?b = "\<lambda>h. if path_bit path k then (branch ! k, h) else (h, branch ! k)"
  have sub: "inj_on H (set (climb_inputs H branch k path (?b (H x))) \<union> set (climb_inputs H branch k path (?b (H y))))"
    using Suc.prems(1) by (rule inj_on_subset) (auto simp: x_def y_def)
  have "fst (?b (H x)) @ snd (?b (H x)) = fst (?b (H y)) @ snd (?b (H y))"
    by (rule Suc.IH [OF sub]) (use Suc.prems(2) in \<open>simp add: x_def y_def Let_def split: if_split_asm\<close>)
  then have "H x = H y" using H by (auto split: if_splits)
  moreover have "x \<in> set (climb_inputs H branch (Suc k) path buf)" "y \<in> set (climb_inputs H branch (Suc k) path buf')"
    by (simp_all add: x_def y_def)
  ultimately show ?case using Suc.prems(1) unfolding x_def [symmetric] y_def [symmetric] by (blast dest: inj_onD)
qed

text \<open>A Merkle branch leads to one root from one leaf only, unless the hash function collides on the way.\<close>

lemma branch_root_determines_leaf:
  assumes H: "\<And>bs. length (H bs) = 32" and "length leaf = length leaf'"
    and inj: "inj_on H (set (branch_inputs H branch leaf path) \<union> set (branch_inputs H branch leaf' path))"
    and eq: "tree_hash_from_branch H branch (length branch) leaf path = tree_hash_from_branch H branch (length branch) leaf' path"
  shows "leaf = leaf'"
proof (cases "length branch")
  case 0
  then show ?thesis using eq by (simp add: tree_hash_from_branch_def)
next
  case (Suc k)
  let ?b = "\<lambda>h. if path_bit path k then (branch ! k, h) else (h, branch ! k)"
  have "fst (?b leaf) @ snd (?b leaf) = fst (?b leaf') @ snd (?b leaf')"
    by (rule climb_injective [of H branch k path "?b leaf" "?b leaf'" leaf leaf', OF H])
       (use inj eq Suc in \<open>simp_all add: branch_inputs_def tree_hash_from_branch_def Let_def split: if_split_asm\<close>)
  then show ?thesis using assms(2) by (auto split: if_splits)
qed

text \<open>The bytes of an array as they are hashed: with its size in front.\<close>

definition sized_array :: "bytes \<Rightarrow> bytes" where
  "sized_array ba = writeVarint (word_of_nat (length ba)) @ ba"

lemma getObjectHash_sized: "getObjectHash_bytes H ba = H (sized_array ba)"
  by (simp add: getObjectHash_bytes_def getObjectHash_def toBinaryArray_def serialize_string_def sized_array_def)

lemma sized_array_inject:
  assumes "length x < 2 ^ 64" and "length y < 2 ^ 64" and "sized_array x = sized_array y"
  shows "x = y"
proof -
  have read: "deserialize_string False (sized_array z) = Inr (z, [])" if "length z < 2 ^ 64" for z
  proof -
    have "\<forall>rest. deserialize_string False (sized_array z @ rest) = Inr (z, rest)"
      using byte_string.enc_dec [OF that] by (simp add: serialize_string_def sized_array_def)
    then show ?thesis by (metis append_Nil2)
  qed
  have "deserialize_string False (sized_array x) = Inr (y, [])" unfolding assms(3) by (rule read [OF assms(2)])
  then show ?thesis unfolding read [OF assms(1)] by blast
qed

lemma checkProofOfWorkV2_True:
  assumes "checkProofOfWorkV2 H slow_hash genesisHash b difficulty = Inr True"
  obtains h ba mmTag where "getBlockLongHash H slow_hash b = Inr h" "check_hash h difficulty"
    "getMergeMiningTagFromExtra (extra (pb_baseTransaction (parentBlock b))) = Some mmTag"
    "getBlockHashingBinaryArray H b = Inr ba"
    "tree_hash_from_branch H (blockchainBranch (parentBlock b)) (length (blockchainBranch (parentBlock b))) (H (sized_array ba))
       (Some genesisHash) = merkleRoot mmTag"
  using assms that
  by (auto simp: checkProofOfWorkV2_def getAuxiliaryBlockHeaderHash_def getObjectHash_sized Let_def
      split: if_splits sum.splits option.splits)

text \<open>
  C12: a proof of work is good for one block only. If two merge-mined blocks with the same parent block both pass
  \<open>checkProofOfWork\<close>, then their hashing arrays, the bytes the block hash is taken of, are equal, unless the
  hash function collides on two of the byte strings the two checks hash.
\<close>

theorem merge_mining_binds:
  assumes "checkProofOfWork H slow_hash genesisHash b difficulty = Inr True"
    and "checkProofOfWork H slow_hash genesisHash c difficulty' = Inr True"
    and "majorVersion b \<noteq> BLOCK_MAJOR_VERSION_1" and "majorVersion c \<noteq> BLOCK_MAJOR_VERSION_1"
    and "parentBlock b = parentBlock c" and "\<forall>bs. length (H bs) = 32"
    and "getBlockHashingBinaryArray H b = Inr x" and "getBlockHashingBinaryArray H c = Inr y"
    and "length x < 2 ^ 64" and "length y < 2 ^ 64"
    and "inj_on H ({sized_array x, sized_array y}
       \<union> set (branch_inputs H (blockchainBranch (parentBlock b)) (H (sized_array x)) (Some genesisHash))
       \<union> set (branch_inputs H (blockchainBranch (parentBlock c)) (H (sized_array y)) (Some genesisHash)))"
  shows "x = y"
proof -
  let ?br = "blockchainBranch (parentBlock c)"
  from assms(1,3) have "checkProofOfWorkV2 H slow_hash genesisHash b difficulty = Inr True"
    by (simp add: checkProofOfWork_def)
  then have rootb: "map_option merkleRoot (getMergeMiningTagFromExtra (extra (pb_baseTransaction (parentBlock b))))
      = Some (tree_hash_from_branch H (blockchainBranch (parentBlock b)) (length (blockchainBranch (parentBlock b))) (H (sized_array x)) (Some genesisHash))"
    by (rule checkProofOfWorkV2_True) (use assms(7) in simp)
  from assms(2,4) have "checkProofOfWorkV2 H slow_hash genesisHash c difficulty' = Inr True"
    by (simp add: checkProofOfWork_def)
  then have "map_option merkleRoot (getMergeMiningTagFromExtra (extra (pb_baseTransaction (parentBlock c))))
      = Some (tree_hash_from_branch H ?br (length ?br) (H (sized_array y)) (Some genesisHash))"
    by (rule checkProofOfWorkV2_True) (use assms(8) in simp)
  with rootb have root: "tree_hash_from_branch H ?br (length ?br) (H (sized_array x)) (Some genesisHash)
      = tree_hash_from_branch H ?br (length ?br) (H (sized_array y)) (Some genesisHash)"
    unfolding assms(5) by simp
  have inj: "inj_on H (set (branch_inputs H ?br (H (sized_array x)) (Some genesisHash))
      \<union> set (branch_inputs H ?br (H (sized_array y)) (Some genesisHash)))"
    using assms(11) unfolding assms(5) by (rule inj_on_subset) blast
  have H: "\<And>bs. length (H bs) = 32" using assms(6) by blast
  have "H (sized_array x) = H (sized_array y)"
    by (rule branch_root_determines_leaf [OF H _ inj root]) (simp only: H)
  then have "sized_array x = sized_array y" using assms(11) by (blast dest: inj_onD)
  then show ?thesis by (rule sized_array_inject [OF assms(9,10)])
qed

text \<open>A block whose parent carries its merge-mining tag, with a hash function that takes the first 32 bytes.\<close>

definition merge_mined :: BlockTemplate where
  "merge_mined = sample_block\<lparr> parentBlock := (parentBlock sample_block)\<lparr>
     pb_baseTransaction := \<lparr> version = 1, unlockTime = 0, inputs = [], outputs = [],
       extra = [3, 33, 0] @ [67, 2, 0] @ replicate 29 1 \<rparr>,
     blockchainBranch := [] \<rparr> \<rparr>"

definition prefix_hash :: "bytes \<Rightarrow> hash" where
  "prefix_hash bs = take 32 (bs @ replicate 32 0)"

theorem merge_mining_binds_witness:
  "\<exists>x y. checkProofOfWork prefix_hash (\<lambda>_. Some (\<lambda>_. replicate 32 0)) (replicate 32 7) merge_mined 5 = Inr True
     \<and> checkProofOfWork prefix_hash (\<lambda>_. Some (\<lambda>_. replicate 32 0)) (replicate 32 7) (merge_mined\<lparr>nonce := 8\<rparr>) 5 = Inr True
     \<and> getBlockHashingBinaryArray prefix_hash merge_mined = Inr x
     \<and> getBlockHashingBinaryArray prefix_hash (merge_mined\<lparr>nonce := 8\<rparr>) = Inr y \<and> x = y"
proof -
  have pow: "checkProofOfWork prefix_hash (\<lambda>_. Some (\<lambda>_. replicate 32 0)) (replicate 32 7) merge_mined 5 = Inr True"
    "checkProofOfWork prefix_hash (\<lambda>_. Some (\<lambda>_. replicate 32 0)) (replicate 32 7) (merge_mined\<lparr>nonce := 8\<rparr>) 5 = Inr True"
    by code_simp+
  have v: "majorVersion merge_mined \<noteq> BLOCK_MAJOR_VERSION_1" "majorVersion (merge_mined\<lparr>nonce := 8\<rparr>) \<noteq> BLOCK_MAJOR_VERSION_1"
    "parentBlock merge_mined = parentBlock (merge_mined\<lparr>nonce := 8\<rparr>)" "blockchainBranch (parentBlock merge_mined) = []"
    by (simp_all add: merge_mined_def sample_block_def config)
  obtain x where x: "getBlockHashingBinaryArray prefix_hash merge_mined = Inr x"
    "getBlockHashingBinaryArray prefix_hash (merge_mined\<lparr>nonce := 8\<rparr>) = Inr x" "length x = 67"
  proof -
    have "(case getBlockHashingBinaryArray prefix_hash merge_mined of Inl _ \<Rightarrow> False | Inr x \<Rightarrow> length x = 67)"
      "getBlockHashingBinaryArray prefix_hash merge_mined = getBlockHashingBinaryArray prefix_hash (merge_mined\<lparr>nonce := 8\<rparr>)"
      by code_simp+
    then show thesis using that by (auto split: sum.splits)
  qed
  then have len: "length x < 2 ^ 64" by simp
  have "inj_on prefix_hash ({sized_array x, sized_array x}
       \<union> set (branch_inputs prefix_hash (blockchainBranch (parentBlock merge_mined)) (prefix_hash (sized_array x)) (Some (replicate 32 7)))
       \<union> set (branch_inputs prefix_hash (blockchainBranch (parentBlock (merge_mined\<lparr>nonce := 8\<rparr>))) (prefix_hash (sized_array x)) (Some (replicate 32 7))))"
    using v(4) by (simp add: branch_inputs_def)
  from merge_mining_binds [OF pow v(1-3) _ x(1,2) len len this] pow x show ?thesis by (simp add: prefix_hash_def)
qed

end
