(* ===== verification/ShuffleGenerator.thy ===== *)
theory ShuffleGenerator
  imports Prelude
begin

text \<open>
  The random order in which outputs are drawn (\<open>src/common/ShuffleGenerator.h\<close>): a Fisher-Yates shuffle whose
  array is never built, only the cells that differ from their own index are kept in a map. The random
  source \<open>Random::randomValue(0, m)\<close> is a parameter: \<open>rnd k m\<close> is its answer on the draw that leaves \<open>k\<close> values.
\<close>

record ShuffleGenerator =
  selected :: "(nat \<times> nat) list"
  sg_count :: nat
  sg_N :: nat

definition new_ShuffleGenerator :: "nat \<Rightarrow> ShuffleGenerator" where
  "new_ShuffleGenerator n = \<lparr> selected = [], sg_count = n, sg_N = n \<rparr>"

text \<open>One draw; \<open>None\<close> is the exception \<open>SequenceEnded\<close>.\<close>

definition shuffle_next :: "(nat \<Rightarrow> nat \<Rightarrow> nat) \<Rightarrow> ShuffleGenerator \<Rightarrow> (nat \<times> ShuffleGenerator) option" where
  "shuffle_next rnd g =
     (if sg_count g = 0 then None
      else let k = sg_count g - 1;
               v = rnd k k;
               rval = (case map_of (selected g) k of Some x \<Rightarrow> x | None \<Rightarrow> k)
           in Some (case map_of (selected g) v of
                      Some lval \<Rightarrow> (lval, g\<lparr> selected := AList.update v rval (selected g), sg_count := k \<rparr>)
                    | None \<Rightarrow> (v, g\<lparr> selected := AList.update v rval (selected g), sg_count := k \<rparr>)))"

definition shuffle_empty :: "ShuffleGenerator \<Rightarrow> bool" where
  "shuffle_empty g \<longleftrightarrow> sg_count g = 0"

definition shuffle_reset :: "ShuffleGenerator \<Rightarrow> ShuffleGenerator" where
  "shuffle_reset g = g\<lparr> sg_count := sg_N g, selected := [] \<rparr>"

text \<open>The values of \<open>n\<close> draws in a row, and the generator after them.\<close>

fun shuffle_draw :: "(nat \<Rightarrow> nat \<Rightarrow> nat) \<Rightarrow> nat \<Rightarrow> ShuffleGenerator \<Rightarrow> (nat list \<times> ShuffleGenerator) option" where
  "shuffle_draw rnd 0 g = Some ([], g)"
| "shuffle_draw rnd (Suc n) g =
     (case shuffle_next rnd g of None \<Rightarrow> None
      | Some (v, g') \<Rightarrow> map_option (\<lambda>(vs, h). (v # vs, h)) (shuffle_draw rnd n g'))"


section \<open>The array behind the map\<close>

definition cell :: "ShuffleGenerator \<Rightarrow> nat \<Rightarrow> nat" where
  "cell g i = (case map_of (selected g) i of Some x \<Rightarrow> x | None \<Rightarrow> i)"

lemma shuffle_next_cell:
  assumes "sg_count g = Suc k"
  obtains g' where "shuffle_next rnd g = Some (cell g (rnd k k), g')" and "sg_count g' = k" and "sg_N g' = sg_N g"
    and "cell g' = (cell g)(rnd k k := cell g k)"
proof (rule that [of "g\<lparr> selected := AList.update (rnd k k) (cell g k) (selected g), sg_count := k \<rparr>"])
  show "shuffle_next rnd g = Some (cell g (rnd k k), g\<lparr> selected := AList.update (rnd k k) (cell g k) (selected g), sg_count := k \<rparr>)"
    using assms by (simp add: shuffle_next_def cell_def Let_def split: option.split)
qed (auto simp: cell_def AList.update_conv')

lemma swap_out_image:
  assumes "inj_on f {..<Suc k}" and "r \<le> k"
  shows "inj_on (f(r := f k)) {..<k}" and "(f(r := f k)) ` {..<k} = f ` {..<Suc k} - {f r}"
proof -
  have eq: "f a = f b \<longleftrightarrow> a = b" if "a \<le> k" "b \<le> k" for a b
    using that inj_on_eq_iff [OF assms(1)] by simp
  show "inj_on (f(r := f k)) {..<k}" using assms(2) by (auto simp: inj_on_def eq)
  show "(f(r := f k)) ` {..<k} = f ` {..<Suc k} - {f r}"
  proof (intro equalityI subsetI)
    fix y assume "y \<in> (f(r := f k)) ` {..<k}"
    then show "y \<in> f ` {..<Suc k} - {f r}" using assms(2) by (auto simp: eq split: if_splits)
  next
    fix y assume "y \<in> f ` {..<Suc k} - {f r}"
    then obtain i where i: "i < Suc k" "y = f i" "i \<noteq> r" by auto
    show "y \<in> (f(r := f k)) ` {..<k}"
    proof (cases "i = k")
      case True
      then have "r < k" using i assms(2) by simp
      then show ?thesis using True i by (intro image_eqI [of _ _ r]) auto
    qed (use i in \<open>auto intro!: image_eqI [of _ _ i]\<close>)
  qed
qed

lemma shuffle_draw_cells:
  assumes "\<And>k m. rnd k m \<le> m" and "sg_count g = n" and "inj_on (cell g) {..<n}"
  shows "\<exists>vs h. shuffle_draw rnd n g = Some (vs, h) \<and> length vs = n \<and> distinct vs \<and> set vs = cell g ` {..<n}
           \<and> sg_count h = 0 \<and> sg_N h = sg_N g"
  using assms(2,3)
proof (induction n arbitrary: g)
  case (Suc k)
  obtain g' where g': "shuffle_next rnd g = Some (cell g (rnd k k), g')" "sg_count g' = k" "sg_N g' = sg_N g"
    "cell g' = (cell g)(rnd k k := cell g k)" by (rule shuffle_next_cell [OF Suc.prems(1)])
  note swap = swap_out_image [OF Suc.prems(2) assms(1) [of k k], folded g'(4)]
  from Suc.IH [OF g'(2) swap(1)] obtain vs h where "shuffle_draw rnd k g' = Some (vs, h)" "length vs = k" "distinct vs"
    "set vs = cell g' ` {..<k}" "sg_count h = 0" "sg_N h = sg_N g'" by blast
  moreover have "cell g (rnd k k) \<in> cell g ` {..<Suc k}" using assms(1) [of k k] by simp
  ultimately show ?case using g' swap(2) by auto
qed simp

lemma drawn_once:
  assumes "\<And>k m. rnd k m \<le> m"
  shows "\<exists>vs h. shuffle_draw rnd n (new_ShuffleGenerator n) = Some (vs, h) \<and> distinct vs \<and> set vs = {..<n} \<and> sg_count h = 0 \<and> sg_N h = n"
proof -
  have c: "cell (new_ShuffleGenerator n) = id" by (auto simp: cell_def new_ShuffleGenerator_def)
  have n: "sg_count (new_ShuffleGenerator n) = n" "sg_N (new_ShuffleGenerator n) = n" by (simp_all add: new_ShuffleGenerator_def)
  have "inj_on (cell (new_ShuffleGenerator n)) {..<n}" by (simp add: c)
  from shuffle_draw_cells [of rnd "new_ShuffleGenerator n" n, OF assms n(1) this] show ?thesis
    unfolding c n(2) image_id id_apply by blast
qed

text \<open>
  C40: the generator made for \<open>n\<close> draws every number below \<open>n\<close> exactly once, whatever the random source answers within
  its range, and throws on the next draw; a reset generator starts over.
\<close>

theorem shuffle_permutation:
  assumes "\<And>k m. rnd k m \<le> m"
  shows "\<exists>vs h. shuffle_draw rnd n (new_ShuffleGenerator n) = Some (vs, h) \<and> mset vs = mset [0..<n]
           \<and> shuffle_next rnd h = None \<and> shuffle_empty h \<and> shuffle_reset h = new_ShuffleGenerator n"
proof -
  obtain vs h where vs: "shuffle_draw rnd n (new_ShuffleGenerator n) = Some (vs, h)" "distinct vs" "set vs = {..<n}"
    and h: "sg_count h = 0" "sg_N h = n" using drawn_once [of rnd n, OF assms] by blast
  have "mset vs = mset [0..<n]" by (rule set_eq_iff_mset_eq_distinct [THEN iffD1]) (simp_all add: vs atLeast0LessThan)
  with vs h show ?thesis
    by (cases h) (simp add: shuffle_next_def shuffle_empty_def shuffle_reset_def new_ShuffleGenerator_def)
qed

theorem shuffle_permutation_witness:
  "\<exists>vs h. shuffle_draw (\<lambda>k m. m div 2) 5 (new_ShuffleGenerator 5) = Some (vs, h) \<and> mset vs = mset [0..<5]
     \<and> shuffle_next (\<lambda>k m. m div 2) h = None \<and> shuffle_empty h \<and> shuffle_reset h = new_ShuffleGenerator 5"
  by (rule shuffle_permutation [of "\<lambda>k m. m div 2" 5]) simp

end
