(* ===== verification/BlockchainCache.thy ===== *)
theory BlockchainCache
  imports ValidateTransaction ProofOfWork ShuffleGenerator
begin

text \<open>
  The segments the block chain is kept in (\<open>src/cryptonotecore/BlockchainCache.cpp\<close>), with the storage of raw
  blocks (\<open>MemoryBlockchainStorage.cpp\<close>) and the upgrade manager (\<open>UpgradeManager.cpp\<close>, \<open>UpgradeDetector.cpp\<close>).

  \<^item> A method of a segment may ask \<open>parent\<close>, the segment below it. The methods that do so take a list: the segment
    itself followed by its ancestors, so that \<open>parent == nullptr\<close> is an empty tail.
  \<^item> The multi-index containers are lists in the order of insertion; an insertion that violates a unique index is
    dropped, as the container does. The map from amounts to outputs is a partial function.
  \<^item> A failed assertion, a null dereference and an access out of range are \<open>Undefined\<close>; \<open>at\<close> and the storage throw.
  \<^item> Indices keep their width. Sizes (\<open>size_t\<close>) are natural numbers, a subtraction that would wrap is written out.
\<close>

section \<open>Data\<close>

record PackedOutIndex =
  poi_blockIndex :: u32
  poi_transactionIndex :: u16
  poi_outputIndex :: u16

record CachedBlockInfo =
  bi_blockHash :: hash
  bi_timestamp :: u64
  bi_cumulativeDifficulty :: u64
  bi_alreadyGeneratedCoins :: u64
  bi_alreadyGeneratedTransactions :: u64
  bi_blockSize :: u32

record SpentKeyImage =
  ski_blockIndex :: u32
  ski_keyImage :: key_image

record CachedTransactionInfo =
  ti_blockIndex :: u32
  ti_transactionIndex :: u32
  ti_transactionHash :: hash
  ti_unlockTime :: u64
  ti_outputs :: "TransactionOutputTarget list"
  ti_globalIndexes :: "u32 list"

record OutputGlobalIndexesForAmount =
  oi_startIndex :: u32
  oi_outputs :: "PackedOutIndex list"

record PaymentIdTransactionHashPair =
  pt_paymentId :: hash
  pt_transactionHash :: hash

text \<open>The member \<open>cachedBlock\<close> of the code is never set. The validator state is its set of key images, as a list.\<close>

record PushedBlockInfo =
  pi_rawBlock :: RawBlock
  pi_validatorState :: "key_image list"
  pi_blockSize :: u64
  pi_generatedCoins :: u64
  pi_blockDifficulty :: u64

record BlockchainCache =
  startIndex :: u32
  cachedTransactions :: "CachedTransactionInfo list"
  spentKeyImages :: "SpentKeyImage list"
  blockInfos :: "CachedBlockInfo list"
  keyOutputsGlobalIndexes :: "u64 \<rightharpoonup> OutputGlobalIndexesForAmount"
  paymentIds :: "PaymentIdTransactionHashPair list"
  storage :: "RawBlock list"

type_synonym chain = "BlockchainCache list"


section \<open>The storage of raw blocks\<close>

definition storage_pushBlock :: "RawBlock \<Rightarrow> RawBlock list \<Rightarrow> RawBlock list" where
  "storage_pushBlock rawBlock bs = bs @ [rawBlock]"

definition storage_getBlockCount :: "RawBlock list \<Rightarrow> u32" where
  "storage_getBlockCount bs = word_of_nat (length bs)"

definition storage_getBlockByIndex :: "RawBlock list \<Rightarrow> u32 \<Rightarrow> RawBlock outcome" where
  "storage_getBlockByIndex bs i =
     (if i \<ge> storage_getBlockCount bs then Throws OutOfRange else Returns (bs ! unat i))"

text \<open>The lower part stays, the upper part is the new storage.\<close>

definition splitStorage :: "RawBlock list \<Rightarrow> u32 \<Rightarrow> (RawBlock list \<times> RawBlock list) outcome" where
  "splitStorage bs splitIndex =
     (if \<not> 0 < splitIndex \<or> \<not> unat splitIndex < length bs then Undefined
      else Returns (take (unat splitIndex) bs, drop (unat splitIndex) bs))"


section \<open>The upgrade manager\<close>

type_synonym UpgradeManager = "(u8 \<times> u32) list"

definition addMajorBlockVersion :: "UpgradeManager \<Rightarrow> u8 \<Rightarrow> u32 \<Rightarrow> UpgradeManager option" where
  "addMajorBlockVersion m targetVersion upgradeIndex =
     (if m = [] \<or> fst (last m) < targetVersion then Some (m @ [(targetVersion, upgradeIndex)]) else None)"

definition getBlockMajorVersion :: "UpgradeManager \<Rightarrow> u32 \<Rightarrow> u8" where
  "getBlockMajorVersion m height =
     (case List.find (\<lambda>(v, i). i < height) (rev m) of Some (v, _) \<Rightarrow> v | None \<Rightarrow> BLOCK_MAJOR_VERSION_1)"

fun add_versions :: "Currency \<Rightarrow> UpgradeManager \<Rightarrow> u8 list \<Rightarrow> UpgradeManager option" where
  "add_versions cur m [] = Some m"
| "add_versions cur m (v # vs) =
     (case addMajorBlockVersion m v (upgradeHeight cur v) of None \<Rightarrow> None | Some m' \<Rightarrow> add_versions cur m' vs)"

definition getBlockMajorVersionForHeight :: "Currency \<Rightarrow> u32 \<Rightarrow> u8 outcome" where
  "getBlockMajorVersionForHeight cur height =
     (case add_versions cur [] [BLOCK_MAJOR_VERSION_2, BLOCK_MAJOR_VERSION_3, BLOCK_MAJOR_VERSION_4,
                                BLOCK_MAJOR_VERSION_5, BLOCK_MAJOR_VERSION_6, BLOCK_MAJOR_VERSION_7] of
        None \<Rightarrow> Undefined | Some m \<Rightarrow> Returns (getBlockMajorVersion m height))"


section \<open>Blocks of a chain\<close>

definition getBlockCount :: "BlockchainCache \<Rightarrow> u32" where
  "getBlockCount c = word_of_nat (length (blockInfos c))"

definition getTopBlockIndex :: "BlockchainCache \<Rightarrow> u32 outcome" where
  "getTopBlockIndex c =
     (if blockInfos c = [] then Undefined else Returns (startIndex c + storage_getBlockCount (storage c) - 1))"

definition getTopBlockHash :: "BlockchainCache \<Rightarrow> hash outcome" where
  "getTopBlockHash c = (if blockInfos c = [] then Undefined else Returns (bi_blockHash (last (blockInfos c))))"

definition hasBlock :: "BlockchainCache \<Rightarrow> hash \<Rightarrow> bool" where
  "hasBlock c h \<longleftrightarrow> (\<exists>b \<in> set (blockInfos c). bi_blockHash b = h)"

definition getBlockIndex_of :: "BlockchainCache \<Rightarrow> hash \<Rightarrow> u32 outcome" where
  "getBlockIndex_of c h =
     (if \<not> hasBlock c h then Throws (RuntimeError ''no such block'')
      else Returns (word_of_nat (length (takeWhile (\<lambda>b. bi_blockHash b \<noteq> h) (blockInfos c))) + startIndex c))"

text \<open>\<open>blockInfos.get<BlockIndexTag>().at(i)\<close>\<close>

definition block_at :: "BlockchainCache \<Rightarrow> u32 \<Rightarrow> CachedBlockInfo outcome" where
  "block_at c i = (if unat i < length (blockInfos c) then Returns (blockInfos c ! unat i) else Throws OutOfRange)"

fun getBlockHash_at :: "u32 \<Rightarrow> chain \<Rightarrow> hash outcome" where
  "getBlockHash_at i [] = Undefined"
| "getBlockHash_at i (c # ps) =
     (if i < startIndex c then getBlockHash_at i ps
      else if \<not> unat (i - startIndex c) < length (blockInfos c) then Undefined
      else bindO (block_at c (i - startIndex c)) (\<lambda>b. Returns (bi_blockHash b)))"

text \<open>Asking for more blocks than the segment has reads past its end when \<open>blockInfos.size() - start\<close> wraps.\<close>

fun getBlockHashes :: "u32 \<Rightarrow> nat \<Rightarrow> chain \<Rightarrow> hash list outcome" where
  "getBlockHashes startBlockIndex maxCount [] = Undefined"
| "getBlockHashes startBlockIndex maxCount (c # ps) =
     (if startBlockIndex < startIndex c
      then bindO (getBlockHashes startBlockIndex maxCount ps) (\<lambda>hs.
             Returns (hs @ map bi_blockHash (take (maxCount - length hs) (blockInfos c))))
      else let start = unat (startBlockIndex - startIndex c)
           in if length (blockInfos c) < start \<and> maxCount \<noteq> 0 then Undefined
              else Returns (map bi_blockHash (take maxCount (drop start (blockInfos c)))))"

definition getCurrentCumulativeDifficulty :: "BlockchainCache \<Rightarrow> u64 outcome" where
  "getCurrentCumulativeDifficulty c =
     (if blockInfos c = [] then Undefined else Returns (bi_cumulativeDifficulty (last (blockInfos c))))"

definition getCurrentCumulativeDifficulty_at :: "BlockchainCache \<Rightarrow> u32 \<Rightarrow> u64 outcome" where
  "getCurrentCumulativeDifficulty_at c i =
     bindO (getTopBlockIndex c) (\<lambda>top.
       if \<not> i \<le> top then Undefined
       else bindO (block_at c (i - startIndex c)) (\<lambda>b. Returns (bi_cumulativeDifficulty b)))"

fun getAlreadyGeneratedCoins :: "u32 \<Rightarrow> chain \<Rightarrow> u64 outcome" where
  "getAlreadyGeneratedCoins i [] = Undefined"
| "getAlreadyGeneratedCoins i (c # ps) =
     (if i < startIndex c then getAlreadyGeneratedCoins i ps
      else bindO (block_at c (i - startIndex c)) (\<lambda>b. Returns (bi_alreadyGeneratedCoins b)))"

fun getAlreadyGeneratedTransactions :: "u32 \<Rightarrow> chain \<Rightarrow> u64 outcome" where
  "getAlreadyGeneratedTransactions i [] = Undefined"
| "getAlreadyGeneratedTransactions i (c # ps) =
     (if i < startIndex c then getAlreadyGeneratedTransactions i ps
      else bindO (block_at c (i - startIndex c)) (\<lambda>b. Returns (bi_alreadyGeneratedTransactions b)))"

text \<open>
  The last \<open>cnt\<close> values up to a block. The genesis block is left out unless it is asked for.
\<close>

fun getLastUnits :: "nat \<Rightarrow> u32 \<Rightarrow> bool \<Rightarrow> (CachedBlockInfo \<Rightarrow> u64) \<Rightarrow> chain \<Rightarrow> u64 list outcome" where
  "getLastUnits cnt i useGenesis pred [] = Undefined"
| "getLastUnits cnt i useGenesis pred (c # ps) =
     bindO (getTopBlockIndex c) (\<lambda>top.
       if \<not> i \<le> top then Undefined
       else let to' = (if i < startIndex c then 0 else unat (i - startIndex c + 1));
                realCount = min cnt to';
                from' = to' - realCount;
                skip = (\<not> useGenesis \<and> from' = 0 \<and> realCount \<noteq> 0 \<and> ps = []);
                first = (if skip then from' + 1 else from');
                rc = (if skip then realCount - 1 else realCount)
            in bindO (if rc < cnt \<and> ps \<noteq> []
                      then bindO (getTopBlockIndex (hd ps)) (\<lambda>ptop.
                             getLastUnits (cnt - rc) (min i ptop) useGenesis pred ps)
                      else Returns []) (\<lambda>result.
                 if length (blockInfos c) < to' then Undefined
                 else Returns (result @ map pred (drop first (take to' (blockInfos c))))))"

definition getLastTimestamps_at :: "nat \<Rightarrow> u32 \<Rightarrow> bool \<Rightarrow> chain \<Rightarrow> u64 list outcome" where
  "getLastTimestamps_at cnt i useGenesis ch = getLastUnits cnt i useGenesis bi_timestamp ch"

definition getLastBlocksSizes_at :: "nat \<Rightarrow> u32 \<Rightarrow> bool \<Rightarrow> chain \<Rightarrow> u64 list outcome" where
  "getLastBlocksSizes_at cnt i useGenesis ch = getLastUnits cnt i useGenesis (\<lambda>b. ucast (bi_blockSize b)) ch"

definition getLastCumulativeDifficulties_at :: "nat \<Rightarrow> u32 \<Rightarrow> bool \<Rightarrow> chain \<Rightarrow> u64 list outcome" where
  "getLastCumulativeDifficulties_at cnt i useGenesis ch = getLastUnits cnt i useGenesis bi_cumulativeDifficulty ch"

definition top_of :: "chain \<Rightarrow> u32 outcome" where
  "top_of ch = (case ch of [] \<Rightarrow> Undefined | c # _ \<Rightarrow> getTopBlockIndex c)"

definition getLastTimestamps :: "nat \<Rightarrow> chain \<Rightarrow> u64 list outcome" where
  "getLastTimestamps cnt ch = bindO (top_of ch) (\<lambda>top. getLastTimestamps_at cnt top False ch)"

definition getLastBlocksSizes :: "nat \<Rightarrow> chain \<Rightarrow> u64 list outcome" where
  "getLastBlocksSizes cnt ch = bindO (top_of ch) (\<lambda>top. getLastBlocksSizes_at cnt top False ch)"

definition getLastCumulativeDifficulties :: "nat \<Rightarrow> chain \<Rightarrow> u64 list outcome" where
  "getLastCumulativeDifficulties cnt ch = bindO (top_of ch) (\<lambda>top. getLastCumulativeDifficulties_at cnt top False ch)"

definition DIFFICULTY_BLOCKS_COUNT :: nat where
  "DIFFICULTY_BLOCKS_COUNT = DIFFICULTY_WINDOW + 1"

definition getDifficultyForNextBlock_at :: "Currency \<Rightarrow> u32 \<Rightarrow> chain \<Rightarrow> u64 outcome" where
  "getDifficultyForNextBlock_at cur i ch =
     bindO (top_of ch) (\<lambda>top.
       if \<not> i \<le> top then Undefined
       else bindO (getBlockMajorVersionForHeight cur (i + 1)) (\<lambda>nextBlockMajorVersion.
            bindO (getLastTimestamps_at DIFFICULTY_BLOCKS_COUNT i False ch) (\<lambda>timestamps.
            bindO (getLastCumulativeDifficulties_at DIFFICULTY_BLOCKS_COUNT i False ch) (\<lambda>cds.
              case getNextDifficulty nextBlockMajorVersion i timestamps cds of
                None \<Rightarrow> Undefined | Some d \<Rightarrow> Returns d))))"

definition getDifficultyForNextBlock :: "Currency \<Rightarrow> chain \<Rightarrow> u64 outcome" where
  "getDifficultyForNextBlock cur ch = bindO (top_of ch) (\<lambda>top. getDifficultyForNextBlock_at cur top ch)"


section \<open>Looking up by time\<close>

fun getBlockHeightForTimestamp :: "u64 \<Rightarrow> chain \<Rightarrow> (bool \<times> u64) outcome" where
  "getBlockHeightForTimestamp ts [] = Undefined"
| "getBlockHeightForTimestamp ts (c # ps) =
     (if blockInfos c = [] then Undefined
      else if bi_timestamp (last (blockInfos c)) < ts then Returns (False, 0)
      else if bi_timestamp (hd (blockInfos c)) \<ge> ts
      then Returns (True, ucast (startIndex c) + word_of_nat (length (takeWhile (\<lambda>b. bi_timestamp b < ts) (blockInfos c))))
      else if ps = [] then Returns (False, 0)
      else getBlockHeightForTimestamp ts ps)"

definition INVALID_BLOCK_INDEX :: u32 where
  "INVALID_BLOCK_INDEX = -1"

fun getTimestampLowerBoundBlockIndex :: "u64 \<Rightarrow> chain \<Rightarrow> u32 outcome" where
  "getTimestampLowerBoundBlockIndex ts [] = Undefined"
| "getTimestampLowerBoundBlockIndex ts (c # ps) =
     (if blockInfos c = [] then Undefined
      else if bi_timestamp (last (blockInfos c)) < ts
      then Throws (RuntimeError ''no blocks for this timestamp, too large'')
      else if bi_timestamp (hd (blockInfos c)) < ts
      then Returns (startIndex c + word_of_nat (length (takeWhile (\<lambda>b. bi_timestamp b < ts) (blockInfos c))))
      else if ps = [] then Returns 0
      else case getTimestampLowerBoundBlockIndex ts ps of
             Undefined \<Rightarrow> Undefined
           | Throws (RuntimeError _) \<Rightarrow> Returns (startIndex c)
           | Throws e \<Rightarrow> Throws e
           | Returns i \<Rightarrow> Returns (if i \<noteq> INVALID_BLOCK_INDEX then i else startIndex c))"

text \<open>Within a segment the hashes come in the order of the time index.\<close>

fun getBlockHashesByTimestamps :: "u64 \<Rightarrow> u64 \<Rightarrow> chain \<Rightarrow> hash list" where
  "getBlockHashesByTimestamps timestampBegin secondsCount [] = []"
| "getBlockHashesByTimestamps timestampBegin secondsCount (c # ps) =
     (if secondsCount = 0 then []
      else getBlockHashesByTimestamps timestampBegin secondsCount ps
           @ map bi_blockHash (filter (\<lambda>b. timestampBegin \<le> bi_timestamp b
                                            \<and> bi_timestamp b \<le> timestampBegin + secondsCount - 1)
               (sort_key bi_timestamp (blockInfos c))))"


section \<open>Spent key images\<close>

text \<open>The index of key images is unique: a second insertion is dropped.\<close>

definition insert_spent :: "SpentKeyImage \<Rightarrow> SpentKeyImage list \<Rightarrow> SpentKeyImage list" where
  "insert_spent s xs = (if \<exists>x \<in> set xs. ski_keyImage x = ski_keyImage s then xs else xs @ [s])"

fun checkIfSpent_at :: "key_image \<Rightarrow> u32 \<Rightarrow> chain \<Rightarrow> bool outcome" where
  "checkIfSpent_at kimg i [] = Undefined"
| "checkIfSpent_at kimg i (c # ps) =
     (if i < startIndex c then checkIfSpent_at kimg i ps
      else case List.find (\<lambda>s. ski_keyImage s = kimg) (spentKeyImages c) of
             None \<Rightarrow> if ps \<noteq> [] then checkIfSpent_at kimg i ps else Returns False
           | Some s \<Rightarrow> Returns (ski_blockIndex s \<le> i))"

fun checkIfSpent_any :: "key_image \<Rightarrow> chain \<Rightarrow> bool" where
  "checkIfSpent_any kimg [] = False"
| "checkIfSpent_any kimg (c # ps) =
     ((\<exists>s \<in> set (spentKeyImages c). ski_keyImage s = kimg) \<or> checkIfSpent_any kimg ps)"

definition addSpentKeyImage :: "key_image \<Rightarrow> u32 \<Rightarrow> chain \<Rightarrow> chain outcome" where
  "addSpentKeyImage kimg i ch =
     bindO (checkIfSpent_at kimg (i - 1) ch) (\<lambda>spent.
       if spent then Undefined
       else Returns (case ch of [] \<Rightarrow> []
              | c # ps \<Rightarrow> c\<lparr> spentKeyImages := insert_spent \<lparr> ski_blockIndex = i, ski_keyImage = kimg \<rparr> (spentKeyImages c) \<rparr> # ps))"

fun addSpentKeyImages :: "key_image list \<Rightarrow> u32 \<Rightarrow> chain \<Rightarrow> chain outcome" where
  "addSpentKeyImages [] i ch = Returns ch"
| "addSpentKeyImages (k # ks) i ch = bindO (addSpentKeyImage k i ch) (\<lambda>ch'. addSpentKeyImages ks i ch')"

definition fillOutputsSpentByBlock :: "BlockchainCache \<Rightarrow> u32 \<Rightarrow> key_image list" where
  "fillOutputsSpentByBlock c i = map ski_keyImage (filter (\<lambda>s. ski_blockIndex s = i) (spentKeyImages c))"


section \<open>Outputs and their global indices\<close>

text \<open>The outputs of an amount are sorted by block, \<open>std::lower_bound\<close> counts those below a block.\<close>

fun getKeyOutputsCountForAmount :: "u64 \<Rightarrow> u32 \<Rightarrow> chain \<Rightarrow> nat" where
  "getKeyOutputsCountForAmount amt i [] = 0"
| "getKeyOutputsCountForAmount amt i (c # ps) =
     (case keyOutputsGlobalIndexes c amt of
        None \<Rightarrow> getKeyOutputsCountForAmount amt i ps
      | Some e \<Rightarrow> unat (oi_startIndex e) + length (takeWhile (\<lambda>p. poi_blockIndex p < i) (oi_outputs e)))"

definition insertKeyOutputToGlobalIndex :: "u64 \<Rightarrow> PackedOutIndex \<Rightarrow> u32 \<Rightarrow> BlockchainCache \<Rightarrow> chain \<Rightarrow> u32 \<times> BlockchainCache" where
  "insertKeyOutputToGlobalIndex amt output i c ps =
     (let e = (case keyOutputsGlobalIndexes c amt of
                 Some e \<Rightarrow> e\<lparr> oi_outputs := oi_outputs e @ [output] \<rparr>
               | None \<Rightarrow> \<lparr> oi_startIndex = (if ps \<noteq> [] then word_of_nat (getKeyOutputsCountForAmount amt i ps) else 0),
                            oi_outputs = [output] \<rparr>)
      in (oi_startIndex e + word_of_nat (length (oi_outputs e)) - 1,
          c\<lparr> keyOutputsGlobalIndexes := (keyOutputsGlobalIndexes c)(amt \<mapsto> e) \<rparr>))"

text \<open>The loop over the outputs of a transaction, from output \<open>outputCount\<close> on; it collects the global indices.\<close>

fun pushOutputs :: "u32 \<Rightarrow> u16 \<Rightarrow> nat \<Rightarrow> TransactionOutput list \<Rightarrow> chain \<Rightarrow> BlockchainCache \<Rightarrow> u32 list \<times> BlockchainCache" where
  "pushOutputs i txi outputCount [] ps c = ([], c)"
| "pushOutputs i txi outputCount (out # outs) ps c =
     (let poi = \<lparr> poi_blockIndex = i, poi_transactionIndex = txi, poi_outputIndex = word_of_nat outputCount \<rparr>;
          (gi, c1) = insertKeyOutputToGlobalIndex (out_amount out) poi i c ps;
          (gis, c2) = pushOutputs i txi (Suc outputCount) outs ps c1
      in (gi # gis, c2))"

text \<open>Transactions are unique by hash and by position.\<close>

definition insert_transaction :: "CachedTransactionInfo \<Rightarrow> CachedTransactionInfo list \<Rightarrow> CachedTransactionInfo list" where
  "insert_transaction t xs =
     (if \<exists>x \<in> set xs. ti_transactionHash x = ti_transactionHash t
           \<or> ti_blockIndex x = ti_blockIndex t \<and> ti_transactionIndex x = ti_transactionIndex t
      then xs else xs @ [t])"

definition insert_paymentId :: "PaymentIdTransactionHashPair \<Rightarrow> PaymentIdTransactionHashPair list \<Rightarrow> PaymentIdTransactionHashPair list" where
  "insert_paymentId p xs = (if \<exists>x \<in> set xs. pt_transactionHash x = pt_transactionHash p then xs else xs @ [p])"

definition hasTransaction :: "BlockchainCache \<Rightarrow> hash \<Rightarrow> bool" where
  "hasTransaction c h \<longleftrightarrow> (\<exists>t \<in> set (cachedTransactions c). ti_transactionHash t = h)"

definition pushTransaction :: "(bytes \<Rightarrow> hash) \<Rightarrow> Transaction \<Rightarrow> u32 \<Rightarrow> u16 \<Rightarrow> chain \<Rightarrow> BlockchainCache \<Rightarrow> BlockchainCache outcome" where
  "pushTransaction H tx i txi ps c =
     bindO (of_result (getTransactionHash H tx)) (\<lambda>h.
       if \<not> length (outputs tx) \<le> 65535 then Undefined
       else let (gis, c1) = pushOutputs i txi 0 (outputs tx) ps c;
                info = \<lparr> ti_blockIndex = i, ti_transactionIndex = ucast txi, ti_transactionHash = h,
                         ti_unlockTime = unlockTime tx, ti_outputs = map target (outputs tx), ti_globalIndexes = gis \<rparr>
            in if hasTransaction c1 h then Undefined
               else let c2 = c1\<lparr> cachedTransactions := insert_transaction info (cachedTransactions c1) \<rparr>
                    in Returns (case getPaymentIdFromTxExtra (extra tx) of
                         None \<Rightarrow> c2
                       | Some pid \<Rightarrow> c2\<lparr> paymentIds := insert_paymentId \<lparr> pt_paymentId = pid, pt_transactionHash = h \<rparr> (paymentIds c2) \<rparr>))"

fun pushTransactions :: "(bytes \<Rightarrow> hash) \<Rightarrow> Transaction list \<Rightarrow> u32 \<Rightarrow> nat \<Rightarrow> chain \<Rightarrow> BlockchainCache \<Rightarrow> BlockchainCache outcome" where
  "pushTransactions H [] i txi ps c = Returns c"
| "pushTransactions H (tx # txs) i txi ps c =
     bindO (pushTransaction H tx i (word_of_nat txi) ps c) (\<lambda>c'. pushTransactions H txs i (Suc txi) ps c')"


section \<open>Pushing a block\<close>

text \<open>What the counters of the new block are added to: those of the block below it.\<close>

definition last_counters :: "u32 \<Rightarrow> BlockchainCache \<Rightarrow> chain \<Rightarrow> (u64 \<times> u64 \<times> u64) outcome" where
  "last_counters i c ps =
     (if getBlockCount c = 0
      then (case ps of [] \<Rightarrow> Returns (0, 0, 0)
            | p # _ \<Rightarrow> bindO (getCurrentCumulativeDifficulty_at p (i - 1)) (\<lambda>d.
                       bindO (getAlreadyGeneratedCoins (i - 1) ps) (\<lambda>g.
                       bindO (getAlreadyGeneratedTransactions (i - 1) ps) (\<lambda>t. Returns (d, g, t)))))
      else let b = last (blockInfos c)
           in Returns (bi_cumulativeDifficulty b, bi_alreadyGeneratedCoins b, bi_alreadyGeneratedTransactions b))"

definition doPushBlock ::
  "(bytes \<Rightarrow> hash) \<Rightarrow> BlockTemplate \<Rightarrow> Transaction list \<Rightarrow> key_image list \<Rightarrow> u64 \<Rightarrow> u64 \<Rightarrow> u64 \<Rightarrow> RawBlock
     \<Rightarrow> BlockchainCache \<Rightarrow> chain \<Rightarrow> BlockchainCache outcome" where
  "doPushBlock H b txs images blockSize generatedCoins blockDifficulty rawBlock c ps =
     bindO (of_result (getBlockHash H b)) (\<lambda>h.
       if \<not> 0 < blockSize \<or> \<not> 0 < blockDifficulty then Undefined
       else bindO (last_counters (getBlockIndex b) c ps) (\<lambda>(d, g, t).
       let info = \<lparr> bi_blockHash = h, bi_timestamp = timestamp b, bi_cumulativeDifficulty = d + blockDifficulty,
                    bi_alreadyGeneratedCoins = g + generatedCoins,
                    bi_alreadyGeneratedTransactions = t + (word_of_nat (length txs) + 1),
                    bi_blockSize = ucast blockSize \<rparr>
       in if hasBlock c h then Undefined
          else bindO (addSpentKeyImages images (getBlockIndex b) (c\<lparr> blockInfos := blockInfos c @ [info] \<rparr> # ps)) (\<lambda>ch.
               if \<not> length txs \<le> 65535 then Undefined
               else bindO (pushTransactions H (baseTransaction b # txs) (getBlockIndex b) 0 ps (hd ch)) (\<lambda>c'.
                    Returns (c'\<lparr> storage := storage_pushBlock rawBlock (storage c') \<rparr>)))))"

definition empty_cache :: "u32 \<Rightarrow> BlockchainCache" where
  "empty_cache i = \<lparr> startIndex = i, cachedTransactions = [], spentKeyImages = [], blockInfos = [],
     keyOutputsGlobalIndexes = Map.empty, paymentIds = [], storage = [] \<rparr>"

text \<open>The constructor without a parent starts the chain with the genesis block.\<close>

definition root_cache :: "(bytes \<Rightarrow> hash) \<Rightarrow> BlockTemplate \<Rightarrow> BlockchainCache outcome" where
  "root_cache H genesisBlock =
     (let minerReward = foldl (\<lambda>s out. s + out_amount out) 0 (outputs (baseTransaction genesisBlock));
          coinbaseTransactionSize = getObjectBinarySize_tx (baseTransaction genesisBlock)
      in if \<not> 0 < minerReward \<or> \<not> coinbaseTransactionSize < -1 then Undefined
         else bindO (of_result (toBinaryArray (serialize_BlockTemplate H) genesisBlock)) (\<lambda>ba.
              doPushBlock H genesisBlock [] [] coinbaseTransactionSize minerReward 1
                \<lparr> block = ba, raw_transactions = [] \<rparr> (empty_cache 0) []))"

text \<open>The cumulative difficulty and the coins below a block.\<close>

definition counters_below :: "u32 \<Rightarrow> BlockchainCache \<Rightarrow> chain \<Rightarrow> (u64 \<times> u64) outcome" where
  "counters_below i c ps =
     (if i > startIndex c
      then let b = blockInfos c ! (unat (i - startIndex c) - 1)
           in Returns (bi_cumulativeDifficulty b, bi_alreadyGeneratedCoins b)
      else if ps = [] then Returns (0, 0)
      else bindO (getLastCumulativeDifficulties_at 1 (startIndex c - 1) True ps) (\<lambda>ds.
           bindO (getAlreadyGeneratedCoins (startIndex c - 1) ps) (\<lambda>g.
             case ds of [] \<Rightarrow> Undefined | d # _ \<Rightarrow> Returns (d, g))))"

definition getPushedBlockInfo :: "u32 \<Rightarrow> BlockchainCache \<Rightarrow> chain \<Rightarrow> PushedBlockInfo outcome" where
  "getPushedBlockInfo i c ps =
     (if \<not> i \<ge> startIndex c \<or> \<not> i < startIndex c + getBlockCount c
           \<or> \<not> unat (i - startIndex c) < length (blockInfos c) then Undefined
      else bindO (storage_getBlockByIndex (storage c) (i - startIndex c)) (\<lambda>rawBlock.
           bindO (counters_below i c ps) (\<lambda>(d, g).
             let b = blockInfos c ! unat (i - startIndex c)
             in Returns \<lparr> pi_rawBlock = rawBlock, pi_validatorState = fillOutputsSpentByBlock c i,
                  pi_blockSize = ucast (bi_blockSize b), pi_generatedCoins = bi_alreadyGeneratedCoins b - g,
                  pi_blockDifficulty = bi_cumulativeDifficulty b - d \<rparr>)))"


section \<open>Splitting a segment\<close>

text \<open>\<open>splitGlobalIndexes\<close> on the entry of one amount: what stays and what moves up. Empty entries are erased.\<close>

definition split_entry ::
  "u32 \<Rightarrow> OutputGlobalIndexesForAmount \<Rightarrow> OutputGlobalIndexesForAmount option \<times> OutputGlobalIndexesForAmount option" where
  "split_entry i e =
     (let n = length (takeWhile (\<lambda>p. poi_blockIndex p < i) (oi_outputs e));
          newCacheOutputsCount = length (oi_outputs e) - n
      in (if take n (oi_outputs e) = [] then None else Some (e\<lparr> oi_outputs := take n (oi_outputs e) \<rparr>),
          if newCacheOutputsCount = 0 then None
          else Some \<lparr> oi_startIndex = oi_startIndex e + word_of_nat (length (oi_outputs e)) - word_of_nat newCacheOutputsCount,
                      oi_outputs = drop n (oi_outputs e) \<rparr>))"

definition splitKeyOutputsGlobalIndexes ::
  "u32 \<Rightarrow> (u64 \<rightharpoonup> OutputGlobalIndexesForAmount)
     \<Rightarrow> (u64 \<rightharpoonup> OutputGlobalIndexesForAmount) \<times> (u64 \<rightharpoonup> OutputGlobalIndexesForAmount)" where
  "splitKeyOutputsGlobalIndexes i m =
     (\<lambda>amt. case m amt of None \<Rightarrow> None | Some e \<Rightarrow> fst (split_entry i e),
      \<lambda>amt. case m amt of None \<Rightarrow> None | Some e \<Rightarrow> snd (split_entry i e))"

definition splitSpentKeyImages :: "u32 \<Rightarrow> SpentKeyImage list \<Rightarrow> SpentKeyImage list \<times> SpentKeyImage list" where
  "splitSpentKeyImages i xs = (filter (\<lambda>s. ski_blockIndex s < i) xs, filter (\<lambda>s. \<not> ski_blockIndex s < i) xs)"

definition splitTransactions :: "u32 \<Rightarrow> CachedTransactionInfo list \<Rightarrow> CachedTransactionInfo list \<times> CachedTransactionInfo list" where
  "splitTransactions i xs = (filter (\<lambda>t. ti_blockIndex t < i) xs, filter (\<lambda>t. \<not> ti_blockIndex t < i) xs)"

text \<open>\<open>removePaymentId\<close> for every transaction that moves.\<close>

definition splitPaymentIds ::
  "CachedTransactionInfo list \<Rightarrow> PaymentIdTransactionHashPair list \<Rightarrow> PaymentIdTransactionHashPair list \<times> PaymentIdTransactionHashPair list" where
  "splitPaymentIds moved xs =
     (filter (\<lambda>p. \<not> (\<exists>t \<in> set moved. ti_transactionHash t = pt_transactionHash p)) xs,
      filter (\<lambda>p. \<exists>t \<in> set moved. ti_transactionHash t = pt_transactionHash p) xs)"

text \<open>The lower and the upper part of the containers; the new segment starts at \<open>i\<close>.\<close>

definition split_containers :: "u32 \<Rightarrow> u32 \<Rightarrow> BlockchainCache \<Rightarrow> (BlockchainCache \<times> BlockchainCache) outcome" where
  "split_containers storageIndex i c =
     bindO (splitStorage (storage c) storageIndex) (\<lambda>(lowStorage, newStorage).
       let n = unat (i - startIndex c);
           (lowSpent, newSpent) = splitSpentKeyImages i (spentKeyImages c);
           (lowTxs, newTxs) = splitTransactions i (cachedTransactions c);
           (lowIds, newIds) = splitPaymentIds newTxs (paymentIds c);
           (lowOuts, newOuts) = splitKeyOutputsGlobalIndexes i (keyOutputsGlobalIndexes c)
       in if length (blockInfos c) < n then Undefined
          else Returns (\<lparr> startIndex = startIndex c, cachedTransactions = lowTxs, spentKeyImages = lowSpent,
                          blockInfos = take n (blockInfos c), keyOutputsGlobalIndexes = lowOuts,
                          paymentIds = lowIds, storage = lowStorage \<rparr>,
                        \<lparr> startIndex = i, cachedTransactions = newTxs, spentKeyImages = newSpent,
                          blockInfos = drop n (blockInfos c), keyOutputsGlobalIndexes = newOuts,
                          paymentIds = newIds, storage = newStorage \<rparr>))"

text \<open>The segment that stays and the new segment on top of it.\<close>

definition split_segment :: "u32 \<Rightarrow> BlockchainCache \<Rightarrow> (BlockchainCache \<times> BlockchainCache) outcome" where
  "split_segment i c =
     bindO (getTopBlockIndex c) (\<lambda>top.
       if \<not> i > startIndex c \<or> \<not> i \<le> top then Undefined
       else split_containers (i - startIndex c) i c)"

text \<open>The same without the two assertions; the upper part is dropped when the function returns.\<close>

definition rewind_segment :: "u64 \<Rightarrow> BlockchainCache \<Rightarrow> BlockchainCache outcome" where
  "rewind_segment height c =
     bindO (split_containers (ucast (height - ucast (startIndex c))) (ucast height) c) (\<lambda>(low, new). Returns low)"


section \<open>Raw blocks and transactions\<close>

primrec mapO :: "('a \<Rightarrow> 'b outcome) \<Rightarrow> 'a list \<Rightarrow> 'b list outcome" where
  "mapO f [] = Returns []"
| "mapO f (x # xs) = bindO (f x) (\<lambda>y. bindO (mapO f xs) (\<lambda>ys. Returns (y # ys)))"

fun getBlockByIndex :: "u32 \<Rightarrow> chain \<Rightarrow> RawBlock outcome" where
  "getBlockByIndex i [] = Undefined"
| "getBlockByIndex i (c # ps) =
     (if i < startIndex c then getBlockByIndex i ps else storage_getBlockByIndex (storage c) (i - startIndex c))"

fun getNonEmptyBlocks :: "u64 \<Rightarrow> nat \<Rightarrow> chain \<Rightarrow> RawBlock list outcome" where
  "getNonEmptyBlocks startHeight blockCount [] = Undefined"
| "getNonEmptyBlocks startHeight blockCount (c # ps) =
     bindO (if startHeight < ucast (startIndex c) then getNonEmptyBlocks startHeight blockCount ps else Returns []) (\<lambda>bs.
       if startHeight < ucast (startIndex c) \<and> length bs = blockCount then Returns bs
       else let startOffset = max startHeight (ucast (startIndex c));
                first = unat (startOffset - ucast (startIndex c))
            in Returns (bs @ take (blockCount - length bs)
                 (filter (\<lambda>b. raw_transactions b \<noteq> []) (drop first (take (unat (storage_getBlockCount (storage c))) (storage c))))))"

fun getBlocksByHeight :: "u64 \<Rightarrow> u64 \<Rightarrow> chain \<Rightarrow> RawBlock list outcome" where
  "getBlocksByHeight startHeight endHeight [] = Undefined"
| "getBlocksByHeight startHeight endHeight (c # ps) =
     (if endHeight < ucast (startIndex c) then getBlocksByHeight startHeight endHeight ps
      else bindO (if startHeight < ucast (startIndex c) then getBlocksByHeight startHeight (ucast (startIndex c)) ps
                  else Returns []) (\<lambda>bs.
           let startOffset = max startHeight (ucast (startIndex c));
               last' = ucast (startIndex c) + ucast (storage_getBlockCount (storage c));
               endOffset = (if endHeight > last' then last' else endHeight)
           in bindO (mapO (\<lambda>j. storage_getBlockByIndex (storage c) (ucast (word_of_nat j - ucast (startIndex c) :: u64)))
                       [unat startOffset ..< unat endOffset]) (\<lambda>own.
                Returns (bs @ own))))"

text \<open>\<open>b0\<close> is the object the block is read into.\<close>

fun getRawTransaction :: "BlockTemplate \<Rightarrow> u32 \<Rightarrow> u32 \<Rightarrow> chain \<Rightarrow> bytes outcome" where
  "getRawTransaction b0 i txi [] = Undefined"
| "getRawTransaction b0 i txi (c # ps) =
     (if i < startIndex c then getRawTransaction b0 i txi ps
      else bindO (storage_getBlockByIndex (storage c) (i - startIndex c)) (\<lambda>rawBlock.
           if txi = 0
           then bindO (of_result (fromBinaryArray (deserialize_BlockTemplate b0) (block rawBlock))) (\<lambda>b.
                  of_result (toBinaryArray serialize_Transaction (baseTransaction b)))
           else if \<not> unat (txi - 1) < length (raw_transactions rawBlock) then Undefined
           else Returns (raw_transactions rawBlock ! unat (txi - 1))))"

text \<open>The transactions that are found, and the hashes of the others.\<close>

fun getRawTransactions :: "BlockTemplate \<Rightarrow> hash list \<Rightarrow> BlockchainCache \<Rightarrow> chain \<Rightarrow> (bytes list \<times> hash list) outcome" where
  "getRawTransactions b0 [] c ps = Returns ([], [])"
| "getRawTransactions b0 (h # hs) c ps =
     (case List.find (\<lambda>t. ti_transactionHash t = h) (cachedTransactions c) of
        None \<Rightarrow> bindO (getRawTransactions b0 hs c ps) (\<lambda>(found, missed). Returns (found, h # missed))
      | Some t \<Rightarrow> bindO (getRawTransaction b0 (ti_blockIndex t) (ti_transactionIndex t) (c # ps)) (\<lambda>tx.
                  bindO (getRawTransactions b0 hs c ps) (\<lambda>(found, missed). Returns (tx # found, missed))))"

definition getRawTransactions_all :: "BlockTemplate \<Rightarrow> hash list \<Rightarrow> BlockchainCache \<Rightarrow> chain \<Rightarrow> bytes list outcome" where
  "getRawTransactions_all b0 hs c ps =
     bindO (getRawTransactions b0 hs c ps) (\<lambda>(found, misses). if misses \<noteq> [] then Undefined else Returns found)"

definition getTransactionGlobalIndexes :: "BlockchainCache \<Rightarrow> hash \<Rightarrow> u32 list option" where
  "getTransactionGlobalIndexes c h =
     map_option ti_globalIndexes (List.find (\<lambda>t. ti_transactionHash t = h) (cachedTransactions c))"

definition getBlockIndexContainingTx :: "BlockchainCache \<Rightarrow> hash \<Rightarrow> u32 outcome" where
  "getBlockIndexContainingTx c h =
     (case List.find (\<lambda>t. ti_transactionHash t = h) (cachedTransactions c) of
        None \<Rightarrow> Undefined | Some t \<Rightarrow> Returns (ti_blockIndex t))"

fun getTransactionCount :: "chain \<Rightarrow> nat" where
  "getTransactionCount [] = 0"
| "getTransactionCount (c # ps) = getTransactionCount ps + length (cachedTransactions c)"

text \<open>The base transactions are skipped; the code returns the hashes in the order of the hash index.\<close>

definition getTransactionHashes :: "BlockchainCache \<Rightarrow> hash list" where
  "getTransactionHashes c =
     map ti_transactionHash (filter (\<lambda>t. ti_transactionIndex t \<noteq> 0) (cachedTransactions c))"

fun getTransactionHashesByPaymentId :: "hash \<Rightarrow> chain \<Rightarrow> hash list" where
  "getTransactionHashesByPaymentId pid [] = []"
| "getTransactionHashesByPaymentId pid (c # ps) =
     getTransactionHashesByPaymentId pid ps
     @ map pt_transactionHash (filter (\<lambda>p. pt_paymentId p = pid) (paymentIds c))"

text \<open>Hashes that a segment does not have are asked of its parent, without a test that there is one.\<close>

fun getGlobalIndexes :: "hash list \<Rightarrow> chain \<Rightarrow> (hash \<rightharpoonup> u64 list) outcome" where
  "getGlobalIndexes hs [] = Undefined"
| "getGlobalIndexes hs (c # ps) =
     (let own = (\<lambda>h. if h \<in> set hs then map_option (map ucast) (getTransactionGlobalIndexes c h) else None);
          remaining = filter (\<lambda>h. \<not> hasTransaction c h) hs
      in if remaining = [] then Returns own
         else bindO (getGlobalIndexes remaining ps) (\<lambda>fromParent. Returns (fromParent ++ own)))"


section \<open>Extracting outputs\<close>

definition isTransactionSpendTimeUnlocked :: "Currency \<Rightarrow> u64 \<Rightarrow> u64 \<Rightarrow> u32 \<Rightarrow> chain \<Rightarrow> bool outcome" where
  "isTransactionSpendTimeUnlocked cur now unlock i ch =
     (if unlock < ucast (m_maxBlockHeight cur)
      then Returns (ucast i + m_lockedTxAllowedDeltaBlocks cur \<ge> unlock)
      else if ucast i \<ge> TRANSACTION_INPUT_BLOCKTIME_VALIDATION_HEIGHT
      then bindO (getLastTimestamps 1 ch) (\<lambda>ts.
             case ts of [] \<Rightarrow> Throws OutOfRange
             | t # _ \<Rightarrow> Returns (t + m_lockedTxAllowedDeltaSeconds cur \<ge> unlock))
      else Returns (now + m_lockedTxAllowedDeltaSeconds cur \<ge> unlock))"

definition isTransactionSpendTimeUnlocked_top :: "Currency \<Rightarrow> u64 \<Rightarrow> u64 \<Rightarrow> chain \<Rightarrow> bool outcome" where
  "isTransactionSpendTimeUnlocked_top cur now unlock ch =
     bindO (top_of ch) (\<lambda>top. isTransactionSpendTimeUnlocked cur now unlock top ch)"

text \<open>The callback of \<open>extractKeyOutputs\<close> appends to a vector its caller holds: that vector is the state \<open>'s\<close>.\<close>

type_synonym 's extractor =
  "CachedTransactionInfo \<Rightarrow> PackedOutIndex \<Rightarrow> u32 \<Rightarrow> 's \<Rightarrow> (ExtractOutputKeysResult \<times> 's) outcome"

definition find_transaction :: "BlockchainCache \<Rightarrow> u32 \<Rightarrow> u16 \<Rightarrow> CachedTransactionInfo option" where
  "find_transaction c i txi =
     List.find (\<lambda>t. ti_blockIndex t = i \<and> ti_transactionIndex t = ucast txi) (cachedTransactions c)"

fun extract_own :: "'s extractor \<Rightarrow> u32 \<Rightarrow> OutputGlobalIndexesForAmount \<Rightarrow> BlockchainCache \<Rightarrow> u32 list \<Rightarrow> 's
    \<Rightarrow> (ExtractOutputKeysResult \<times> 's) outcome" where
  "extract_own pred i e c [] acc = Returns (SUCCESS, acc)"
| "extract_own pred i e c (g # gs) acc =
     (if unat (g - oi_startIndex e) \<ge> length (oi_outputs e) then Returns (INVALID_GLOBAL_INDEX, acc)
      else let output = oi_outputs e ! unat (g - oi_startIndex e)
           in if \<not> poi_blockIndex output \<ge> startIndex c \<or> \<not> poi_blockIndex output \<le> i then Undefined
              else case find_transaction c (poi_blockIndex output) (poi_transactionIndex output) of
                     None \<Rightarrow> Returns (INVALID_GLOBAL_INDEX, acc)
                   | Some t \<Rightarrow> bindO (pred t output g acc) (\<lambda>(ret, acc').
                       if ret \<noteq> SUCCESS then Returns (ret, acc') else extract_own pred i e c gs acc'))"

fun extractKeyOutputs :: "u64 \<Rightarrow> u32 \<Rightarrow> u32 list \<Rightarrow> 's extractor \<Rightarrow> 's \<Rightarrow> chain
    \<Rightarrow> (ExtractOutputKeysResult \<times> 's) outcome" where
  "extractKeyOutputs amt i gs pred acc [] = Undefined"
| "extractKeyOutputs amt i gs pred acc (c # ps) =
     (if gs = [] \<or> \<not> sorted_wrt (<) gs then Undefined
      else case (if i < startIndex c then None else keyOutputsGlobalIndexes c amt) of
             None \<Rightarrow> if ps \<noteq> [] then extractKeyOutputs amt i gs pred acc ps else Returns (INVALID_GLOBAL_INDEX, acc)
           | Some e \<Rightarrow>
               let lower = takeWhile (\<lambda>g. g < oi_startIndex e) gs;
                   own = dropWhile (\<lambda>g. g < oi_startIndex e) gs
               in bindO (if lower \<noteq> [] then extractKeyOutputs amt i lower pred acc ps else Returns (SUCCESS, acc)) (\<lambda>(result, acc').
                    if result \<noteq> SUCCESS then Returns (result, acc')
                    else if oi_outputs e = [] then Undefined
                    else extract_own pred i e c own acc'))"

definition key_extractor :: "Currency \<Rightarrow> u64 \<Rightarrow> u32 \<Rightarrow> chain \<Rightarrow> public_key list extractor" where
  "key_extractor cur now i ch info output g publicKeys =
     bindO (isTransactionSpendTimeUnlocked cur now (ti_unlockTime info) i ch) (\<lambda>unlocked.
       if \<not> unlocked then Returns (OUTPUT_LOCKED, publicKeys)
       else if \<not> unat (poi_outputIndex output) < length (ti_outputs info) then Undefined
       else Returns (SUCCESS, publicKeys @ [key (ti_outputs info ! unat (poi_outputIndex output))]))"

definition extractKeyOutputKeys_at ::
  "Currency \<Rightarrow> u64 \<Rightarrow> u64 \<Rightarrow> u32 \<Rightarrow> u32 list \<Rightarrow> chain \<Rightarrow> (ExtractOutputKeysResult \<times> public_key list) outcome" where
  "extractKeyOutputKeys_at cur now amt i gs ch = extractKeyOutputs amt i gs (key_extractor cur now i ch) [] ch"

definition extractKeyOutputKeys_top ::
  "Currency \<Rightarrow> u64 \<Rightarrow> u64 \<Rightarrow> u32 list \<Rightarrow> chain \<Rightarrow> (ExtractOutputKeysResult \<times> public_key list) outcome" where
  "extractKeyOutputKeys_top cur now amt gs ch = bindO (top_of ch) (\<lambda>top. extractKeyOutputKeys_at cur now amt top gs ch)"

definition extractKeyOtputReferences ::
  "u64 \<Rightarrow> u32 list \<Rightarrow> chain \<Rightarrow> (ExtractOutputKeysResult \<times> (hash \<times> u16) list) outcome" where
  "extractKeyOtputReferences amt gs ch =
     bindO (top_of ch) (\<lambda>top. extractKeyOutputs amt top gs
       (\<lambda>info output g refs. Returns (SUCCESS, refs @ [(ti_transactionHash info, poi_outputIndex output)])) [] ch)"

definition extractKeyOtputIndexes ::
  "u64 \<Rightarrow> u32 list \<Rightarrow> chain \<Rightarrow> (ExtractOutputKeysResult \<times> PackedOutIndex list) outcome" where
  "extractKeyOtputIndexes amt gs ch =
     bindO (top_of ch) (\<lambda>top. extractKeyOutputs amt top gs
       (\<lambda>info output g outIndexes. Returns (SUCCESS, outIndexes @ [output])) [] ch)"


section \<open>Choosing outputs for a ring\<close>

text \<open>\<open>rnd k\<close> is the random source of the generator made in the segment with \<open>k\<close> ancestors.\<close>

definition old_enough :: "u32 \<Rightarrow> PackedOutIndex \<Rightarrow> bool" where
  "old_enough i output \<longleftrightarrow>
     (if ucast (poi_blockIndex output) \<ge> CRYPTONOTE_MINED_MONEY_UNLOCK_WINDOW_V2_HEIGHT
      then poi_blockIndex output \<le> i - CRYPTONOTE_MINED_MONEY_UNLOCK_WINDOW_V2
      else poi_blockIndex output \<le> i - CRYPTONOTE_MINED_MONEY_UNLOCK_WINDOW)"

fun collect_outs :: "Currency \<Rightarrow> u64 \<Rightarrow> u32 \<Rightarrow> OutputGlobalIndexesForAmount \<Rightarrow> BlockchainCache \<Rightarrow> chain \<Rightarrow> nat list \<Rightarrow> u32 list outcome" where
  "collect_outs cur now i e c ps [] = Returns []"
| "collect_outs cur now i e c ps (offset # offsets) =
     (case find_transaction c (poi_blockIndex (oi_outputs e ! offset)) (poi_transactionIndex (oi_outputs e ! offset)) of
        None \<Rightarrow> Undefined
      | Some t \<Rightarrow> bindO (isTransactionSpendTimeUnlocked cur now (ti_unlockTime t) i (c # ps)) (\<lambda>unlocked.
                  bindO (collect_outs cur now i e c ps offsets) (\<lambda>outs.
                    Returns (if unlocked then (oi_startIndex e + word_of_nat offset) # outs else outs))))"

fun getRandomOutsByAmount ::
  "Currency \<Rightarrow> u64 \<Rightarrow> (nat \<Rightarrow> nat \<Rightarrow> nat \<Rightarrow> nat) \<Rightarrow> u64 \<Rightarrow> nat \<Rightarrow> u32 \<Rightarrow> chain \<Rightarrow> u32 list outcome" where
  "getRandomOutsByAmount cur now rnd amt cnt i [] = Undefined"
| "getRandomOutsByAmount cur now rnd amt cnt i (c # ps) =
     (case keyOutputsGlobalIndexes c amt of
        None \<Rightarrow> if ps \<noteq> [] then getRandomOutsByAmount cur now rnd amt cnt i ps else Returns []
      | Some e \<Rightarrow>
          let available = length (dropWhile (\<lambda>output. \<not> old_enough i output) (rev (oi_outputs e)));
              dist = min (unat (word_of_nat cnt :: u32)) (unat (word_of_nat available :: u32))
          in (case shuffle_draw (rnd (length ps)) dist (new_ShuffleGenerator dist) of
               None \<Rightarrow> Throws (RuntimeError ''shuffle sequence ended'')
             | Some (offsets, _) \<Rightarrow>
                 bindO (collect_outs cur now i e c ps offsets) (\<lambda>outs.
                   if length outs < cnt \<and> ps \<noteq> []
                   then bindO (getRandomOutsByAmount cur now rnd amt (cnt - length outs) i ps) (\<lambda>prevs. Returns (outs @ prevs))
                   else Returns outs)))"

end
