(* ===== verification/ChainView.thy ===== *)
theory ChainView
  imports BlockchainCache
begin

text \<open>
  What a chain of segments stands for. A chain is read as five flat sequences, the segments of the ancestors first:
  its blocks, raw blocks, transactions, spent key images and, per amount, outputs. The invariant \<open>wf_chain\<close> says
  how the segments fit together. On a well-formed chain every query of a segment is a query of the flat sequences, a
  split changes no sequence, and pushing a block appends to them.
\<close>

section \<open>The flat chain\<close>

primrec chain_blocks :: "chain \<Rightarrow> CachedBlockInfo list" where
  "chain_blocks [] = []"
| "chain_blocks (c # ps) = chain_blocks ps @ blockInfos c"

primrec chain_storage :: "chain \<Rightarrow> RawBlock list" where
  "chain_storage [] = []"
| "chain_storage (c # ps) = chain_storage ps @ storage c"

primrec chain_transactions :: "chain \<Rightarrow> CachedTransactionInfo list" where
  "chain_transactions [] = []"
| "chain_transactions (c # ps) = chain_transactions ps @ cachedTransactions c"

primrec chain_spent :: "chain \<Rightarrow> SpentKeyImage list" where
  "chain_spent [] = []"
| "chain_spent (c # ps) = chain_spent ps @ spentKeyImages c"

definition own_outputs :: "u64 \<Rightarrow> BlockchainCache \<Rightarrow> PackedOutIndex list" where
  "own_outputs amt c = (case keyOutputsGlobalIndexes c amt of None \<Rightarrow> [] | Some e \<Rightarrow> oi_outputs e)"

primrec chain_outputs :: "u64 \<Rightarrow> chain \<Rightarrow> PackedOutIndex list" where
  "chain_outputs amt [] = []"
| "chain_outputs amt (c # ps) = chain_outputs amt ps @ own_outputs amt c"

definition end_index :: "chain \<Rightarrow> nat" where
  "end_index ch = (case ch of [] \<Rightarrow> 0 | c # _ \<Rightarrow> unat (startIndex c) + length (blockInfos c))"

lemma end_index_simps [simp]: "end_index [] = 0" "end_index (c # ps) = unat (startIndex c) + length (blockInfos c)"
  by (simp_all add: end_index_def)

text \<open>The blocks of a segment, by index.\<close>

definition in_segment :: "BlockchainCache \<Rightarrow> u32 \<Rightarrow> bool" where
  "in_segment c i \<longleftrightarrow> startIndex c \<le> i \<and> unat i < unat (startIndex c) + length (blockInfos c)"

definition outputs_ok :: "BlockchainCache \<Rightarrow> chain \<Rightarrow> u64 \<Rightarrow> bool" where
  "outputs_ok c ps amt =
     (case keyOutputsGlobalIndexes c amt of None \<Rightarrow> True
      | Some e \<Rightarrow> oi_outputs e \<noteq> [] \<and> unat (oi_startIndex e) = length (chain_outputs amt ps)
          \<and> unat (oi_startIndex e) + length (oi_outputs e) < 2 ^ 32
          \<and> sorted (map poi_blockIndex (oi_outputs e)) \<and> (\<forall>p \<in> set (oi_outputs e). in_segment c (poi_blockIndex p)))"

definition spent_ok :: "BlockchainCache \<Rightarrow> chain \<Rightarrow> bool" where
  "spent_ok c ps \<longleftrightarrow> sorted (map ski_blockIndex (spentKeyImages c)) \<and> (\<forall>s \<in> set (spentKeyImages c). in_segment c (ski_blockIndex s))
     \<and> distinct (map ski_keyImage (chain_spent (c # ps)))"

definition transactions_ok :: "BlockchainCache \<Rightarrow> bool" where
  "transactions_ok c \<longleftrightarrow> sorted (map ti_blockIndex (cachedTransactions c))
     \<and> (\<forall>t \<in> set (cachedTransactions c). in_segment c (ti_blockIndex t))
     \<and> distinct (map ti_transactionHash (cachedTransactions c))
     \<and> distinct (map (\<lambda>t. (ti_blockIndex t, ti_transactionIndex t)) (cachedTransactions c))"

definition blocks_ok :: "BlockchainCache \<Rightarrow> chain \<Rightarrow> bool" where
  "blocks_ok c ps \<longleftrightarrow> unat (startIndex c) = end_index ps \<and> length (storage c) = length (blockInfos c)
     \<and> unat (startIndex c) + length (blockInfos c) < 2 ^ 32 \<and> distinct (map bi_blockHash (blockInfos c))"

fun wf_chain :: "chain \<Rightarrow> bool" where
  "wf_chain [] = True"
| "wf_chain (c # ps) = (wf_chain ps \<and> (\<forall>p \<in> set ps. blockInfos p \<noteq> []) \<and> blocks_ok c ps \<and> spent_ok c ps
     \<and> transactions_ok c \<and> (\<forall>amt. outputs_ok c ps amt))"

text \<open>A chain that can be asked: no segment is empty.\<close>

definition full :: "chain \<Rightarrow> bool" where
  "full ch \<longleftrightarrow> wf_chain ch \<and> ch \<noteq> [] \<and> (\<forall>c \<in> set ch. blockInfos c \<noteq> [])"


section \<open>Shape of a chain\<close>

lemma bindO_right_unit [simp]: "bindO m Returns = m"
  by (cases m) simp_all

lemma wf_blocks_ok: "wf_chain (c # ps) \<Longrightarrow> blocks_ok c ps"
  by simp

lemma length_chain_blocks: "wf_chain ch \<Longrightarrow> length (chain_blocks ch) = end_index ch"
  by (induction ch) (auto simp: blocks_ok_def)

lemma length_chain_storage: "wf_chain ch \<Longrightarrow> length (chain_storage ch) = end_index ch"
  by (induction ch) (auto simp: blocks_ok_def)

lemma end_index_bound: "wf_chain ch \<Longrightarrow> end_index ch < 2 ^ 32"
  by (cases ch) (auto simp: blocks_ok_def)

lemma full_Cons: "full (c # ps) \<longleftrightarrow> wf_chain (c # ps) \<and> blockInfos c \<noteq> []"
  by (auto simp: full_def)

lemma full_parent: "full (c # p # ps) \<Longrightarrow> full (p # ps)"
  by (auto simp: full_def)

lemma local_index:
  assumes "blocks_ok c ps" and "startIndex c \<le> i"
  shows "unat (i - startIndex c) = unat i - end_index ps" and "end_index ps \<le> unat i"
  using assms by (simp_all add: unat_sub_ge blocks_ok_def word_le_nat_alt)

lemma below_segment: "blocks_ok c ps \<Longrightarrow> i < startIndex c \<longleftrightarrow> unat i < end_index ps"
  by (simp add: blocks_ok_def word_less_nat_alt)

lemma segment_nth:
  assumes "wf_chain (c # ps)" and "startIndex c \<le> i" and "unat i < end_index (c # ps)"
  shows "blockInfos c ! unat (i - startIndex c) = chain_blocks (c # ps) ! unat i"
    and "storage c ! unat (i - startIndex c) = chain_storage (c # ps) ! unat i"
    and "unat (i - startIndex c) < length (blockInfos c)"
proof -
  note b = wf_blocks_ok [OF assms(1)]
  have wf: "wf_chain ps" using assms(1) by simp
  note local_index [OF b assms(2)] length_chain_blocks [OF wf] length_chain_storage [OF wf]
  with assms(3) b show "blockInfos c ! unat (i - startIndex c) = chain_blocks (c # ps) ! unat i"
    and "storage c ! unat (i - startIndex c) = chain_storage (c # ps) ! unat i"
    and "unat (i - startIndex c) < length (blockInfos c)"
    by (auto simp: nth_append blocks_ok_def)
qed

lemma chain_nth_below:
  assumes "wf_chain (c # ps)" and "i < startIndex c"
  shows "unat i < end_index ps" and "chain_blocks (c # ps) ! unat i = chain_blocks ps ! unat i"
    and "chain_storage (c # ps) ! unat i = chain_storage ps ! unat i"
  using assms below_segment [OF wf_blocks_ok [OF assms(1)], of i]
  by (auto simp: nth_append length_chain_blocks length_chain_storage)


section \<open>Queries of blocks\<close>

lemma top_index:
  assumes "full (c # ps)"
  shows "getTopBlockIndex c = Returns (word_of_nat (end_index (c # ps) - 1))"
    and "unat (word_of_nat (end_index (c # ps) - 1) :: u32) = end_index (c # ps) - 1"
proof -
  have b: "blocks_ok c ps" "blockInfos c \<noteq> []" using assms by (simp_all add: full_Cons)
  have "startIndex c + word_of_nat (length (blockInfos c)) = word_of_nat (end_index (c # ps))" by simp
  also have "\<dots> = word_of_nat (end_index (c # ps) - 1) + 1"
    using b(2) by (metis One_nat_def Suc_pred add_gr_0 end_index_simps(2) length_greater_0_conv of_nat_Suc add.commute)
  finally show "getTopBlockIndex c = Returns (word_of_nat (end_index (c # ps) - 1))"
    using b by (simp add: getTopBlockIndex_def storage_getBlockCount_def blocks_ok_def)
  show "unat (word_of_nat (end_index (c # ps) - 1) :: u32) = end_index (c # ps) - 1"
    by (rule unat_word_of_nat) (use b in \<open>auto simp: blocks_ok_def\<close>)
qed

lemma le_top_iff: "full (c # ps) \<Longrightarrow> (i :: u32) \<le> word_of_nat (end_index (c # ps) - 1) \<longleftrightarrow> unat i < end_index (c # ps)"
  unfolding word_le_nat_alt by (subst top_index(2), assumption) (auto simp: full_Cons neq_Nil_conv)

lemma block_at_flat:
  assumes "wf_chain (c # ps)" and "startIndex c \<le> i" and "unat i < end_index (c # ps)"
  shows "block_at c (i - startIndex c) = Returns (chain_blocks (c # ps) ! unat i)"
  using segment_nth [OF assms] by (simp add: block_at_def)

lemma getBlockHash_flat:
  "wf_chain ch \<Longrightarrow> unat i < end_index ch \<Longrightarrow> getBlockHash_at i ch = Returns (bi_blockHash (chain_blocks ch ! unat i))"
proof (induction ch)
  case (Cons c ps)
  show ?case
  proof (cases "i < startIndex c")
    case True
    with Cons chain_nth_below [OF Cons.prems(1) True] show ?thesis by simp
  next
    case False
    with Cons.prems block_at_flat [of c ps i] segment_nth(3) [of c ps i] show ?thesis by (simp del: wf_chain.simps chain_blocks.simps)
  qed
qed simp

lemma getAlreadyGeneratedCoins_flat:
  "wf_chain ch \<Longrightarrow> unat i < end_index ch
     \<Longrightarrow> getAlreadyGeneratedCoins i ch = Returns (bi_alreadyGeneratedCoins (chain_blocks ch ! unat i))"
proof (induction ch)
  case (Cons c ps)
  show ?case
  proof (cases "i < startIndex c")
    case True
    with Cons chain_nth_below [OF Cons.prems(1) True] show ?thesis by simp
  next
    case False
    with Cons.prems block_at_flat [of c ps i] show ?thesis by (simp del: wf_chain.simps chain_blocks.simps)
  qed
qed simp

lemma getAlreadyGeneratedTransactions_flat:
  "wf_chain ch \<Longrightarrow> unat i < end_index ch
     \<Longrightarrow> getAlreadyGeneratedTransactions i ch = Returns (bi_alreadyGeneratedTransactions (chain_blocks ch ! unat i))"
proof (induction ch)
  case (Cons c ps)
  show ?case
  proof (cases "i < startIndex c")
    case True
    with Cons chain_nth_below [OF Cons.prems(1) True] show ?thesis by simp
  next
    case False
    with Cons.prems block_at_flat [of c ps i] show ?thesis by (simp del: wf_chain.simps chain_blocks.simps)
  qed
qed simp

lemma getBlockByIndex_flat:
  "wf_chain ch \<Longrightarrow> unat i < end_index ch \<Longrightarrow> getBlockByIndex i ch = Returns (chain_storage ch ! unat i)"
proof (induction ch)
  case (Cons c ps)
  show ?case
  proof (cases "i < startIndex c")
    case True
    with Cons chain_nth_below [OF Cons.prems(1) True] show ?thesis by simp
  next
    case False
    have "unat (storage_getBlockCount (storage c)) = length (blockInfos c)"
      using wf_blocks_ok [OF Cons.prems(1)] by (simp add: storage_getBlockCount_def blocks_ok_def unat_word_of_nat)
    moreover have "startIndex c \<le> i" using False by simp
    note segment_nth [OF Cons.prems(1) this Cons.prems(2)]
    ultimately show ?thesis
      using False by (simp add: storage_getBlockByIndex_def linorder_not_le word_less_nat_alt del: chain_storage.simps)
  qed
qed simp

text \<open>The window of the last values is the end of the flat chain up to the block, without the genesis block if so asked.\<close>

definition window :: "nat \<Rightarrow> nat \<Rightarrow> bool \<Rightarrow> CachedBlockInfo list \<Rightarrow> CachedBlockInfo list" where
  "window cnt i useGenesis bs = drop (max (if useGenesis then 0 else 1) (i + 1 - cnt)) (take (i + 1) bs)"


lemma window_below: "n < length xs \<Longrightarrow> window cnt n g (xs @ ys) = window cnt n g xs"
  by (simp add: window_def)

lemma window_own:
  "xs \<noteq> [] \<Longrightarrow> length xs \<le> n \<Longrightarrow> cnt \<le> n + 1 - length xs \<Longrightarrow>
     window cnt n g (xs @ ys) = drop (n + 1 - length xs - cnt) (take (n + 1 - length xs) ys)"
  by (auto simp: window_def max_def Suc_diff_le neq_Nil_conv add.commute)

lemma window_both:
  "xs \<noteq> [] \<Longrightarrow> length xs \<le> n \<Longrightarrow> n + 1 - length xs < cnt \<Longrightarrow>
     window cnt n g (xs @ ys) = window (cnt - (n + 1 - length xs)) (length xs - 1) g xs @ take (n + 1 - length xs) ys"
  by (auto simp: window_def max_def neq_Nil_conv)

lemma window_root:
  "window cnt n g xs = drop (if \<not> g \<and> n + 1 - min cnt (n + 1) = 0 then 1 else n + 1 - min cnt (n + 1)) (take (n + 1) xs)"
  by (auto simp: window_def max_def min_def)

lemma unat_offset:
  assumes "blocks_ok c ps" and "startIndex c \<le> i" and "unat i < end_index (c # ps)"
  shows "unat (i - startIndex c + 1) = unat i + 1 - end_index ps"
proof -
  note l = local_index [OF assms(1,2)]
  have "unat (i - startIndex c) + 1 < 2 ^ 32" using l assms(1,3) by (auto simp: blocks_ok_def)
  then have "unat (i - startIndex c + 1) = unat (i - startIndex c) + 1" by (simp add: unat_add_lem [THEN iffD1])
  with l show ?thesis by simp
qed

lemma chain_blocks_nonempty: "full ch \<Longrightarrow> chain_blocks ch \<noteq> []"
  by (cases ch) (auto simp: full_def)

text \<open>The window over a segment \<open>ys\<close> on top of \<open>xs\<close>: \<open>t\<close> blocks come from the segment, the rest from below.\<close>

lemma window_parts:
  assumes "xs \<noteq> []" and "t = n + 1 - length xs" and "j = min n (length xs - 1)"
  shows "(if t < cnt then window (cnt - t) j g xs else []) @ drop (t - min cnt t) (take t ys) = window cnt n g (xs @ ys)"
proof (cases "n < length xs")
  case True
  then have "t = 0" "j = n" using assms by auto
  with window_below [OF True] show ?thesis by (cases "cnt = 0") (simp_all add: window_def)
next
  case False
  then have len: "length xs \<le> n" and j: "j = length xs - 1" using assms by auto
  show ?thesis
    using window_own [OF assms(1) len, folded assms(2)] window_both [OF assms(1) len, folded assms(2)] j
    by (cases "t < cnt") (simp_all add: not_less)
qed

lemma getLastUnits_flat:
  "full ch \<Longrightarrow> unat i < end_index ch
     \<Longrightarrow> getLastUnits cnt i g f ch = Returns (map f (window cnt (unat i) g (chain_blocks ch)))"
proof (induction ch arbitrary: i cnt)
  case (Cons c ps)
  note IH = Cons.IH and full = Cons.prems(1)
  have b: "blocks_ok c ps" and wf: "wf_chain ps" using Cons.prems(1) by (simp_all add: full_Cons)
  have top: "getTopBlockIndex c = Returns (word_of_nat (end_index (c # ps) - 1))" by (rule top_index(1) [OF Cons.prems(1)])
  have le: "i \<le> word_of_nat (end_index (c # ps) - 1)" using le_top_iff [OF Cons.prems(1)] Cons.prems(2) by blast
  define t where "t = (if i < startIndex c then 0 else unat (i - startIndex c + 1))"
  have t: "t = unat i + 1 - end_index ps" and t_le: "t \<le> length (blockInfos c)"
    using unat_offset [OF b, of i] below_segment [OF b, of i] Cons.prems(2) b by (auto simp: t_def not_less blocks_ok_def)
  show ?case
  proof (cases ps)
    case Nil
    with t t_le top le show ?thesis
      unfolding window_root by (simp add: t_def [symmetric] Let_def)
  next
    case (Cons p ps')
    have fp: "full ps" using full full_parent Cons by simp
    have e: "length (chain_blocks ps) = end_index ps" "chain_blocks ps \<noteq> []" "0 < end_index ps"
      using length_chain_blocks [OF wf] chain_blocks_nonempty [OF fp] by (metis length_greater_0_conv)+
    have ptop: "getTopBlockIndex p = Returns (word_of_nat (end_index ps - 1))"
      "unat (word_of_nat (end_index ps - 1) :: u32) = end_index ps - 1"
      using top_index fp Cons by auto
    define j where "j = min i (word_of_nat (end_index ps - 1))"
    have j: "unat j = min (unat i) (end_index ps - 1)"
      unfolding j_def min_def word_le_nat_alt ptop(2) using ptop(2) by simp
    have rec: "getLastUnits k j g f ps = Returns (map f (window k (unat j) g (chain_blocks ps)))" for k
      using IH [OF fp, of j k] j e(3) by simp
    have hd: "ps \<noteq> []" "hd ps = p" using Cons by simp_all
    have "getLastUnits cnt i g f (c # ps) =
        bindO (if min cnt t < cnt then getLastUnits (cnt - min cnt t) j g f ps else Returns [])
          (\<lambda>r. if length (blockInfos c) < t then Undefined
               else Returns (r @ map f (drop (t - min cnt t) (take t (blockInfos c)))))"
      by (simp only: getLastUnits.simps top bindO.simps le not_True_eq_False if_False t_def [symmetric] Let_def hd ptop(1)
            j_def [symmetric] simp_thms if_True)
    also have "\<dots> = Returns (map f ((if t < cnt then window (cnt - t) (unat j) g (chain_blocks ps) else [])
                        @ drop (t - min cnt t) (take t (blockInfos c))))"
      using t_le by (simp add: rec not_less min_def)
    also have "\<dots> = Returns (map f (window cnt (unat i) g (chain_blocks (c # ps))))"
      using window_parts [OF e(2), unfolded e(1), OF t j] by simp
    finally show ?thesis .
  qed
qed (simp add: full_def)


section \<open>Key images and outputs\<close>

lemma in_segment_bounds:
  assumes "wf_chain (c # ps)" and "in_segment c i"
  shows "end_index ps \<le> unat i" and "unat i < end_index (c # ps)"
  using assms local_index(2) [of c ps i] by (simp_all add: in_segment_def)

lemma chain_spent_below:
  "wf_chain ch \<Longrightarrow> s \<in> set (chain_spent ch) \<Longrightarrow> unat (ski_blockIndex s) < end_index ch"
proof (induction ch)
  case (Cons c ps)
  then show ?case using in_segment_bounds(2) [of c ps "ski_blockIndex s"]
    by (auto simp: spent_ok_def blocks_ok_def)
qed simp

lemma chain_transactions_below:
  "wf_chain ch \<Longrightarrow> t \<in> set (chain_transactions ch) \<Longrightarrow> unat (ti_blockIndex t) < end_index ch"
proof (induction ch)
  case (Cons c ps)
  then show ?case using in_segment_bounds(2) [of c ps "ti_blockIndex t"]
    by (auto simp: transactions_ok_def blocks_ok_def)
qed simp

lemma own_outputs_in_segment:
  "outputs_ok c ps amt \<Longrightarrow> p \<in> set (own_outputs amt c) \<Longrightarrow> in_segment c (poi_blockIndex p)"
  by (auto simp: outputs_ok_def own_outputs_def split: option.splits)

lemma chain_outputs_below:
  "wf_chain ch \<Longrightarrow> p \<in> set (chain_outputs amt ch) \<Longrightarrow> unat (poi_blockIndex p) < end_index ch"
proof (induction ch)
  case (Cons c ps)
  then show ?case
    using in_segment_bounds(2) [of c ps "poi_blockIndex p"] own_outputs_in_segment [of c ps amt p]
    by (auto simp: blocks_ok_def)
qed simp

lemma checkIfSpent_flat:
  "wf_chain ch \<Longrightarrow> ch \<noteq> []
     \<Longrightarrow> checkIfSpent_at kimg i ch = Returns (\<exists>s \<in> set (chain_spent ch). ski_keyImage s = kimg \<and> ski_blockIndex s \<le> i)"
proof (induction ch)
  case (Cons c ps)
  have wf: "wf_chain ps" and b: "blocks_ok c ps" and sp: "spent_ok c ps" using Cons.prems(1) by simp_all
  show ?case
  proof (cases "i < startIndex c")
    case True
    then have "ps \<noteq> []" using below_segment [OF b, of i] by (cases ps) simp_all
    moreover have "\<not> ski_blockIndex s \<le> i" if "s \<in> set (spentKeyImages c)" for s
    proof -
      have "startIndex c \<le> ski_blockIndex s" using that sp by (simp add: spent_ok_def in_segment_def)
      with True show ?thesis by (simp add: not_le less_le_trans)
    qed
    then have "(\<exists>s \<in> set (chain_spent (c # ps)). ski_keyImage s = kimg \<and> ski_blockIndex s \<le> i)
        \<longleftrightarrow> (\<exists>s \<in> set (chain_spent ps). ski_keyImage s = kimg \<and> ski_blockIndex s \<le> i)" by auto
    ultimately show ?thesis using Cons.IH [OF wf] True by simp
  next
    case False
    show ?thesis
    proof (cases "List.find (\<lambda>s. ski_keyImage s = kimg) (spentKeyImages c)")
      case None
      then have "\<forall>s \<in> set (spentKeyImages c). ski_keyImage s \<noteq> kimg" by (simp add: find_None_iff_all)
      with None False Cons.IH [OF wf] show ?thesis by (cases "ps = []") auto
    next
      case (Some s)
      have s: "s \<in> set (chain_spent (c # ps))" "ski_keyImage s = kimg" using find_Some_in [OF Some] by auto
      have "inj_on ski_keyImage (set (chain_spent (c # ps)))" using sp unfolding spent_ok_def distinct_map by blast
      with s have "(\<exists>s' \<in> set (chain_spent (c # ps)). ski_keyImage s' = kimg \<and> ski_blockIndex s' \<le> i) \<longleftrightarrow> ski_blockIndex s \<le> i"
        by (metis inj_onD)
      with Some False show ?thesis by simp
    qed
  qed
qed simp

lemma checkIfSpent_any_flat: "checkIfSpent_any kimg ch \<longleftrightarrow> kimg \<in> ski_keyImage ` set (chain_spent ch)"
  by (induction ch) auto

lemma sorted_split_filter:
  assumes "sorted (map f xs)"
  shows "takeWhile (\<lambda>x. f x < k) xs = filter (\<lambda>x. f x < (k :: 'b :: linorder)) xs"
    and "dropWhile (\<lambda>x. f x < k) xs = filter (\<lambda>x. \<not> f x < k) xs"
  using assms
proof (induction xs)
  case (Cons x xs)
  have rest: "\<forall>y \<in> set xs. \<not> f y < k" if "\<not> f x < k" "sorted (map f (x # xs))"
    using that by (auto simp: not_less intro: order_trans)
  { case 1 with Cons rest show ?case by (cases "f x < k") simp_all }
  { case 2 with Cons rest show ?case by (cases "f x < k") simp_all }
qed simp_all

lemma getKeyOutputsCount_flat:
  "wf_chain ch \<Longrightarrow> ch \<noteq> [] \<Longrightarrow> startIndex (hd ch) \<le> i
     \<Longrightarrow> getKeyOutputsCountForAmount amt i ch = length (filter (\<lambda>p. poi_blockIndex p < i) (chain_outputs amt ch))"
proof (induction ch)
  case (Cons c ps)
  have wf: "wf_chain ps" and b: "blocks_ok c ps" and o: "outputs_ok c ps amt" using Cons.prems(1) by auto
  have "end_index ps \<le> unat i" using local_index(2) [OF b] Cons.prems by simp
  then have all: "filter (\<lambda>p. poi_blockIndex p < i) (chain_outputs amt ps) = chain_outputs amt ps"
    using chain_outputs_below [OF wf] by (fastforce simp: filter_id_conv word_less_nat_alt)
  have start: "startIndex (hd ps) \<le> i" if "ps \<noteq> []"
    using that \<open>end_index ps \<le> unat i\<close> by (cases ps) (auto simp: word_le_nat_alt)
  show ?case
  proof (cases "keyOutputsGlobalIndexes c amt")
    case None
    with Cons.IH [OF wf _ start] show ?thesis by (cases "ps = []") (auto simp: own_outputs_def)
  next
    case (Some e)
    with o all show ?thesis by (simp add: outputs_ok_def own_outputs_def sorted_split_filter)
  qed
qed simp


section \<open>Extracting outputs\<close>

definition transaction_at :: "CachedTransactionInfo list \<Rightarrow> PackedOutIndex \<Rightarrow> CachedTransactionInfo option" where
  "transaction_at txs p =
     List.find (\<lambda>t. ti_blockIndex t = poi_blockIndex p \<and> ti_transactionIndex t = ucast (poi_transactionIndex p)) txs"

text \<open>Extraction from the flat chain: the global index of an output is its position among the outputs of its amount.\<close>

fun flat_extract :: "'s extractor \<Rightarrow> CachedTransactionInfo list \<Rightarrow> PackedOutIndex list \<Rightarrow> u32 list \<Rightarrow> 's
    \<Rightarrow> (ExtractOutputKeysResult \<times> 's) outcome" where
  "flat_extract pred txs outs [] acc = Returns (SUCCESS, acc)"
| "flat_extract pred txs outs (g # gs) acc =
     (if length outs \<le> unat g then Returns (INVALID_GLOBAL_INDEX, acc)
      else case transaction_at txs (outs ! unat g) of
             None \<Rightarrow> Returns (INVALID_GLOBAL_INDEX, acc)
           | Some t \<Rightarrow> bindO (pred t (outs ! unat g) g acc) (\<lambda>(ret, acc').
               if ret \<noteq> SUCCESS then Returns (ret, acc') else flat_extract pred txs outs gs acc'))"

lemma bindO_assoc: "bindO (bindO m f) g = bindO m (\<lambda>x. bindO (f x) g)"
  by (cases m) simp_all

lemma flat_extract_append:
  "flat_extract pred txs outs (xs @ ys) acc =
     bindO (flat_extract pred txs outs xs acc) (\<lambda>(ret, acc').
       if ret \<noteq> SUCCESS then Returns (ret, acc') else flat_extract pred txs outs ys acc')"
proof (induction xs arbitrary: acc)
  case (Cons g xs)
  show ?case
    by (auto simp: bindO_assoc Cons split: option.split intro!: arg_cong [where f = "bindO _"])
qed simp

lemma find_append: "List.find P (xs @ ys) = (case List.find P xs of None \<Rightarrow> List.find P ys | Some x \<Rightarrow> Some x)"
  by (induction xs) auto

lemma transaction_at_below:
  assumes "wf_chain (c # ps)" and "unat (poi_blockIndex p) < end_index ps"
  shows "transaction_at (chain_transactions (c # ps)) p = transaction_at (chain_transactions ps) p"
proof -
  have "end_index ps \<le> unat (ti_blockIndex t)" if "t \<in> set (cachedTransactions c)" for t
    using in_segment_bounds(1) [OF assms(1)] that assms(1) by (simp add: transactions_ok_def)
  then have "\<forall>t \<in> set (cachedTransactions c). ti_blockIndex t \<noteq> poi_blockIndex p" using assms(2) by fastforce
  then have "List.find (\<lambda>t. ti_blockIndex t = poi_blockIndex p \<and> ti_transactionIndex t = ucast (poi_transactionIndex p))
      (cachedTransactions c) = None" by (auto simp: find_None_iff_all)
  then show ?thesis by (simp add: transaction_at_def find_append split: option.split)
qed

lemma transaction_at_own:
  assumes "wf_chain (c # ps)" and "in_segment c (poi_blockIndex p)"
  shows "transaction_at (chain_transactions (c # ps)) p = find_transaction c (poi_blockIndex p) (poi_transactionIndex p)"
proof -
  have "\<forall>t \<in> set (chain_transactions ps). ti_blockIndex t \<noteq> poi_blockIndex p"
    using chain_transactions_below [of ps] in_segment_bounds(1) [OF assms] assms(1) by fastforce
  then have "List.find (\<lambda>t. ti_blockIndex t = poi_blockIndex p \<and> ti_transactionIndex t = ucast (poi_transactionIndex p))
      (chain_transactions ps) = None" by (auto simp: find_None_iff_all)
  then show ?thesis by (simp add: transaction_at_def find_append find_transaction_def)
qed

lemma flat_extract_below:
  assumes "wf_chain (c # ps)" and "\<forall>g \<in> set gs. unat g < length (chain_outputs amt ps) \<or> own_outputs amt c = []"
  shows "flat_extract pred (chain_transactions (c # ps)) (chain_outputs amt (c # ps)) gs acc
       = flat_extract pred (chain_transactions ps) (chain_outputs amt ps) gs acc"
  using assms(2)
proof (induction gs arbitrary: acc)
  case (Cons g gs)
  show ?case
  proof (cases "unat g < length (chain_outputs amt ps)")
    case True
    then have "unat (poi_blockIndex (chain_outputs amt ps ! unat g)) < end_index ps"
      using chain_outputs_below [of ps "chain_outputs amt ps ! unat g" amt] assms(1) by simp
    note tx = transaction_at_below [OF assms(1) this]
    have nth: "chain_outputs amt (c # ps) ! unat g = chain_outputs amt ps ! unat g"
      and len: "length (chain_outputs amt (c # ps)) \<le> unat g \<longleftrightarrow> False" "length (chain_outputs amt ps) \<le> unat g \<longleftrightarrow> False"
      using True by (simp_all add: nth_append)
    have rest: "\<forall>g \<in> set gs. unat g < length (chain_outputs amt ps) \<or> own_outputs amt c = []" using Cons.prems by auto
    show ?thesis by (simp only: flat_extract.simps nth tx len Cons.IH [OF rest])
  qed (use Cons.prems in auto)
qed simp

lemma extract_own_flat:
  assumes wf: "wf_chain (c # ps)" and e: "keyOutputsGlobalIndexes c amt = Some e"
    and gs: "\<forall>g \<in> set gs. oi_startIndex e \<le> g" and i: "end_index (c # ps) \<le> unat i + 1"
  shows "extract_own pred i e c gs acc = flat_extract pred (chain_transactions (c # ps)) (chain_outputs amt (c # ps)) gs acc"
  using gs
proof (induction gs arbitrary: acc)
  case (Cons g gs)
  have o: "outputs_ok c ps amt" using wf by simp
  have g: "unat (g - oi_startIndex e) = unat g - length (chain_outputs amt ps)" "length (chain_outputs amt ps) \<le> unat g"
    using Cons.prems o e by (simp_all add: unat_sub_ge outputs_ok_def word_le_nat_alt)
  have outs: "chain_outputs amt (c # ps) = chain_outputs amt ps @ oi_outputs e" using e by (simp add: own_outputs_def)
  show ?case
  proof (cases "length (chain_outputs amt (c # ps)) \<le> unat g")
    case True
    then show ?thesis using g outs by (simp add: le_diff_conv2)
  next
    case False
    define p where "p = oi_outputs e ! unat (g - oi_startIndex e)"
    have p: "chain_outputs amt (c # ps) ! unat g = p" "p \<in> set (own_outputs amt c)"
      using False g outs e by (auto simp: p_def nth_append own_outputs_def intro!: nth_mem)
    have seg: "in_segment c (poi_blockIndex p)" by (rule own_outputs_in_segment [OF o p(2)])
    have guards: "poi_blockIndex p \<le> i \<longleftrightarrow> True" "startIndex c \<le> poi_blockIndex p \<longleftrightarrow> True"
      "length (oi_outputs e) \<le> unat (g - oi_startIndex e) \<longleftrightarrow> False" "length (chain_outputs amt (c # ps)) \<le> unat g \<longleftrightarrow> False"
      using in_segment_bounds(2) [OF wf seg] i seg False g outs by (simp_all add: word_le_nat_alt in_segment_def)
    have rest: "\<forall>g \<in> set gs. oi_startIndex e \<le> g" using Cons.prems by simp
    show ?thesis
      by (simp only: extract_own.simps flat_extract.simps guards p(1) transaction_at_own [OF wf seg] p_def [symmetric]
            Cons.IH [OF rest] Let_def simp_thms if_False)
  qed
qed simp

lemma extractKeyOutputs_flat:
  assumes "full ch" and "gs \<noteq> []" and "sorted_wrt (<) gs" and "end_index ch \<le> unat i + 1"
  shows "extractKeyOutputs amt i gs pred acc ch = flat_extract pred (chain_transactions ch) (chain_outputs amt ch) gs acc"
  using assms
proof (induction ch arbitrary: gs acc)
  case (Cons c ps)
  have wf: "wf_chain (c # ps)" and ne: "blockInfos c \<noteq> []" using Cons.prems(1) unfolding full_Cons by blast+
  have b: "blocks_ok c ps" using wf by simp
  have start: "\<not> i < startIndex c" using ne Cons.prems(4) by (cases "blockInfos c") (auto simp: word_less_nat_alt)
  have parent: "full ps" "end_index ps \<le> unat i + 1" if "ps \<noteq> []"
    using that Cons.prems(1,4) full_parent b by (cases ps; auto simp: blocks_ok_def)+
  show ?case
  proof (cases "keyOutputsGlobalIndexes c amt")
    case None
    then have own: "own_outputs amt c = []" by (simp add: own_outputs_def)
    show ?thesis
    proof (cases "ps = []")
      case True
      with None Cons.prems(2,3) start own show ?thesis by (cases gs) simp_all
    next
      case False
      with None Cons.prems(2,3) start own flat_extract_below [OF wf, of gs amt pred acc] Cons.IH [OF parent(1) _ _ parent(2)]
      show ?thesis by (simp del: chain_transactions.simps chain_outputs.simps)
    qed
  next
    case (Some e)
    define low where "low = takeWhile (\<lambda>g. g < oi_startIndex e) gs"
    define own where "own = dropWhile (\<lambda>g. g < oi_startIndex e) gs"
    have gs: "gs = low @ own" by (simp add: low_def own_def)
    have o: "outputs_ok c ps amt" using wf by simp
    then have s: "unat (oi_startIndex e) = length (chain_outputs amt ps)" "oi_outputs e \<noteq> []" using Some by (simp_all add: outputs_ok_def)
    have low: "\<forall>g \<in> set low. unat g < length (chain_outputs amt ps) \<or> own_outputs amt c = []"
      using s(1) set_takeWhileD [of _ "\<lambda>g. g < oi_startIndex e" gs] by (fastforce simp: low_def word_less_nat_alt)
    have "sorted gs" using Cons.prems(3) by (rule strict_sorted_imp_sorted)
    then have own: "\<forall>g \<in> set own. oi_startIndex e \<le> g"
      using sorted_split_filter(2) [of "\<lambda>g. g" gs "oi_startIndex e"] by (simp add: own_def not_less)
    have lower: "(if low \<noteq> [] then extractKeyOutputs amt i low pred acc ps else Returns (SUCCESS, acc))
        = flat_extract pred (chain_transactions (c # ps)) (chain_outputs amt (c # ps)) low acc"
    proof (cases "low = []")
      case False
      then have "ps \<noteq> []" using low s(2) Some by (cases ps) (auto simp: own_outputs_def neq_Nil_conv)
      moreover have "sorted_wrt (<) low" using Cons.prems(3) by (simp add: gs sorted_wrt_append)
      ultimately show ?thesis
        using False Cons.IH [OF parent(1) _ _ parent(2)] flat_extract_below [OF wf low, of pred acc] by simp
    qed simp
    show ?thesis
      unfolding gs flat_extract_append extract_own_flat [OF wf Some own Cons.prems(4), symmetric] lower [symmetric]
      using Cons.prems(2,3) start Some
      by (simp add: gs [symmetric] low_def [symmetric] own_def [symmetric] Let_def s(2) cong: if_cong)
  qed
qed (simp add: full_def)

end
