(* ===== verification/ChainSplit.thy ===== *)
theory ChainSplit
  imports ChainView
begin

text \<open>
  Splitting a segment (\<open>BlockchainCache::split\<close>): the two parts are well formed again and stand for the same flat
  chain, so no query on the upper part can tell that the segment was split.
\<close>

section \<open>The parts of the containers\<close>

lemma split_entry_parts:
  fixes i :: u32 and e :: OutputGlobalIndexesForAmount
  defines "low \<equiv> takeWhile (\<lambda>p. poi_blockIndex p < i) (oi_outputs e)"
    and "up \<equiv> dropWhile (\<lambda>p. poi_blockIndex p < i) (oi_outputs e)"
  shows "fst (split_entry i e) = (if low = [] then None else Some (e\<lparr> oi_outputs := low \<rparr>))"
    and "snd (split_entry i e) = (if up = [] then None
           else Some \<lparr> oi_startIndex = oi_startIndex e + word_of_nat (length low), oi_outputs = up \<rparr>)"
proof -
  have split: "oi_outputs e = low @ up" by (simp add: low_def up_def)
  have parts: "take (length low) (oi_outputs e) = low" "drop (length low) (oi_outputs e) = up" by (simp_all add: split)
  show "fst (split_entry i e) = (if low = [] then None else Some (e\<lparr> oi_outputs := low \<rparr>))"
    by (simp only: split_entry_def Let_def low_def [symmetric] parts fst_conv)
  have n: "length (oi_outputs e) - length low = length up" by (simp add: split)
  have "oi_startIndex e + word_of_nat (length (oi_outputs e)) - word_of_nat (length up)
      = (oi_startIndex e + word_of_nat (length low) :: u32)" by (simp add: split)
  then show "snd (split_entry i e) = (if up = [] then None
      else Some \<lparr> oi_startIndex = oi_startIndex e + word_of_nat (length low), oi_outputs = up \<rparr>)"
    unfolding split_entry_def Let_def low_def [symmetric] n parts by simp
qed

text \<open>The segments a split makes, and the index it is made at.\<close>

definition lower_part :: "u32 \<Rightarrow> BlockchainCache \<Rightarrow> BlockchainCache" where
  "lower_part i c = (let n = unat (i - startIndex c) in
     \<lparr> startIndex = startIndex c, cachedTransactions = fst (splitTransactions i (cachedTransactions c)),
       spentKeyImages = fst (splitSpentKeyImages i (spentKeyImages c)), blockInfos = take n (blockInfos c),
       keyOutputsGlobalIndexes = fst (splitKeyOutputsGlobalIndexes i (keyOutputsGlobalIndexes c)),
       paymentIds = fst (splitPaymentIds (snd (splitTransactions i (cachedTransactions c))) (paymentIds c)),
       storage = take n (storage c) \<rparr>)"

definition upper_part :: "u32 \<Rightarrow> BlockchainCache \<Rightarrow> BlockchainCache" where
  "upper_part i c = (let n = unat (i - startIndex c) in
     \<lparr> startIndex = i, cachedTransactions = snd (splitTransactions i (cachedTransactions c)),
       spentKeyImages = snd (splitSpentKeyImages i (spentKeyImages c)), blockInfos = drop n (blockInfos c),
       keyOutputsGlobalIndexes = snd (splitKeyOutputsGlobalIndexes i (keyOutputsGlobalIndexes c)),
       paymentIds = snd (splitPaymentIds (snd (splitTransactions i (cachedTransactions c))) (paymentIds c)),
       storage = drop n (storage c) \<rparr>)"

definition splits_at :: "u32 \<Rightarrow> BlockchainCache \<Rightarrow> chain \<Rightarrow> bool" where
  "splits_at i c ps \<longleftrightarrow> full (c # ps) \<and> startIndex c < i \<and> unat i < end_index (c # ps)"

lemma splits_at_facts:
  assumes "splits_at i c ps"
  shows "wf_chain (c # ps)" and "blocks_ok c ps" and "startIndex c \<le> i"
    and "unat (i - startIndex c) = unat i - unat (startIndex c)"
    and "0 < unat (i - startIndex c)" and "unat (i - startIndex c) < length (blockInfos c)"
    and "unat i = unat (startIndex c) + unat (i - startIndex c)"
proof -
  show wf: "wf_chain (c # ps)" using assms unfolding splits_at_def full_Cons by blast
  then show "blocks_ok c ps" by simp
  show le: "startIndex c \<le> i" using assms unfolding splits_at_def by (blast intro: less_imp_le)
  from le show n: "unat (i - startIndex c) = unat i - unat (startIndex c)" by (rule unat_sub_ge)
  have "unat (startIndex c) < unat i" "unat i < unat (startIndex c) + length (blockInfos c)"
    using assms by (simp_all add: splits_at_def word_less_nat_alt)
  with n show "0 < unat (i - startIndex c)" "unat (i - startIndex c) < length (blockInfos c)"
    "unat i = unat (startIndex c) + unat (i - startIndex c)" by linarith+
qed

lemma split_segment_parts:
  assumes "splits_at i c ps"
  shows "split_segment i c = Returns (lower_part i c, upper_part i c)"
proof -
  note f = splits_at_facts [OF assms]
  have full: "full (c # ps)" and less: "startIndex c < i" and below: "unat i < end_index (c # ps)"
    using assms unfolding splits_at_def by blast+
  have "i \<le> word_of_nat (end_index (c # ps) - 1)" using le_top_iff [OF full] below by blast
  moreover have "splitStorage (storage c) (i - startIndex c)
      = Returns (take (unat (i - startIndex c)) (storage c), drop (unat (i - startIndex c)) (storage c))"
    using f(2,5,6) by (simp add: splitStorage_def blocks_ok_def word_less_nat_alt)
  ultimately show ?thesis
    using f(6) less top_index(1) [OF full]
    by (simp add: split_segment_def split_containers_def lower_part_def upper_part_def Let_def split_beta
        del: end_index_simps)
qed


section \<open>The parts are well formed\<close>

lemma in_lower_part:
  assumes "splits_at i c ps" and "in_segment c j" and "j < i"
  shows "in_segment (lower_part i c) j"
  using splits_at_facts [OF assms(1)] assms(2,3)
  by (simp add: in_segment_def lower_part_def Let_def word_less_nat_alt)

lemma in_upper_part:
  assumes "splits_at i c ps" and "in_segment c j" and "\<not> j < i"
  shows "in_segment (upper_part i c) j"
  using splits_at_facts [OF assms(1)] assms(2,3)
  by (simp add: in_segment_def upper_part_def Let_def not_less)

lemma split_own_outputs:
  shows "own_outputs amt (lower_part i c) = takeWhile (\<lambda>p. poi_blockIndex p < i) (own_outputs amt c)"
    and "own_outputs amt (upper_part i c) = dropWhile (\<lambda>p. poi_blockIndex p < i) (own_outputs amt c)"
  by (cases "keyOutputsGlobalIndexes c amt";
      simp add: own_outputs_def lower_part_def upper_part_def Let_def splitKeyOutputsGlobalIndexes_def split_entry_parts
        del: dropWhile_eq_Nil_conv takeWhile_eq_Nil_iff)+

lemma split_sequences:
  assumes "splits_at i c ps"
  shows "blockInfos (lower_part i c) @ blockInfos (upper_part i c) = blockInfos c"
    and "storage (lower_part i c) @ storage (upper_part i c) = storage c"
    and "cachedTransactions (lower_part i c) @ cachedTransactions (upper_part i c) = cachedTransactions c"
    and "spentKeyImages (lower_part i c) @ spentKeyImages (upper_part i c) = spentKeyImages c"
    and "own_outputs amt (lower_part i c) @ own_outputs amt (upper_part i c) = own_outputs amt c"
proof -
  have "sorted (map ti_blockIndex (cachedTransactions c))" "sorted (map ski_blockIndex (spentKeyImages c))"
    using splits_at_facts(1) [OF assms] by (simp_all add: transactions_ok_def spent_ok_def)
  note sorted_split_filter [OF this(1), symmetric] sorted_split_filter [OF this(2), symmetric]
  then show "cachedTransactions (lower_part i c) @ cachedTransactions (upper_part i c) = cachedTransactions c"
    "spentKeyImages (lower_part i c) @ spentKeyImages (upper_part i c) = spentKeyImages c"
    by (simp_all add: lower_part_def upper_part_def Let_def splitTransactions_def splitSpentKeyImages_def)
qed (simp_all add: split_own_outputs, simp_all add: lower_part_def upper_part_def Let_def)

lemma split_flat:
  assumes "splits_at i c ps"
  shows "chain_blocks (upper_part i c # lower_part i c # ps) = chain_blocks (c # ps)"
    and "chain_storage (upper_part i c # lower_part i c # ps) = chain_storage (c # ps)"
    and "chain_transactions (upper_part i c # lower_part i c # ps) = chain_transactions (c # ps)"
    and "chain_spent (upper_part i c # lower_part i c # ps) = chain_spent (c # ps)"
    and "chain_outputs amt (upper_part i c # lower_part i c # ps) = chain_outputs amt (c # ps)"
    and "end_index (upper_part i c # lower_part i c # ps) = end_index (c # ps)"
proof -
  have "unat i + (length (blockInfos c) - unat (i - startIndex c)) = unat (startIndex c) + length (blockInfos c)"
    using splits_at_facts(6,7) [OF assms] by linarith
  then show "end_index (upper_part i c # lower_part i c # ps) = end_index (c # ps)"
    by (simp add: upper_part_def Let_def)
qed (simp_all add: split_sequences [OF assms])

lemma split_blocks_ok:
  assumes "splits_at i c ps"
  shows "blocks_ok (lower_part i c) ps" and "blocks_ok (upper_part i c) (lower_part i c # ps)"
    and "blockInfos (lower_part i c) \<noteq> []" and "blockInfos (upper_part i c) \<noteq> []"
proof -
  note f = splits_at_facts [OF assms]
  have d: "distinct (map bi_blockHash (take n (blockInfos c)))" "distinct (map bi_blockHash (drop n (blockInfos c)))" for n
    using f(2) by (simp_all add: blocks_ok_def take_map [symmetric] drop_map [symmetric])
  show "blocks_ok (lower_part i c) ps" using f(2,6) d by (simp add: blocks_ok_def lower_part_def Let_def)
  have "unat i + (length (blockInfos c) - unat (i - startIndex c)) = unat (startIndex c) + length (blockInfos c)"
    using f(6,7) by linarith
  with f(2,6,7) d show "blocks_ok (upper_part i c) (lower_part i c # ps)"
    by (simp add: blocks_ok_def lower_part_def upper_part_def Let_def)
  show "blockInfos (lower_part i c) \<noteq> []" "blockInfos (upper_part i c) \<noteq> []"
    using f(5,6) by (auto simp: lower_part_def upper_part_def Let_def)
qed

lemma split_spent_ok:
  assumes "splits_at i c ps"
  shows "spent_ok (lower_part i c) ps" and "spent_ok (upper_part i c) (lower_part i c # ps)"
proof -
  have ok: "spent_ok c ps" using splits_at_facts(1) [OF assms] by simp
  then have d: "distinct (map ski_keyImage (chain_spent (upper_part i c # lower_part i c # ps)))"
    unfolding split_flat(4) [OF assms] by (simp add: spent_ok_def)
  then have d': "distinct (map ski_keyImage (chain_spent (lower_part i c # ps)))"
    unfolding chain_spent.simps(2) [of "upper_part i c"] map_append distinct_append by blast
  have parts: "spentKeyImages (lower_part i c) = filter (\<lambda>s. ski_blockIndex s < i) (spentKeyImages c)"
    "spentKeyImages (upper_part i c) = filter (\<lambda>s. \<not> ski_blockIndex s < i) (spentKeyImages c)"
    by (simp_all add: lower_part_def upper_part_def Let_def splitSpentKeyImages_def)
  have s: "sorted (map ski_blockIndex (filter P (spentKeyImages c)))" for P using ok by (simp add: spent_ok_def sorted_filter)
  have "\<forall>s \<in> set (spentKeyImages c). in_segment c (ski_blockIndex s)" using ok by (simp add: spent_ok_def)
  then have "\<forall>s \<in> set (spentKeyImages (lower_part i c)). in_segment (lower_part i c) (ski_blockIndex s)"
    "\<forall>s \<in> set (spentKeyImages (upper_part i c)). in_segment (upper_part i c) (ski_blockIndex s)"
    using in_lower_part [OF assms] in_upper_part [OF assms] by (simp_all add: parts)
  with d d' s show "spent_ok (lower_part i c) ps" "spent_ok (upper_part i c) (lower_part i c # ps)"
    unfolding spent_ok_def by (simp_all only: parts)
qed

lemma split_transactions_ok:
  assumes "splits_at i c ps"
  shows "transactions_ok (lower_part i c)" and "transactions_ok (upper_part i c)"
proof -
  have ok: "transactions_ok c" using splits_at_facts(1) [OF assms] by simp
  have parts: "cachedTransactions (lower_part i c) = filter (\<lambda>t. ti_blockIndex t < i) (cachedTransactions c)"
    "cachedTransactions (upper_part i c) = filter (\<lambda>t. \<not> ti_blockIndex t < i) (cachedTransactions c)"
    by (simp_all add: lower_part_def upper_part_def Let_def splitTransactions_def)
  have "\<forall>t \<in> set (cachedTransactions c). in_segment c (ti_blockIndex t)" using ok by (simp add: transactions_ok_def)
  then have "\<forall>t \<in> set (cachedTransactions (lower_part i c)). in_segment (lower_part i c) (ti_blockIndex t)"
    "\<forall>t \<in> set (cachedTransactions (upper_part i c)). in_segment (upper_part i c) (ti_blockIndex t)"
    using in_lower_part [OF assms] in_upper_part [OF assms] by (simp_all add: parts)
  with ok show "transactions_ok (lower_part i c)" "transactions_ok (upper_part i c)"
    unfolding transactions_ok_def by (simp_all add: parts sorted_filter distinct_map_filter)
qed

lemma split_outputs_ok:
  assumes "splits_at i c ps"
  shows "outputs_ok (lower_part i c) ps amt" and "outputs_ok (upper_part i c) (lower_part i c # ps) amt"
proof -
  have ok: "outputs_ok c ps amt" using splits_at_facts(1) [OF assms] by simp
  have keys: "keyOutputsGlobalIndexes (lower_part i c) amt = (case keyOutputsGlobalIndexes c amt of None \<Rightarrow> None | Some e \<Rightarrow> fst (split_entry i e))"
    "keyOutputsGlobalIndexes (upper_part i c) amt = (case keyOutputsGlobalIndexes c amt of None \<Rightarrow> None | Some e \<Rightarrow> snd (split_entry i e))"
    by (simp_all add: lower_part_def upper_part_def Let_def splitKeyOutputsGlobalIndexes_def)
  have "outputs_ok (lower_part i c) ps amt \<and> outputs_ok (upper_part i c) (lower_part i c # ps) amt"
  proof (cases "keyOutputsGlobalIndexes c amt")
    case None
    then show ?thesis by (simp add: outputs_ok_def keys)
  next
    case (Some e)
    define low where "low = takeWhile (\<lambda>p. poi_blockIndex p < i) (oi_outputs e)"
    define up where "up = dropWhile (\<lambda>p. poi_blockIndex p < i) (oi_outputs e)"
    have e: "oi_outputs e = low @ up" by (simp add: low_def up_def)
    have ok': "unat (oi_startIndex e) = length (chain_outputs amt ps)" "unat (oi_startIndex e) + length (oi_outputs e) < 2 ^ 32"
      "sorted (map poi_blockIndex (oi_outputs e))" "\<forall>p \<in> set (oi_outputs e). in_segment c (poi_blockIndex p)"
      using ok Some by (simp_all add: outputs_ok_def)
    have own: "own_outputs amt (lower_part i c) = low" using split_own_outputs(1) [of amt i c] Some by (simp add: own_outputs_def low_def)
    have f: "low = filter (\<lambda>p. poi_blockIndex p < i) (oi_outputs e)" "up = filter (\<lambda>p. \<not> poi_blockIndex p < i) (oi_outputs e)"
      using sorted_split_filter [OF ok'(3)] by (simp_all add: low_def up_def)
    have start: "unat (oi_startIndex e + word_of_nat (length low)) = unat (oi_startIndex e) + length low"
      using ok'(2) e by (simp add: unat_add_lem [THEN iffD1] unat_word_of_nat)
    have seg: "\<forall>p \<in> set low. in_segment (lower_part i c) (poi_blockIndex p)" "\<forall>p \<in> set up. in_segment (upper_part i c) (poi_blockIndex p)"
      using ok'(4) in_lower_part [OF assms] in_upper_part [OF assms] unfolding f by simp_all
    have "outputs_ok (lower_part i c) ps amt"
      unfolding outputs_ok_def keys Some option.case split_entry_parts low_def [symmetric]
      using ok' seg e by (simp add: sorted_append)
    moreover have "outputs_ok (upper_part i c) (lower_part i c # ps) amt"
      unfolding outputs_ok_def keys Some option.case split_entry_parts low_def [symmetric] up_def [symmetric]
      using ok' seg e start own by (simp add: sorted_append)
    ultimately show ?thesis by blast
  qed
  then show "outputs_ok (lower_part i c) ps amt" "outputs_ok (upper_part i c) (lower_part i c # ps) amt" by blast+
qed

lemma split_full:
  assumes "splits_at i c ps"
  shows "full (upper_part i c # lower_part i c # ps)"
  using splits_at_facts(1) [OF assms] split_blocks_ok [OF assms] split_spent_ok [OF assms] split_transactions_ok [OF assms]
    split_outputs_ok [OF assms]
  by (auto simp: full_Cons)


section \<open>No query can tell\<close>

lemma getLastTimestamps_flat:
  "full ch \<Longrightarrow> getLastTimestamps cnt ch = Returns (map bi_timestamp (window cnt (end_index ch - 1) False (chain_blocks ch)))"
proof (cases ch)
  case (Cons c ps)
  assume "full ch"
  then have f: "full (c # ps)" using Cons by simp
  have "unat (word_of_nat (end_index (c # ps) - 1) :: u32) < end_index (c # ps)"
    unfolding top_index(2) [OF f] using f by (auto simp: full_Cons neq_Nil_conv)
  note getLastUnits_flat [OF f this, unfolded top_index(2) [OF f]]
  then show ?thesis
    using top_index(1) [OF f] Cons
    by (simp add: getLastTimestamps_def getLastTimestamps_at_def top_of_def del: getLastUnits.simps end_index_simps)
qed (simp add: full_def)

lemma top_of_flat:
  assumes "full ch"
  shows "top_of ch = Returns (word_of_nat (end_index ch - 1))"
    and "end_index ch \<le> unat (word_of_nat (end_index ch - 1) :: u32) + 1"
    and "unat (word_of_nat (end_index ch - 1) :: u32) < end_index ch"
proof -
  obtain c ps where ch: "ch = c # ps" and f: "full (c # ps)" using assms by (cases ch) (auto simp: full_def)
  show "top_of ch = Returns (word_of_nat (end_index ch - 1))"
    unfolding ch top_of_def list.case by (rule top_index(1) [OF f])
  show "end_index ch \<le> unat (word_of_nat (end_index ch - 1) :: u32) + 1"
    "unat (word_of_nat (end_index ch - 1) :: u32) < end_index ch"
    unfolding ch top_index(2) [OF f] using f by (auto simp: full_Cons neq_Nil_conv)
qed

text \<open>Two chains that stand for the same flat chain give the same keys for a ring.\<close>

lemma extract_keys_cong:
  assumes "full ch" and "full ch'" and "gs \<noteq> []" and "sorted_wrt (<) gs"
    and "end_index ch' = end_index ch" and "chain_blocks ch' = chain_blocks ch"
    and "chain_transactions ch' = chain_transactions ch" and "chain_outputs amt ch' = chain_outputs amt ch"
  shows "extractKeyOutputKeys_top cur now amt gs ch' = extractKeyOutputKeys_top cur now amt gs ch"
proof -
  have key: "key_extractor cur now i ch' = key_extractor cur now i ch" for i
    by (intro ext) (simp only: key_extractor_def isTransactionSpendTimeUnlocked_def getLastTimestamps_flat [OF assms(1)]
        getLastTimestamps_flat [OF assms(2)] assms(5,6))
  have "extractKeyOutputKeys_top cur now amt gs x = flat_extract (key_extractor cur now (word_of_nat (end_index x - 1)) x)
      (chain_transactions x) (chain_outputs amt x) gs []" if "full x" for x
    unfolding extractKeyOutputKeys_top_def extractKeyOutputKeys_at_def top_of_flat(1) [OF that] bindO.simps
    by (rule extractKeyOutputs_flat [OF that assms(3,4) top_of_flat(2) [OF that]])
  with assms(1,2) show ?thesis by (simp only: key assms(5,7,8))
qed



text \<open>A root segment of three blocks, each with a coinbase transaction that pays 5, and one key image spent in block 1.\<close>

definition sample_info :: "nat \<Rightarrow> CachedBlockInfo" where
  "sample_info k = \<lparr> bi_blockHash = [word_of_nat k], bi_timestamp = word_of_nat (30 * k), bi_cumulativeDifficulty = word_of_nat (k + 1),
     bi_alreadyGeneratedCoins = word_of_nat (5 * k + 5), bi_alreadyGeneratedTransactions = word_of_nat (k + 1), bi_blockSize = 100 \<rparr>"

definition sample_tx :: "nat \<Rightarrow> CachedTransactionInfo" where
  "sample_tx k = \<lparr> ti_blockIndex = word_of_nat k, ti_transactionIndex = 0, ti_transactionHash = [word_of_nat k], ti_unlockTime = 0,
     ti_outputs = [KeyOutput [word_of_nat k]], ti_globalIndexes = [word_of_nat k] \<rparr>"

definition sample_segment :: BlockchainCache where
  "sample_segment = \<lparr> startIndex = 0, cachedTransactions = map sample_tx [0, 1, 2],
     spentKeyImages = [\<lparr> ski_blockIndex = 1, ski_keyImage = [9] \<rparr>], blockInfos = map sample_info [0, 1, 2],
     keyOutputsGlobalIndexes = [5 \<mapsto> \<lparr> oi_startIndex = 0, oi_outputs =
       map (\<lambda>k. \<lparr> poi_blockIndex = word_of_nat k, poi_transactionIndex = 0, poi_outputIndex = 0 \<rparr>) [0, 1, 2] \<rparr>],
     paymentIds = [], storage = replicate 3 \<lparr> block = [], raw_transactions = [] \<rparr> \<rparr>"

lemma sample_segment_full: "full [sample_segment]"
proof -
  have "\<forall>amt. outputs_ok sample_segment [] amt"
    by (simp add: sample_segment_def outputs_ok_def in_segment_def word_le_nat_alt)
  moreover have "blockInfos sample_segment \<noteq> []" by (simp add: sample_segment_def)
  moreover have "blocks_ok sample_segment []"
    by (simp add: sample_segment_def blocks_ok_def sample_info_def)
  moreover have "spent_ok sample_segment []"
    by (simp add: sample_segment_def spent_ok_def in_segment_def)
  moreover have "transactions_ok sample_segment"
    by (simp add: sample_segment_def transactions_ok_def in_segment_def sample_tx_def word_le_nat_alt)
  ultimately show ?thesis by (simp add: full_Cons)
qed


end
