(* ===== verification/ChainPush.thy ===== *)
theory ChainPush
  imports ChainSplit
begin

text \<open>
  Pushing a block (\<open>BlockchainCache::doPushBlock\<close>): it appends to the flat chain, keeps the invariant, and the global
  indices it hands out find the outputs of the block.
\<close>

section \<open>Adding outputs\<close>

text \<open>The segment while the transactions of its last block \<open>i\<close> are added; the raw block is stored at the end.\<close>

definition open_ok :: "BlockchainCache \<Rightarrow> chain \<Rightarrow> u32 \<Rightarrow> bool" where
  "open_ok c ps i \<longleftrightarrow> wf_chain ps \<and> (\<forall>p \<in> set ps. blockInfos p \<noteq> []) \<and> unat (startIndex c) = end_index ps
     \<and> unat i + 1 = end_index (c # ps) \<and> blockInfos c \<noteq> [] \<and> spent_ok c ps \<and> transactions_ok c \<and> (\<forall>amt. outputs_ok c ps amt)"

lemma in_segment_frame [simp]:
  "in_segment (c\<lparr> keyOutputsGlobalIndexes := m \<rparr>) j = in_segment c j"
  "in_segment (c\<lparr> cachedTransactions := txs \<rparr>) j = in_segment c j"
  "in_segment (c\<lparr> paymentIds := pids \<rparr>) j = in_segment c j"
  "in_segment (c\<lparr> spentKeyImages := sp \<rparr>) j = in_segment c j"
  "in_segment (c\<lparr> storage := st \<rparr>) j = in_segment c j"
  by (simp_all add: in_segment_def)

lemma own_outputs_frame [simp]:
  "own_outputs amt (c\<lparr> cachedTransactions := txs \<rparr>) = own_outputs amt c"
  "own_outputs amt (c\<lparr> paymentIds := pids \<rparr>) = own_outputs amt c"
  "own_outputs amt (c\<lparr> spentKeyImages := sp \<rparr>) = own_outputs amt c"
  "own_outputs amt (c\<lparr> blockInfos := bs \<rparr>) = own_outputs amt c"
  "own_outputs amt (c\<lparr> storage := st \<rparr>) = own_outputs amt c"
  by (simp_all add: own_outputs_def)

lemma ok_frame [simp]:
  "outputs_ok (c\<lparr> cachedTransactions := txs \<rparr>) ps amt = outputs_ok c ps amt"
  "outputs_ok (c\<lparr> paymentIds := pids \<rparr>) ps amt = outputs_ok c ps amt"
  "outputs_ok (c\<lparr> spentKeyImages := sp \<rparr>) ps amt = outputs_ok c ps amt"
  "outputs_ok (c\<lparr> storage := st \<rparr>) ps amt = outputs_ok c ps amt"
  "spent_ok (c\<lparr> keyOutputsGlobalIndexes := m \<rparr>) ps = spent_ok c ps"
  "spent_ok (c\<lparr> cachedTransactions := txs \<rparr>) ps = spent_ok c ps"
  "spent_ok (c\<lparr> paymentIds := pids \<rparr>) ps = spent_ok c ps"
  "spent_ok (c\<lparr> storage := st \<rparr>) ps = spent_ok c ps"
  "transactions_ok (c\<lparr> keyOutputsGlobalIndexes := m \<rparr>) = transactions_ok c"
  "transactions_ok (c\<lparr> paymentIds := pids \<rparr>) = transactions_ok c"
  "transactions_ok (c\<lparr> spentKeyImages := sp \<rparr>) = transactions_ok c"
  "transactions_ok (c\<lparr> storage := st \<rparr>) = transactions_ok c"
  by (simp_all add: outputs_ok_def spent_ok_def transactions_ok_def split: option.split)

lemma open_last:
  assumes "open_ok c ps i"
  shows "in_segment c i" and "in_segment c j \<Longrightarrow> j \<le> i"
proof -
  have "unat i + 1 = unat (startIndex c) + length (blockInfos c)" "blockInfos c \<noteq> []" using assms by (simp_all add: open_ok_def)
  then show "in_segment c i" "in_segment c j \<Longrightarrow> j \<le> i"
    by (auto simp: in_segment_def word_le_nat_alt neq_Nil_conv)
qed

lemma parents_count:
  assumes "open_ok c ps i"
  shows "(if ps \<noteq> [] then word_of_nat (getKeyOutputsCountForAmount amt i ps) else 0) = (word_of_nat (length (chain_outputs amt ps)) :: u32)"
proof (cases "ps = []")
  case False
  have wf: "wf_chain ps" and below: "end_index ps \<le> unat i" and "unat (startIndex c) = end_index ps"
    using assms open_last(1) [OF assms] by (simp_all add: open_ok_def in_segment_def word_le_nat_alt)
  have "startIndex (hd ps) \<le> i" using False below by (cases ps) (auto simp: word_le_nat_alt)
  moreover have "filter (\<lambda>p. poi_blockIndex p < i) (chain_outputs amt ps) = chain_outputs amt ps"
    using chain_outputs_below [OF wf] below by (fastforce simp: filter_id_conv word_less_nat_alt)
  ultimately show ?thesis using getKeyOutputsCount_flat [OF wf False] False by simp
qed simp

lemma insertKeyOutput_flat:
  assumes ok: "open_ok c ps i" and fits: "length (chain_outputs amt (c # ps)) + 1 < 2 ^ 32" and p: "poi_blockIndex p = i"
  obtains m where "insertKeyOutputToGlobalIndex amt p i c ps
        = (word_of_nat (length (chain_outputs amt (c # ps))), c\<lparr> keyOutputsGlobalIndexes := m \<rparr>)"
    and "open_ok (c\<lparr> keyOutputsGlobalIndexes := m \<rparr>) ps i"
    and "\<And>a. own_outputs a (c\<lparr> keyOutputsGlobalIndexes := m \<rparr>) = own_outputs a c @ (if a = amt then [p] else [])"
proof -
  have o: "outputs_ok c ps a" for a using ok by (simp add: open_ok_def)
  define s where "s = (case keyOutputsGlobalIndexes c amt of None \<Rightarrow> word_of_nat (length (chain_outputs amt ps)) | Some e \<Rightarrow> oi_startIndex e)"
  define e where "e = \<lparr> oi_startIndex = s, oi_outputs = own_outputs amt c @ [p] \<rparr>"
  define m where "m = (keyOutputsGlobalIndexes c)(amt \<mapsto> e)"
  have s: "unat s = length (chain_outputs amt ps)"
    using o [of amt] fits by (auto simp: s_def outputs_ok_def own_outputs_def unat_word_of_nat split: option.splits)
  have "s = word_of_nat (length (chain_outputs amt ps))" unfolding s [symmetric] by simp
  then have "s + word_of_nat (length (own_outputs amt c @ [p])) - 1 = word_of_nat (length (chain_outputs amt (c # ps)))" by simp
  moreover have "(case keyOutputsGlobalIndexes c amt of Some e \<Rightarrow> e\<lparr> oi_outputs := oi_outputs e @ [p] \<rparr>
      | None \<Rightarrow> \<lparr> oi_startIndex = (if ps \<noteq> [] then word_of_nat (getKeyOutputsCountForAmount amt i ps) else 0),
                   oi_outputs = [p] \<rparr>) = e"
    unfolding parents_count [OF ok] by (cases "keyOutputsGlobalIndexes c amt") (simp_all add: e_def s_def own_outputs_def)
  ultimately have "insertKeyOutputToGlobalIndex amt p i c ps
      = (word_of_nat (length (chain_outputs amt (c # ps))), c\<lparr> keyOutputsGlobalIndexes := m \<rparr>)"
    unfolding insertKeyOutputToGlobalIndex_def by (simp only: Let_def m_def e_def OutputGlobalIndexesForAmount.simps)
  moreover have own: "own_outputs a (c\<lparr> keyOutputsGlobalIndexes := m \<rparr>) = own_outputs a c @ (if a = amt then [p] else [])" for a
    by (simp add: own_outputs_def m_def e_def)
  moreover have "outputs_ok (c\<lparr> keyOutputsGlobalIndexes := m \<rparr>) ps a" for a
  proof (cases "a = amt")
    case True
    have "\<forall>q \<in> set (own_outputs amt c). in_segment c (poi_blockIndex q)" "sorted (map poi_blockIndex (own_outputs amt c))"
      using o [of amt] by (auto simp: outputs_ok_def own_outputs_def split: option.splits)
    then show ?thesis
      using True s fits p open_last [OF ok] by (auto simp: outputs_ok_def m_def e_def sorted_append)
  qed (use o [of a] in \<open>simp add: outputs_ok_def m_def split: option.splits\<close>)
  moreover from this have "open_ok (c\<lparr> keyOutputsGlobalIndexes := m \<rparr>) ps i" using ok by (auto simp: open_ok_def)
  ultimately show ?thesis using that by blast
qed


text \<open>The outputs of a transaction and of a block that have a given amount.\<close>

fun tx_outputs :: "u32 \<Rightarrow> u16 \<Rightarrow> nat \<Rightarrow> u64 \<Rightarrow> TransactionOutput list \<Rightarrow> PackedOutIndex list" where
  "tx_outputs i txi k amt [] = []"
| "tx_outputs i txi k amt (out # outs) =
     (if amt = out_amount out then [\<lparr> poi_blockIndex = i, poi_transactionIndex = txi, poi_outputIndex = word_of_nat k \<rparr>] else [])
     @ tx_outputs i txi (Suc k) amt outs"

fun block_outputs :: "u32 \<Rightarrow> nat \<Rightarrow> u64 \<Rightarrow> Transaction list \<Rightarrow> PackedOutIndex list" where
  "block_outputs i txi amt [] = []"
| "block_outputs i txi amt (tx # txs) = tx_outputs i (word_of_nat txi) 0 amt (outputs tx) @ block_outputs i (Suc txi) amt txs"

lemma pushOutputs_flat:
  assumes "open_ok c ps i" and "\<And>amt. length (chain_outputs amt (c # ps)) + length (tx_outputs i txi k amt outs) < 2 ^ 32"
  shows "\<exists>gis m. pushOutputs i txi k outs ps c = (gis, c\<lparr> keyOutputsGlobalIndexes := m \<rparr>)
      \<and> open_ok (c\<lparr> keyOutputsGlobalIndexes := m \<rparr>) ps i
      \<and> (\<forall>a. own_outputs a (c\<lparr> keyOutputsGlobalIndexes := m \<rparr>) = own_outputs a c @ tx_outputs i txi k a outs)
      \<and> length gis = length outs
      \<and> (\<forall>j < length outs. let a = out_amount (outs ! j); all = chain_outputs a (c\<lparr> keyOutputsGlobalIndexes := m \<rparr> # ps)
           in unat (gis ! j) < length all
              \<and> all ! unat (gis ! j) = \<lparr> poi_blockIndex = i, poi_transactionIndex = txi, poi_outputIndex = word_of_nat (k + j) \<rparr>)"
  using assms
proof (induction outs arbitrary: c k)
  case Nil
  then show ?case by (intro exI [of _ "[]"] exI [of _ "keyOutputsGlobalIndexes c"]) simp
next
  case (Cons out outs)
  let ?p = "\<lparr> poi_blockIndex = i, poi_transactionIndex = txi, poi_outputIndex = word_of_nat k \<rparr>"
  let ?amt = "out_amount out" and ?l = "length (chain_outputs (out_amount out) (c # ps))"
  have fits: "?l + 1 < 2 ^ 32" using Cons.prems(2) [of ?amt] by simp
  obtain m where ins: "insertKeyOutputToGlobalIndex ?amt ?p i c ps = (word_of_nat ?l, c\<lparr> keyOutputsGlobalIndexes := m \<rparr>)"
    and ok: "open_ok (c\<lparr> keyOutputsGlobalIndexes := m \<rparr>) ps i"
    and own: "\<And>a. own_outputs a (c\<lparr> keyOutputsGlobalIndexes := m \<rparr>) = own_outputs a c @ (if a = ?amt then [?p] else [])"
    by (rule insertKeyOutput_flat [OF Cons.prems(1) fits, of ?p]) simp_all
  define d where "d = c\<lparr> keyOutputsGlobalIndexes := m \<rparr>"
  have "length (chain_outputs a (d # ps)) + length (tx_outputs i txi (Suc k) a outs) < 2 ^ 32" for a
    using Cons.prems(2) [of a] own [of a] by (simp add: d_def split: if_splits)
  from Cons.IH [OF ok [folded d_def] this] obtain gis m' where
    rec: "pushOutputs i txi (Suc k) outs ps d = (gis, d\<lparr> keyOutputsGlobalIndexes := m' \<rparr>)"
    and ok': "open_ok (d\<lparr> keyOutputsGlobalIndexes := m' \<rparr>) ps i"
    and own': "\<And>a. own_outputs a (d\<lparr> keyOutputsGlobalIndexes := m' \<rparr>) = own_outputs a d @ tx_outputs i txi (Suc k) a outs"
    and len: "length gis = length outs"
    and idx: "\<And>j. j < length outs \<Longrightarrow> let a = out_amount (outs ! j); all = chain_outputs a (d\<lparr> keyOutputsGlobalIndexes := m' \<rparr> # ps)
           in unat (gis ! j) < length all
              \<and> all ! unat (gis ! j) = \<lparr> poi_blockIndex = i, poi_transactionIndex = txi, poi_outputIndex = word_of_nat (Suc k + j) \<rparr>"
    by blast
  have upd: "d\<lparr> keyOutputsGlobalIndexes := m' \<rparr> = c\<lparr> keyOutputsGlobalIndexes := m' \<rparr>" by (simp add: d_def)
  have push: "pushOutputs i txi k (out # outs) ps c = (word_of_nat ?l # gis, c\<lparr> keyOutputsGlobalIndexes := m' \<rparr>)"
    using ins rec by (simp add: Let_def d_def [symmetric] upd)
  have first: "unat (word_of_nat ?l :: u32) = ?l" by (rule unat_word_of_nat) (use fits in simp)
  have out0: "own_outputs ?amt (c\<lparr> keyOutputsGlobalIndexes := m' \<rparr>) = (own_outputs ?amt c @ [?p]) @ tx_outputs i txi (Suc k) ?amt outs"
    using own' [of ?amt] own [of ?amt] by (simp add: upd d_def)
  show ?case
  proof (intro exI conjI allI impI)
    show "pushOutputs i txi k (out # outs) ps c = (word_of_nat ?l # gis, c\<lparr> keyOutputsGlobalIndexes := m' \<rparr>)" by (rule push)
    show "open_ok (c\<lparr> keyOutputsGlobalIndexes := m' \<rparr>) ps i" using ok' unfolding upd .
    show "own_outputs a (c\<lparr> keyOutputsGlobalIndexes := m' \<rparr>) = own_outputs a c @ tx_outputs i txi k a (out # outs)" for a
      using own' [of a] own [of a] unfolding upd by (simp add: d_def)
    show "length (word_of_nat ?l # gis) = length (out # outs)" using len by simp
    fix j assume "j < length (out # outs)"
    then show "let a = out_amount ((out # outs) ! j); all = chain_outputs a (c\<lparr> keyOutputsGlobalIndexes := m' \<rparr> # ps)
        in unat ((word_of_nat ?l # gis) ! j) < length all
          \<and> all ! unat ((word_of_nat ?l # gis) ! j) = \<lparr> poi_blockIndex = i, poi_transactionIndex = txi, poi_outputIndex = word_of_nat (k + j) \<rparr>"
      using idx [of "j - 1"] out0 first unfolding upd
      by (cases j) (simp_all add: Let_def nth_append)
  qed
qed


section \<open>Adding transactions\<close>

definition indices_ok :: "chain \<Rightarrow> u32 \<Rightarrow> nat \<Rightarrow> TransactionOutput list \<Rightarrow> u32 list \<Rightarrow> bool" where
  "indices_ok ch i txi outs gis \<longleftrightarrow> length gis = length outs
     \<and> (\<forall>j < length outs. let all = chain_outputs (out_amount (outs ! j)) ch
          in unat (gis ! j) < length all
             \<and> all ! unat (gis ! j) = \<lparr> poi_blockIndex = i, poi_transactionIndex = word_of_nat txi, poi_outputIndex = word_of_nat j \<rparr>)"

lemma indices_ok_mono:
  assumes "indices_ok ch i txi outs gis" and "\<And>a. \<exists>more. chain_outputs a ch' = chain_outputs a ch @ more"
  shows "indices_ok ch' i txi outs gis"
  unfolding indices_ok_def Let_def
proof (intro conjI allI impI)
  show "length gis = length outs" using assms(1) by (simp add: indices_ok_def)
  fix j assume j: "j < length outs"
  obtain more where "chain_outputs (out_amount (outs ! j)) ch' = chain_outputs (out_amount (outs ! j)) ch @ more" using assms(2) by blast
  moreover have "unat (gis ! j) < length (chain_outputs (out_amount (outs ! j)) ch)"
    "chain_outputs (out_amount (outs ! j)) ch ! unat (gis ! j)
       = \<lparr> poi_blockIndex = i, poi_transactionIndex = word_of_nat txi, poi_outputIndex = word_of_nat j \<rparr>"
    using assms(1) j by (simp_all add: indices_ok_def Let_def)
  ultimately show "unat (gis ! j) < length (chain_outputs (out_amount (outs ! j)) ch')"
    "chain_outputs (out_amount (outs ! j)) ch' ! unat (gis ! j)
       = \<lparr> poi_blockIndex = i, poi_transactionIndex = word_of_nat txi, poi_outputIndex = word_of_nat j \<rparr>"
    by (simp_all add: nth_append)
qed

text \<open>The record a pushed transaction leaves, with global indices that find its outputs in the chain.\<close>

definition records :: "chain \<Rightarrow> u32 \<Rightarrow> nat \<Rightarrow> hash \<Rightarrow> Transaction \<Rightarrow> CachedTransactionInfo \<Rightarrow> bool" where
  "records ch i txi h tx info \<longleftrightarrow> ti_blockIndex info = i \<and> ti_transactionIndex info = word_of_nat txi \<and> ti_transactionHash info = h
     \<and> ti_unlockTime info = unlockTime tx \<and> ti_outputs info = map target (outputs tx)
     \<and> indices_ok ch i txi (outputs tx) (ti_globalIndexes info)"

text \<open>The transactions of block \<open>i\<close> added so far stand before position \<open>k\<close>.\<close>

definition before :: "BlockchainCache \<Rightarrow> u32 \<Rightarrow> nat \<Rightarrow> bool" where
  "before c i k \<longleftrightarrow> (\<forall>t \<in> set (cachedTransactions c). ti_blockIndex t = i \<longrightarrow> unat (ti_transactionIndex t) < k)"

definition same_blocks :: "BlockchainCache \<Rightarrow> BlockchainCache \<Rightarrow> bool" where
  "same_blocks c c' \<longleftrightarrow> startIndex c' = startIndex c \<and> blockInfos c' = blockInfos c \<and> spentKeyImages c' = spentKeyImages c
     \<and> storage c' = storage c"

lemma add_transaction_ok:
  assumes ok: "open_ok c ps i" and fresh: "\<not> hasTransaction c (ti_transactionHash t)" and i: "ti_blockIndex t = i"
    and k: "unat (ti_transactionIndex t) = k" and before: "before c i k"
  shows "insert_transaction t (cachedTransactions c) = cachedTransactions c @ [t]"
    and "open_ok (c\<lparr> cachedTransactions := cachedTransactions c @ [t] \<rparr>) ps i"
    and "before (c\<lparr> cachedTransactions := cachedTransactions c @ [t] \<rparr>) i (Suc k)"
proof -
  have tx: "transactions_ok c" using ok by (simp add: open_ok_def)
  have new: "\<forall>x \<in> set (cachedTransactions c). ti_transactionHash x \<noteq> ti_transactionHash t
      \<and> (ti_blockIndex x, ti_transactionIndex x) \<noteq> (ti_blockIndex t, ti_transactionIndex t)"
    using fresh before i k by (auto simp: hasTransaction_def before_def)
  then show "insert_transaction t (cachedTransactions c) = cachedTransactions c @ [t]" by (auto simp: insert_transaction_def)
  have "\<forall>x \<in> set (cachedTransactions c). ti_blockIndex x \<le> i" using tx open_last(2) [OF ok] by (simp add: transactions_ok_def)
  with new tx i have "transactions_ok (c\<lparr> cachedTransactions := cachedTransactions c @ [t] \<rparr>)"
    using open_last(1) [OF ok] by (auto simp: transactions_ok_def sorted_append)
  with ok show "open_ok (c\<lparr> cachedTransactions := cachedTransactions c @ [t] \<rparr>) ps i" by (auto simp: open_ok_def)
  show "before (c\<lparr> cachedTransactions := cachedTransactions c @ [t] \<rparr>) i (Suc k)"
    using before k by (auto simp: before_def)
qed

lemma open_ok_paymentIds [simp]: "open_ok (c\<lparr> paymentIds := pids \<rparr>) ps i = open_ok c ps i"
  by (simp add: open_ok_def)

lemma before_frame [simp]:
  "before (c\<lparr> paymentIds := pids \<rparr>) i k = before c i k" "before (c\<lparr> keyOutputsGlobalIndexes := m \<rparr>) i k = before c i k"
  by (simp_all add: before_def)

lemma pushTransaction_flat:
  assumes ok: "open_ok c ps i" and h: "getTransactionHash H tx = Inr h" and fresh: "\<not> hasTransaction c h"
    and len: "length (outputs tx) \<le> 65535" and k: "k < 65536" and before: "before c i k"
    and fits: "\<And>amt. length (chain_outputs amt (c # ps)) + length (tx_outputs i (word_of_nat k) 0 amt (outputs tx)) < 2 ^ 32"
  shows "\<exists>c' info. pushTransaction H tx i (word_of_nat k) ps c = Returns c' \<and> open_ok c' ps i \<and> before c' i (Suc k) \<and> same_blocks c c'
      \<and> cachedTransactions c' = cachedTransactions c @ [info] \<and> records (c' # ps) i k h tx info
      \<and> (\<forall>a. own_outputs a c' = own_outputs a c @ tx_outputs i (word_of_nat k) 0 a (outputs tx))"
proof -
  from pushOutputs_flat [OF ok fits, unfolded Let_def add_0] obtain gis m where
    push: "pushOutputs i (word_of_nat k) 0 (outputs tx) ps c = (gis, c\<lparr> keyOutputsGlobalIndexes := m \<rparr>)"
    and ok1: "open_ok (c\<lparr> keyOutputsGlobalIndexes := m \<rparr>) ps i"
    and own: "\<And>a. own_outputs a (c\<lparr> keyOutputsGlobalIndexes := m \<rparr>) = own_outputs a c @ tx_outputs i (word_of_nat k) 0 a (outputs tx)"
    and idx: "indices_ok (c\<lparr> keyOutputsGlobalIndexes := m \<rparr> # ps) i k (outputs tx) gis"
    unfolding indices_ok_def Let_def by blast
  define c1 where "c1 = c\<lparr> keyOutputsGlobalIndexes := m \<rparr>"
  define info where "info = \<lparr> ti_blockIndex = i, ti_transactionIndex = ucast (word_of_nat k :: u16), ti_transactionHash = h,
      ti_unlockTime = unlockTime tx, ti_outputs = map target (outputs tx), ti_globalIndexes = gis \<rparr>"
  have txi: "ucast (word_of_nat k :: u16) = (word_of_nat k :: u32)" "unat (word_of_nat k :: u32) = k"
    using k by (simp_all add: unat_word_of_nat word_unat_eq_iff unat_ucast_up)
  have fresh': "\<not> hasTransaction c1 h" using fresh by (simp add: c1_def hasTransaction_def)
  then have fresh1: "\<not> hasTransaction c1 (ti_transactionHash info)" by (simp add: info_def)
  have k1: "unat (ti_transactionIndex info) = k" "ti_blockIndex info = i" by (simp_all add: info_def txi)
  have before1: "before c1 i k" using before by (simp add: c1_def)
  note add = add_transaction_ok [OF ok1 [folded c1_def] fresh1 k1(2,1) before1]
  define c2 where "c2 = c1\<lparr> cachedTransactions := cachedTransactions c1 @ [info] \<rparr>"
  have res: "pushTransaction H tx i (word_of_nat k) ps c = Returns (case getPaymentIdFromTxExtra (extra tx) of
      None \<Rightarrow> c2 | Some pid \<Rightarrow> c2\<lparr> paymentIds := insert_paymentId \<lparr> pt_paymentId = pid, pt_transactionHash = h \<rparr> (paymentIds c2) \<rparr>)"
    using h len push fresh' add(1)
    by (simp add: pushTransaction_def Let_def c1_def [symmetric] info_def [symmetric] c2_def [symmetric])
  have own2: "own_outputs a c2 = own_outputs a c @ tx_outputs i (word_of_nat k) 0 a (outputs tx)" for a
    using own by (simp add: c2_def c1_def)
  have rec: "records (c' # ps) i k h tx info" if "\<And>a. own_outputs a c' = own_outputs a c2" for c'
    using idx that by (simp add: records_def info_def txi indices_ok_def c2_def c1_def)
  show ?thesis
  proof (cases "getPaymentIdFromTxExtra (extra tx)")
    case None
    show ?thesis
      by (rule exI [of _ c2], rule exI [of _ info]) (use None res add rec own2 in \<open>simp add: c2_def c1_def same_blocks_def\<close>)
  next
    case (Some pid)
    show ?thesis
      by (rule exI [of _ "c2\<lparr> paymentIds := insert_paymentId \<lparr> pt_paymentId = pid, pt_transactionHash = h \<rparr> (paymentIds c2) \<rparr>"],
          rule exI [of _ info]) (use Some res add rec own2 in \<open>simp add: c2_def c1_def same_blocks_def\<close>)
  qed
qed


lemma pushTransactions_flat:
  assumes "open_ok c ps i" and "list_all2 (\<lambda>tx h. getTransactionHash H tx = Inr h) txs hs" and "distinct hs"
    and "\<forall>h \<in> set hs. \<not> hasTransaction c h" and "\<forall>tx \<in> set txs. length (outputs tx) \<le> 65535" and "k + length txs \<le> 65536"
    and "before c i k" and "\<And>amt. length (chain_outputs amt (c # ps)) + length (block_outputs i k amt txs) < 2 ^ 32"
  shows "\<exists>c' infos. pushTransactions H txs i k ps c = Returns c' \<and> open_ok c' ps i \<and> same_blocks c c'
      \<and> cachedTransactions c' = cachedTransactions c @ infos \<and> length infos = length txs
      \<and> (\<forall>j < length txs. records (c' # ps) i (k + j) (hs ! j) (txs ! j) (infos ! j))
      \<and> (\<forall>a. own_outputs a c' = own_outputs a c @ block_outputs i k a txs)"
  using assms
proof (induction txs arbitrary: c k hs)
  case Nil
  then show ?case by (intro exI [of _ c] exI [of _ "[]"]) (simp add: same_blocks_def)
next
  case (Cons tx txs)
  from Cons.prems(2) obtain h hs' where hs: "hs = h # hs'" "getTransactionHash H tx = Inr h"
    "list_all2 (\<lambda>tx h. getTransactionHash H tx = Inr h) txs hs'" by (cases hs) auto
  have fits: "length (chain_outputs a (c # ps)) + length (tx_outputs i (word_of_nat k) 0 a (outputs tx)) < 2 ^ 32" for a
    using Cons.prems(8) [of a] by simp
  have "k < 65536" "length (outputs tx) \<le> 65535" "\<not> hasTransaction c h" using Cons.prems(4,5,6) hs(1) by simp_all
  from pushTransaction_flat [OF Cons.prems(1) hs(2) this(3,2,1) Cons.prems(7) fits] obtain c1 info where
    p: "pushTransaction H tx i (word_of_nat k) ps c = Returns c1" and ok: "open_ok c1 ps i" and before: "before c1 i (Suc k)"
    and same: "same_blocks c c1" and txs1: "cachedTransactions c1 = cachedTransactions c @ [info]"
    and rec: "records (c1 # ps) i k h tx info"
    and own: "\<And>a. own_outputs a c1 = own_outputs a c @ tx_outputs i (word_of_nat k) 0 a (outputs tx)" by blast
  have "distinct hs'" "\<forall>tx \<in> set txs. length (outputs tx) \<le> 65535" "Suc k + length txs \<le> 65536"
    using Cons.prems(3,5,6) hs(1) by simp_all
  moreover have "\<forall>h' \<in> set hs'. \<not> hasTransaction c1 h'"
    using Cons.prems(3,4) hs(1) rec by (auto simp: hasTransaction_def txs1 records_def)
  moreover have "length (chain_outputs a (c1 # ps)) + length (block_outputs i (Suc k) a txs) < 2 ^ 32" for a
    using Cons.prems(8) [of a] own [of a] by simp
  ultimately obtain c2 infos where r: "pushTransactions H txs i (Suc k) ps c1 = Returns c2" "open_ok c2 ps i" "same_blocks c1 c2"
    "cachedTransactions c2 = cachedTransactions c1 @ infos" "length infos = length txs"
    "\<forall>j < length txs. records (c2 # ps) i (Suc k + j) (hs' ! j) (txs ! j) (infos ! j)"
    "\<And>a. own_outputs a c2 = own_outputs a c1 @ block_outputs i (Suc k) a txs"
    using Cons.IH [OF ok hs(3) _ _ _ _ before] by blast
  have "records (c2 # ps) i k h tx info"
    using rec indices_ok_mono [of "c1 # ps" i k "outputs tx" "ti_globalIndexes info" "c2 # ps"] r(7)
    by (simp add: records_def)
  then have "records (c2 # ps) i (k + j) (hs ! j) ((tx # txs) ! j) ((info # infos) ! j)" if "j < length (tx # txs)" for j
    using that r(6) hs(1) by (cases j) auto
  with p r txs1 same own show ?case
    by (intro exI [of _ c2] exI [of _ "info # infos"]) (simp add: same_blocks_def)
qed


section \<open>Spending key images\<close>

lemma root_start: "wf_chain ch \<Longrightarrow> ch \<noteq> [] \<Longrightarrow> startIndex (last ch) = 0"
proof (induction ch)
  case (Cons c ps)
  then show ?case by (cases ps) (auto simp: blocks_ok_def unat_eq_zero)
qed simp

lemma fresh_not_spent:
  "ch \<noteq> [] \<Longrightarrow> startIndex (last ch) = 0 \<Longrightarrow> kimg \<notin> ski_keyImage ` set (chain_spent ch) \<Longrightarrow> checkIfSpent_at kimg i ch = Returns False"
proof (induction ch)
  case (Cons c ps)
  have "List.find (\<lambda>s. ski_keyImage s = kimg) (spentKeyImages c) = None" using Cons.prems(3) by (auto simp: find_None_iff_all)
  with Cons show ?case by (cases "ps = []") auto
qed simp

lemma addSpentKeyImages_flat:
  assumes "startIndex (last (c # ps)) = 0" and "distinct images"
    and "set images \<inter> ski_keyImage ` set (chain_spent (c # ps)) = {}"
  shows "addSpentKeyImages images i (c # ps)
       = Returns (c\<lparr> spentKeyImages := spentKeyImages c @ map (\<lambda>k. \<lparr> ski_blockIndex = i, ski_keyImage = k \<rparr>) images \<rparr> # ps)"
  using assms
proof (induction images arbitrary: c)
  case (Cons k ks)
  let ?s = "\<lparr> ski_blockIndex = i, ski_keyImage = k \<rparr>"
  have "k \<notin> ski_keyImage ` set (chain_spent (c # ps))" using Cons.prems(3) by auto
  then have "checkIfSpent_at k (i - 1) (c # ps) = Returns False" "\<forall>s \<in> set (spentKeyImages c). ski_keyImage s \<noteq> k"
    using fresh_not_spent [OF _ Cons.prems(1)] by auto
  then have "addSpentKeyImage k i (c # ps) = Returns (c\<lparr> spentKeyImages := spentKeyImages c @ [?s] \<rparr> # ps)"
    by (auto simp: addSpentKeyImage_def insert_spent_def simp del: checkIfSpent_at.simps)
  moreover have "startIndex (last (c\<lparr> spentKeyImages := spentKeyImages c @ [?s] \<rparr> # ps)) = 0" using Cons.prems(1) by (simp split: if_splits)
  moreover have "set ks \<inter> ski_keyImage ` set (chain_spent (c\<lparr> spentKeyImages := spentKeyImages c @ [?s] \<rparr> # ps)) = {}"
    using Cons.prems(2,3) by auto
  ultimately show ?case using Cons.IH [of "c\<lparr> spentKeyImages := spentKeyImages c @ [?s] \<rparr>"] Cons.prems(2) by simp
qed simp


section \<open>Pushing a block\<close>

definition last_value :: "(CachedBlockInfo \<Rightarrow> u64) \<Rightarrow> CachedBlockInfo list \<Rightarrow> u64" where
  "last_value f bs = (if bs = [] then 0 else f (last bs))"

lemma last_counters_flat:
  assumes wf: "wf_chain (c # ps)" and i: "unat i = end_index (c # ps)"
  shows "last_counters i c ps = Returns (last_value bi_cumulativeDifficulty (chain_blocks (c # ps)),
           last_value bi_alreadyGeneratedCoins (chain_blocks (c # ps)), last_value bi_alreadyGeneratedTransactions (chain_blocks (c # ps)))"
proof (cases "blockInfos c = []")
  case False
  have "unat (getBlockCount c) = length (blockInfos c)"
    using wf_blocks_ok [OF wf] by (simp add: getBlockCount_def blocks_ok_def unat_word_of_nat)
  then have "getBlockCount c \<noteq> 0" using False by auto
  then show ?thesis using False by (simp add: last_counters_def Let_def last_value_def)
next
  case empty: True
  show ?thesis
  proof (cases ps)
    case Nil
    then show ?thesis using empty by (simp add: last_counters_def getBlockCount_def last_value_def)
  next
    case (Cons p ps')
    have full: "full (p # ps')" and b: "unat (startIndex c) = end_index ps" using wf Cons by (auto simp: full_def blocks_ok_def)
    have wfp: "wf_chain ps" using wf by simp
    have i': "unat i = end_index ps" using i empty b by simp
    have pos: "0 < end_index ps" using full Cons by (auto simp: full_Cons neq_Nil_conv)
    have pred: "unat (i - 1) = end_index ps - 1" using i' pos by (simp add: unat_sub_ge word_le_nat_alt)
    then have below: "unat (i - 1) < end_index ps" using pos by simp
    have len: "length (chain_blocks ps) = end_index ps" by (rule length_chain_blocks [OF wfp])
    have ne: "chain_blocks ps \<noteq> []" using len pos by (metis length_greater_0_conv)
    have lst: "chain_blocks ps ! unat (i - 1) = last (chain_blocks ps)"
      unfolding pred last_conv_nth [OF ne] len ..
    have "startIndex p \<le> i - 1" using full pred Cons by (auto simp: full_Cons word_le_nat_alt neq_Nil_conv)
    then have "block_at p (i - 1 - startIndex p) = Returns (last (chain_blocks ps))"
      using block_at_flat [of p ps' "i - 1"] full below lst Cons by (simp add: full_def del: wf_chain.simps chain_blocks.simps)
    moreover have "i - 1 \<le> word_of_nat (end_index ps - 1)" using le_top_iff [OF full] below Cons by blast
    ultimately have "getCurrentCumulativeDifficulty_at p (i - 1) = Returns (bi_cumulativeDifficulty (last (chain_blocks ps)))"
      using top_index(1) [OF full] Cons by (simp add: getCurrentCumulativeDifficulty_at_def del: end_index_simps)
    then show ?thesis
      using getAlreadyGeneratedCoins_flat [OF wfp below] getAlreadyGeneratedTransactions_flat [OF wfp below] empty lst ne Cons
      by (auto simp: last_counters_def getBlockCount_def last_value_def simp del: getAlreadyGeneratedCoins.simps getAlreadyGeneratedTransactions.simps)
  qed
qed

text \<open>What \<open>Core\<close> has checked when it pushes a block: its place, fresh hashes and key images, and that indices still fit.\<close>

definition push_ready :: "(bytes \<Rightarrow> hash) \<Rightarrow> BlockTemplate \<Rightarrow> Transaction list \<Rightarrow> key_image list \<Rightarrow> hash \<Rightarrow> hash list \<Rightarrow> BlockchainCache \<Rightarrow> chain \<Rightarrow> bool" where
  "push_ready H b txs images h hs c ps \<longleftrightarrow> wf_chain (c # ps)
     \<and> unat (getBlockIndex b) = end_index (c # ps) \<and> end_index (c # ps) + 1 < 2 ^ 32
     \<and> getBlockHash H b = Inr h \<and> \<not> hasBlock c h
     \<and> list_all2 (\<lambda>tx h. getTransactionHash H tx = Inr h) (baseTransaction b # txs) hs \<and> distinct hs
     \<and> (\<forall>h \<in> set hs. \<not> hasTransaction c h)
     \<and> distinct images \<and> set images \<inter> ski_keyImage ` set (chain_spent (c # ps)) = {}
     \<and> length txs \<le> 65535 \<and> (\<forall>tx \<in> set (baseTransaction b # txs). length (outputs tx) \<le> 65535)
     \<and> (\<forall>amt. length (chain_outputs amt (c # ps)) + length (block_outputs (getBlockIndex b) 0 amt (baseTransaction b # txs)) < 2 ^ 32)"

lemma in_segment_append: "in_segment c j \<Longrightarrow> in_segment (c\<lparr> blockInfos := blockInfos c @ [info] \<rparr>) j"
  by (simp add: in_segment_def)

lemma opened:
  fixes info :: CachedBlockInfo
  assumes "push_ready H b txs images h hs c ps"
  defines "i \<equiv> getBlockIndex b"
  defines "c1 \<equiv> c\<lparr> blockInfos := blockInfos c @ [info],
      spentKeyImages := spentKeyImages c @ map (\<lambda>k. \<lparr> ski_blockIndex = i, ski_keyImage = k \<rparr>) images \<rparr>"
  shows "open_ok c1 ps i" and "before c1 i 0"
proof -
  have wf: "wf_chain (c # ps)" and i: "unat i = end_index (c # ps)" and d: "distinct images"
    and fresh: "set images \<inter> ski_keyImage ` set (chain_spent (c # ps)) = {}"
    using assms(1) unfolding push_ready_def i_def by blast+
  have start: "unat (startIndex c) = end_index ps" using wf by (simp add: blocks_ok_def)
  have seg: "in_segment c j \<Longrightarrow> in_segment c1 j \<and> j < i" for j
    using in_segment_bounds(2) [OF wf, of j] i by (simp add: in_segment_def c1_def word_less_nat_alt)
  have last: "in_segment c1 i" using i by (simp add: in_segment_def c1_def word_le_nat_alt)
  have "spent_ok c ps" "transactions_ok c" "\<forall>amt. outputs_ok c ps amt" using wf by simp_all
  have "spent_ok c1 ps"
  proof -
    have "map ski_keyImage (map (\<lambda>k. \<lparr> ski_blockIndex = i, ski_keyImage = k \<rparr>) images) = images" by (simp add: o_def)
    moreover have "\<forall>s \<in> set (spentKeyImages c). in_segment c1 (ski_blockIndex s) \<and> ski_blockIndex s < i"
      using \<open>spent_ok c ps\<close> seg by (simp add: spent_ok_def)
    ultimately show ?thesis
      using \<open>spent_ok c ps\<close> last d fresh
      by (auto simp: spent_ok_def c1_def sorted_append in_segment_def o_def less_imp_le sorted_wrt_map)
  qed
  moreover have "transactions_ok c1"
    using \<open>transactions_ok c\<close> seg by (simp add: transactions_ok_def c1_def)
  moreover have "outputs_ok c1 ps amt" for amt
    using \<open>\<forall>amt. outputs_ok c ps amt\<close> [THEN spec, of amt] seg
    by (cases "keyOutputsGlobalIndexes c amt") (simp_all add: outputs_ok_def c1_def)
  ultimately show "open_ok c1 ps i"
    using wf i start by (simp add: open_ok_def c1_def)
  show "before c1 i 0"
    using \<open>transactions_ok c\<close> seg by (auto simp: transactions_ok_def before_def c1_def)
qed


definition pushed_info :: "BlockTemplate \<Rightarrow> Transaction list \<Rightarrow> hash \<Rightarrow> u64 \<Rightarrow> u64 \<Rightarrow> u64 \<Rightarrow> CachedBlockInfo list \<Rightarrow> CachedBlockInfo" where
  "pushed_info b txs h blockSize generatedCoins blockDifficulty bs =
     \<lparr> bi_blockHash = h, bi_timestamp = timestamp b,
       bi_cumulativeDifficulty = last_value bi_cumulativeDifficulty bs + blockDifficulty,
       bi_alreadyGeneratedCoins = last_value bi_alreadyGeneratedCoins bs + generatedCoins,
       bi_alreadyGeneratedTransactions = last_value bi_alreadyGeneratedTransactions bs + (word_of_nat (length txs) + 1),
       bi_blockSize = ucast blockSize \<rparr>"

text \<open>The chain after a push, as flat sequences.\<close>

definition pushed :: "BlockTemplate \<Rightarrow> Transaction list \<Rightarrow> key_image list \<Rightarrow> hash \<Rightarrow> hash list \<Rightarrow> u64 \<Rightarrow> u64 \<Rightarrow> u64 \<Rightarrow> RawBlock
    \<Rightarrow> chain \<Rightarrow> chain \<Rightarrow> CachedTransactionInfo list \<Rightarrow> bool" where
  "pushed b txs images h hs blockSize generatedCoins blockDifficulty rawBlock ch ch' infos \<longleftrightarrow>
     full ch'
     \<and> chain_blocks ch' = chain_blocks ch @ [pushed_info b txs h blockSize generatedCoins blockDifficulty (chain_blocks ch)]
     \<and> chain_storage ch' = chain_storage ch @ [rawBlock]
     \<and> chain_spent ch' = chain_spent ch @ map (\<lambda>k. \<lparr> ski_blockIndex = getBlockIndex b, ski_keyImage = k \<rparr>) images
     \<and> chain_transactions ch' = chain_transactions ch @ infos \<and> length infos = Suc (length txs)
     \<and> (\<forall>j \<le> length txs. records ch' (getBlockIndex b) j (hs ! j) ((baseTransaction b # txs) ! j) (infos ! j))
     \<and> (\<forall>amt. chain_outputs amt ch' = chain_outputs amt ch @ block_outputs (getBlockIndex b) 0 amt (baseTransaction b # txs))"

lemma doPushBlock_flat:
  assumes ready: "push_ready H b txs images h hs c ps" and size: "0 < blockSize" and diff: "0 < blockDifficulty"
  obtains c' infos where "doPushBlock H b txs images blockSize generatedCoins blockDifficulty rawBlock c ps = Returns c'"
    and "pushed b txs images h hs blockSize generatedCoins blockDifficulty rawBlock (c # ps) (c' # ps) infos"
    and "startIndex c' = startIndex c" and "cachedTransactions c' = cachedTransactions c @ infos"
    and "blockInfos c' = blockInfos c @ [pushed_info b txs h blockSize generatedCoins blockDifficulty (chain_blocks (c # ps))]"
    and "storage c' = storage c @ [rawBlock]"
    and "spentKeyImages c' = spentKeyImages c @ map (\<lambda>k. \<lparr> ski_blockIndex = getBlockIndex b, ski_keyImage = k \<rparr>) images"
proof -
  define i where "i = getBlockIndex b"
  define info where "info = pushed_info b txs h blockSize generatedCoins blockDifficulty (chain_blocks (c # ps))"
  define c1 where "c1 = c\<lparr> blockInfos := blockInfos c @ [info],
      spentKeyImages := spentKeyImages c @ map (\<lambda>k. \<lparr> ski_blockIndex = i, ski_keyImage = k \<rparr>) images \<rparr>"
  have r: "wf_chain (c # ps)" "unat i = end_index (c # ps)" "end_index (c # ps) + 1 < 2 ^ 32" "getBlockHash H b = Inr h" "\<not> hasBlock c h"
    "list_all2 (\<lambda>tx h. getTransactionHash H tx = Inr h) (baseTransaction b # txs) hs" "distinct hs" "\<forall>h \<in> set hs. \<not> hasTransaction c h"
    "distinct images" "set images \<inter> ski_keyImage ` set (chain_spent (c # ps)) = {}" "length txs \<le> 65535"
    "\<forall>tx \<in> set (baseTransaction b # txs). length (outputs tx) \<le> 65535"
    "\<And>amt. length (chain_outputs amt (c # ps)) + length (block_outputs i 0 amt (baseTransaction b # txs)) < 2 ^ 32"
    using ready unfolding push_ready_def i_def by blast+
  note open1 = opened [OF ready, of info, folded i_def, folded c1_def]
  have own1: "own_outputs a c1 = own_outputs a c" and has1: "hasTransaction c1 x = hasTransaction c x" for a x
    by (simp_all add: c1_def hasTransaction_def)
  have "\<forall>h \<in> set hs. \<not> hasTransaction c1 h" "0 + length (baseTransaction b # txs) \<le> 65536"
    "\<And>amt. length (chain_outputs amt (c1 # ps)) + length (block_outputs i 0 amt (baseTransaction b # txs)) < 2 ^ 32"
    using r(8,11,13) by (simp_all add: own1 has1)
  from pushTransactions_flat [OF open1(1) r(6,7) this(1) r(12) this(2) open1(2) this(3)] obtain c2 infos where
    p: "pushTransactions H (baseTransaction b # txs) i 0 ps c1 = Returns c2" "open_ok c2 ps i" "same_blocks c1 c2"
    "cachedTransactions c2 = cachedTransactions c1 @ infos" "length infos = Suc (length txs)"
    "\<forall>j < Suc (length txs). records (c2 # ps) i j (hs ! j) ((baseTransaction b # txs) ! j) (infos ! j)"
    "\<And>a. own_outputs a c2 = own_outputs a c1 @ block_outputs i 0 a (baseTransaction b # txs)" by auto
  have "startIndex (last (c\<lparr> blockInfos := blockInfos c @ [info] \<rparr> # ps)) = 0"
    using root_start [OF r(1)] by (simp split: if_splits)
  then have spent: "addSpentKeyImages images i (c\<lparr> blockInfos := blockInfos c @ [info] \<rparr> # ps) = Returns (c1 # ps)"
    using addSpentKeyImages_flat [of "c\<lparr> blockInfos := blockInfos c @ [info] \<rparr>" ps images i] r(9,10) by (simp add: c1_def)
  define c' where "c' = c2\<lparr> storage := storage c2 @ [rawBlock] \<rparr>"
  have res: "doPushBlock H b txs images blockSize generatedCoins blockDifficulty rawBlock c ps = Returns c'"
    using r(4,5,11) size diff last_counters_flat [OF r(1,2)] spent p(1)
    by (simp add: doPushBlock_def i_def [symmetric] info_def [symmetric] pushed_info_def [symmetric] Let_def storage_pushBlock_def c'_def
        del: pushTransactions.simps chain_blocks.simps)
  have fields: "startIndex c' = startIndex c" "blockInfos c' = blockInfos c @ [info]" "storage c' = storage c @ [rawBlock]"
    "cachedTransactions c' = cachedTransactions c @ infos"
    "spentKeyImages c' = spentKeyImages c @ map (\<lambda>k. \<lparr> ski_blockIndex = i, ski_keyImage = k \<rparr>) images"
    using p(3,4) by (simp_all add: c'_def c1_def same_blocks_def)
  have own: "own_outputs a c' = own_outputs a c @ block_outputs i 0 a (baseTransaction b # txs)" for a
    using p(7) own1 by (simp add: c'_def)
  have "blocks_ok c' ps"
    using wf_blocks_ok [OF r(1)] r(3,5) by (auto simp: blocks_ok_def fields hasBlock_def info_def pushed_info_def)
  then have full: "full (c' # ps)"
    using p(2) r(1) by (auto simp: full_Cons fields open_ok_def c'_def)
  have recs: "records (c' # ps) i j (hs ! j) ((baseTransaction b # txs) ! j) (infos ! j)" if "j \<le> length txs" for j
    using p(6) that by (simp add: records_def indices_ok_def c'_def)
  have "pushed b txs images h hs blockSize generatedCoins blockDifficulty rawBlock (c # ps) (c' # ps) infos"
    unfolding pushed_def i_def [symmetric] info_def [symmetric] using full recs p(5) by (simp add: fields own del: block_outputs.simps)
  with res fields show ?thesis using that [of c' infos] by (simp add: i_def info_def)
qed


section \<open>Finding what was pushed\<close>

lemma window_last: "bs \<noteq> [] \<Longrightarrow> window 1 (length bs - 1) True bs = [last bs]"
  by (cases bs rule: rev_cases) (simp_all add: window_def)

lemma counters_below_flat:
  assumes wf: "wf_chain (c # ps)" and i: "unat i = end_index (c # ps)" and c': "startIndex c' = startIndex c"
    "blockInfos c' = blockInfos c @ [info]"
  shows "counters_below i c' ps = Returns (last_value bi_cumulativeDifficulty (chain_blocks (c # ps)),
           last_value bi_alreadyGeneratedCoins (chain_blocks (c # ps)))"
proof (cases "blockInfos c = []")
  case False
  have le: "startIndex c \<le> i" and gt: "startIndex c < i" using i False by (simp_all add: word_le_nat_alt word_less_nat_alt)
  have "unat (i - startIndex c) - 1 = length (blockInfos c) - 1"
    using local_index(1) [OF wf_blocks_ok [OF wf] le] i wf by (simp add: blocks_ok_def)
  then have "blockInfos c' ! (unat (i - startIndex c') - 1) = last (blockInfos c)"
    using False by (simp add: c' nth_append last_conv_nth)
  then show ?thesis using False gt by (simp add: counters_below_def c' Let_def last_value_def)
next
  case empty: True
  then have same: "i = startIndex c" using i by (simp add: word_unat_eq_iff)
  show ?thesis
  proof (cases "ps = []")
    case True
    then show ?thesis using empty same by (simp add: counters_below_def c' last_value_def)
  next
    case False
    have full: "full ps" and b: "unat (startIndex c) = end_index ps" and wfp: "wf_chain ps"
      using wf False by (auto simp: full_def blocks_ok_def)
    have ne: "chain_blocks ps \<noteq> []" and len: "length (chain_blocks ps) = end_index ps"
      using chain_blocks_nonempty [OF full] length_chain_blocks [OF wfp] by blast+
    then have pos: "0 < end_index ps" by (metis length_greater_0_conv)
    have pred: "unat (startIndex c - 1) = length (chain_blocks ps) - 1"
      using b pos len by (simp add: unat_sub_ge word_le_nat_alt)
    then have below: "unat (startIndex c - 1) < end_index ps" using pos len by simp
    note window_last [OF ne] getLastUnits_flat [OF full below, of 1 True bi_cumulativeDifficulty]
      getAlreadyGeneratedCoins_flat [OF wfp below]
    then show ?thesis
      using empty same ne False pred
      by (simp add: counters_below_def c' getLastCumulativeDifficulties_at_def last_value_def last_conv_nth)
  qed
qed

lemma reference_found:
  assumes full: "full ch" and outs: "unat g < length (chain_outputs amt ch)"
    "chain_outputs amt ch ! unat g = p" and tx: "transaction_at (chain_transactions ch) p = Some info"
  shows "extractKeyOtputReferences amt [g] ch = Returns (SUCCESS, [(ti_transactionHash info, poi_outputIndex p)])"
  unfolding extractKeyOtputReferences_def top_of_flat(1) [OF full] bindO.simps
  by (subst extractKeyOutputs_flat [OF full _ _ top_of_flat(2) [OF full]]) (use outs tx in simp_all)

text \<open>
  C5: pushing a block appends it. When the block extends the chain and its hashes and key images are new, the push fails no
  assertion, leaves a well-formed chain, and the flat chain grows at its end only: by the block with its cumulative
  difficulty, coins and transaction count, its raw form, its key images, its transactions and their outputs.
\<close>

theorem push_appends:
  assumes "push_ready H b txs images h hs c ps" and "0 < blockSize" and "0 < blockDifficulty"
  shows "\<exists>c' infos. doPushBlock H b txs images blockSize generatedCoins blockDifficulty rawBlock c ps = Returns c'
     \<and> pushed b txs images h hs blockSize generatedCoins blockDifficulty rawBlock (c # ps) (c' # ps) infos"
  using doPushBlock_flat [OF assms] by metis

lemma pushed_info_found:
  assumes wf: "wf_chain (c # ps)" and i: "unat i = end_index (c # ps)" and full: "full (c' # ps)"
    and c': "startIndex c' = startIndex c" "blockInfos c' = blockInfos c @ [info]" "storage c' = storage c @ [rawBlock]"
      "spentKeyImages c' = spentKeyImages c @ map (\<lambda>k. \<lparr> ski_blockIndex = i, ski_keyImage = k \<rparr>) images"
  shows "getPushedBlockInfo i c' ps = Returns \<lparr> pi_rawBlock = rawBlock, pi_validatorState = images,
      pi_blockSize = ucast (bi_blockSize info),
      pi_generatedCoins = bi_alreadyGeneratedCoins info - last_value bi_alreadyGeneratedCoins (chain_blocks (c # ps)),
      pi_blockDifficulty = bi_cumulativeDifficulty info - last_value bi_cumulativeDifficulty (chain_blocks (c # ps)) \<rparr>"
proof -
  note b = wf_blocks_ok [OF wf]
  have le: "startIndex c \<le> i" using i by (simp add: word_le_nat_alt)
  have loc: "unat (i - startIndex c) = length (blockInfos c)" using local_index(1) [OF b le] i b by (simp add: blocks_ok_def)
  have wf': "wf_chain (c' # ps)" using full unfolding full_def by blast
  have bound: "unat (startIndex c) + length (blockInfos c) + 1 < 2 ^ 32" "length (storage c) = length (blockInfos c)"
    using wf_blocks_ok [OF wf'] b by (simp_all add: blocks_ok_def c')
  have "unat (startIndex c + getBlockCount c') = unat (startIndex c) + length (blockInfos c) + 1"
    using bound(1) by (simp add: getBlockCount_def c' unat_add_lem [THEN iffD1] unat_word_of_nat)
  then have lt: "i < startIndex c' + getBlockCount c'" using i by (simp add: word_less_nat_alt c')
  have "unat (storage_getBlockCount (storage c')) = length (blockInfos c) + 1"
    using bound by (simp add: storage_getBlockCount_def c' unat_word_of_nat del: of_nat_Suc)
  then have raw: "storage_getBlockByIndex (storage c') (i - startIndex c) = Returns rawBlock"
    using loc bound(2) by (simp add: storage_getBlockByIndex_def c' word_le_nat_alt nth_append)
  have "\<forall>s \<in> set (spentKeyImages c). ski_blockIndex s \<noteq> i"
    using wf in_segment_bounds(2) [OF wf] i by (fastforce simp: spent_ok_def)
  then have "fillOutputsSpentByBlock c' i = images" by (simp add: fillOutputsSpentByBlock_def c' o_def filter_False)
  with le lt loc raw counters_below_flat [OF wf i c'(1,2)] show ?thesis
    by (simp add: getPushedBlockInfo_def c' Let_def nth_append del: chain_blocks.simps)
qed


lemma recorded_outputs_found:
  assumes full: "full (c # ps)" and info: "info \<in> set (cachedTransactions c)" and rec: "records (c # ps) i j h tx info" and j: "j < 65536"
  shows "getTransactionGlobalIndexes c h = Some (ti_globalIndexes info)"
    and "length (ti_globalIndexes info) = length (outputs tx)"
    and "k < length (outputs tx) \<Longrightarrow> extractKeyOtputReferences (out_amount (outputs tx ! k)) [ti_globalIndexes info ! k] (c # ps)
           = Returns (SUCCESS, [(h, word_of_nat k)])"
proof -
  have wf: "wf_chain (c # ps)" using full unfolding full_def by blast
  have ok: "distinct (map ti_transactionHash (cachedTransactions c))" "in_segment c (ti_blockIndex info)"
    "distinct (map (\<lambda>t. (ti_blockIndex t, ti_transactionIndex t)) (cachedTransactions c))"
    using wf info by (simp_all add: transactions_ok_def)
  have r: "ti_blockIndex info = i" "ti_transactionIndex info = word_of_nat j" "ti_transactionHash info = h"
    "indices_ok (c # ps) i j (outputs tx) (ti_globalIndexes info)" using rec by (simp_all add: records_def)
  show "getTransactionGlobalIndexes c h = Some (ti_globalIndexes info)"
    using find_unique [OF ok(1) info] by (simp add: getTransactionGlobalIndexes_def r)
  show "length (ti_globalIndexes info) = length (outputs tx)" using r(4) by (simp add: indices_ok_def)
  assume k: "k < length (outputs tx)"
  let ?p = "\<lparr> poi_blockIndex = i, poi_transactionIndex = word_of_nat j, poi_outputIndex = word_of_nat k \<rparr>"
  have "ucast (word_of_nat j :: u16) = (word_of_nat j :: u32)"
    using j by (simp add: word_unat_eq_iff unat_ucast_up unat_word_of_nat)
  then have "transaction_at (chain_transactions (c # ps)) ?p = Some info"
    using transaction_at_own [OF wf, of ?p] ok(2) find_unique [OF ok(3) info] r
    by (simp add: find_transaction_def del: chain_transactions.simps)
  moreover have "unat (ti_globalIndexes info ! k) < length (chain_outputs (out_amount (outputs tx ! k)) (c # ps))"
    "chain_outputs (out_amount (outputs tx ! k)) (c # ps) ! unat (ti_globalIndexes info ! k) = ?p"
    using r(4) k by (simp_all only: indices_ok_def Let_def)
  ultimately show "extractKeyOtputReferences (out_amount (outputs tx ! k)) [ti_globalIndexes info ! k] (c # ps)
      = Returns (SUCCESS, [(h, word_of_nat k)])"
    using reference_found [OF full, of "ti_globalIndexes info ! k"] r(3) by simp
qed

text \<open>
  C16: what is pushed is found again. After a push \<open>getPushedBlockInfo\<close> gives back the raw block, the key images, the coins,
  the difficulty and the size (as stored in 32 bits), and for every transaction of the block the global indices on
  record, handed to \<open>extractKeyOtputReferences\<close> with the amount of the output, lead to that very output.
\<close>

theorem pushed_block_found:
  assumes ready: "push_ready H b txs images h hs c ps" and pos: "0 < blockSize" "0 < blockDifficulty"
  shows "\<exists>c'. doPushBlock H b txs images blockSize generatedCoins blockDifficulty rawBlock c ps = Returns c'
     \<and> getPushedBlockInfo (getBlockIndex b) c' ps = Returns \<lparr> pi_rawBlock = rawBlock, pi_validatorState = images,
         pi_blockSize = ucast (ucast blockSize :: u32), pi_generatedCoins = generatedCoins, pi_blockDifficulty = blockDifficulty \<rparr>
     \<and> (\<forall>j \<le> length txs. \<exists>gis. getTransactionGlobalIndexes c' (hs ! j) = Some gis
         \<and> (let outs = outputs ((baseTransaction b # txs) ! j)
            in length gis = length outs
               \<and> (\<forall>k < length outs. extractKeyOtputReferences (out_amount (outs ! k)) [gis ! k] (c' # ps)
                                     = Returns (SUCCESS, [(hs ! j, word_of_nat k)]))))"
proof -
  obtain c' infos where res: "doPushBlock H b txs images blockSize generatedCoins blockDifficulty rawBlock c ps = Returns c'"
    and p: "pushed b txs images h hs blockSize generatedCoins blockDifficulty rawBlock (c # ps) (c' # ps) infos"
    and c': "startIndex c' = startIndex c" "cachedTransactions c' = cachedTransactions c @ infos"
      "blockInfos c' = blockInfos c @ [pushed_info b txs h blockSize generatedCoins blockDifficulty (chain_blocks (c # ps))]"
      "storage c' = storage c @ [rawBlock]"
      "spentKeyImages c' = spentKeyImages c @ map (\<lambda>k. \<lparr> ski_blockIndex = getBlockIndex b, ski_keyImage = k \<rparr>) images"
    by (rule doPushBlock_flat [OF assms])
  have full: "full (c' # ps)" using p by (simp add: pushed_def)
  have wf: "wf_chain (c # ps)" and i: "unat (getBlockIndex b) = end_index (c # ps)" and n: "length txs \<le> 65535"
    using ready unfolding push_ready_def by blast+
  have info: "getPushedBlockInfo (getBlockIndex b) c' ps = Returns \<lparr> pi_rawBlock = rawBlock, pi_validatorState = images,
      pi_blockSize = ucast (ucast blockSize :: u32), pi_generatedCoins = generatedCoins, pi_blockDifficulty = blockDifficulty \<rparr>"
    using pushed_info_found [OF wf i full c'(1,3,4,5)] by (simp add: pushed_info_def)
  have rec: "records (c' # ps) (getBlockIndex b) j (hs ! j) ((baseTransaction b # txs) ! j) (infos ! j)"
    "infos ! j \<in> set (cachedTransactions c')" "j < 65536" if "j \<le> length txs" for j
    using p that n unfolding pushed_def c'(2) by auto
  note found = recorded_outputs_found [OF full rec(2) rec(1) rec(3)]
  from res info found show ?thesis unfolding Let_def by blast
qed


section \<open>A first block\<close>

definition first_tx :: Transaction where
  "first_tx = \<lparr> version = 1, unlockTime = 0, inputs = [BaseInput 0],
     outputs = [\<lparr> out_amount = 5, target = KeyOutput (replicate 32 1) \<rparr>, \<lparr> out_amount = 5, target = KeyOutput (replicate 32 2) \<rparr>],
     extra = [], signatures = [] \<rparr>"

definition first_block :: BlockTemplate where
  "first_block = \<lparr> majorVersion = 1, minorVersion = 0, nonce = 70, timestamp = 0, previousBlockHash = replicate 32 0,
     parentBlock = empty_ParentBlock, baseTransaction = first_tx, transactionHashes = [] \<rparr>"

lemma first_block_ready:
  "push_ready (\<lambda>_. replicate 32 7) first_block [] [[9]] (replicate 32 7) [replicate 32 7] (empty_cache 0) []"
proof -
  have "getBlockHash (\<lambda>_. replicate 32 7) first_block = Inr (replicate 32 7)"
    by code_simp
  moreover have "getTransactionHash (\<lambda>_. replicate 32 7) first_tx = Inr (replicate 32 7)"
    by code_simp
  moreover have "wf_chain [empty_cache 0]"
    by (auto simp: empty_cache_def blocks_ok_def spent_ok_def transactions_ok_def outputs_ok_def)
  moreover have "getBlockIndex first_block = 0" by code_simp
  moreover have "end_index [empty_cache 0] = 0" "chain_spent [empty_cache 0] = []" "chain_outputs amt [empty_cache 0] = []"
    "\<not> hasBlock (empty_cache 0) x" "\<not> hasTransaction (empty_cache 0) x" for amt x
    by (simp_all add: empty_cache_def own_outputs_def hasBlock_def hasTransaction_def)
  moreover have "baseTransaction first_block = first_tx" "length (outputs first_tx) \<le> 65535"
    "length (tx_outputs 0 0 0 amt (outputs first_tx)) < 4294967296" for amt
    by (simp_all add: first_block_def first_tx_def)
  ultimately show ?thesis
    by (auto simp: push_ready_def simp del: wf_chain.simps end_index_simps chain_spent.simps chain_outputs.simps)
qed

theorem push_appends_witness:
  "\<exists>c' infos. doPushBlock (\<lambda>_. replicate 32 7) first_block [] [[9]] 100 10 1 \<lparr> block = [], raw_transactions = [] \<rparr> (empty_cache 0) [] = Returns c'
     \<and> pushed first_block [] [[9]] (replicate 32 7) [replicate 32 7] 100 10 1 \<lparr> block = [], raw_transactions = [] \<rparr> [empty_cache 0] [c'] infos"
  by (rule push_appends [OF first_block_ready]) simp_all

theorem pushed_block_found_witness:
  "\<exists>c'. doPushBlock (\<lambda>_. replicate 32 7) first_block [] [[9]] 100 10 1 \<lparr> block = [], raw_transactions = [] \<rparr> (empty_cache 0) [] = Returns c'
     \<and> (\<exists>gis. getTransactionGlobalIndexes c' (replicate 32 7) = Some gis
         \<and> extractKeyOtputReferences 5 [gis ! 1] [c'] = Returns (SUCCESS, [(replicate 32 7, 1)]))"
proof -
  have o: "outputs (baseTransaction first_block) = [\<lparr> out_amount = 5, target = KeyOutput (replicate 32 1) \<rparr>,
      \<lparr> out_amount = 5, target = KeyOutput (replicate 32 2) \<rparr>]" by (simp add: first_block_def first_tx_def)
  show ?thesis
    using pushed_block_found [OF first_block_ready, of 100 1 10 "\<lparr> block = [], raw_transactions = [] \<rparr>"]
    unfolding Let_def by (auto simp: o dest!: spec [of _ 0] spec [of _ 1])
qed

end
