(* ===== verification/ChainQueries.thy ===== *)
theory ChainQueries
  imports ChainPush
begin

text \<open>
  Further queries of the chain: the version of a block by its height, the choice of outputs for a ring, and two look-ups
  that do not do what their callers expect.
\<close>

section \<open>Block versions\<close>

lemma add_versions_six:
  "add_versions cur [] [BLOCK_MAJOR_VERSION_2, BLOCK_MAJOR_VERSION_3, BLOCK_MAJOR_VERSION_4, BLOCK_MAJOR_VERSION_5,
      BLOCK_MAJOR_VERSION_6, BLOCK_MAJOR_VERSION_7]
   = Some [(2, m_upgradeHeightV2 cur), (3, m_upgradeHeightV3 cur), (4, m_upgradeHeightV4 cur), (5, m_upgradeHeightV5 cur),
           (6, m_upgradeHeightV6 cur), (7, m_upgradeHeightV7 cur)]"
  by (simp add: addMajorBlockVersion_def upgradeHeight_def config)

text \<open>
  C33: the version a block must have is determined for every height, lies between 1 and 7, and never decreases with the
  height, whatever the upgrade heights are.
\<close>

theorem block_version_monotone:
  "\<exists>v w. getBlockMajorVersionForHeight cur i = Returns v \<and> getBlockMajorVersionForHeight cur (max i j) = Returns w
     \<and> 1 \<le> v \<and> v \<le> w \<and> w \<le> 7"
proof -
  have "\<exists>v. getBlockMajorVersionForHeight cur k = Returns v" for k
    by (simp only: getBlockMajorVersionForHeight_def add_versions_six option.case) blast
  then obtain v w where vw: "getBlockMajorVersionForHeight cur i = Returns v" "getBlockMajorVersionForHeight cur (max i j) = Returns w" by blast
  from vw have "1 \<le> v \<and> v \<le> w \<and> w \<le> 7"
    unfolding getBlockMajorVersionForHeight_def add_versions_six option.case outcome.inject
    by (auto simp: getBlockMajorVersion_def BLOCK_MAJOR_VERSION_1_def less_max_iff_disj split: if_splits)
  with vw show ?thesis by blast
qed


section \<open>Outputs for a ring\<close>

text \<open>All offsets drawn are taken when their transactions are unlocked.\<close>

lemma collect_outs_unlocked:
  assumes "\<forall>k \<in> set offsets. \<exists>t. find_transaction c (poi_blockIndex (oi_outputs e ! k)) (poi_transactionIndex (oi_outputs e ! k)) = Some t
     \<and> isTransactionSpendTimeUnlocked cur now (ti_unlockTime t) i (c # ps) = Returns True"
  shows "collect_outs cur now i e c ps offsets = Returns (map (\<lambda>k. oi_startIndex e + word_of_nat k) offsets)"
  using assms by (induction offsets) auto

text \<open>
  The choice is not random: on a root segment whose outputs are unlocked the chosen outputs are the oldest ones of the amount,
  whatever the random source answers. The number of outputs is cut to the number asked for before the shuffle.
\<close>

lemma random_outs_are_the_oldest:
  assumes rnd: "\<And>k m. rnd 0 k m \<le> m" and e: "keyOutputsGlobalIndexes c amt = Some e"
    and avail: "cnt \<le> length (dropWhile (\<lambda>output. \<not> old_enough i output) (rev (oi_outputs e)))" "length (oi_outputs e) < 2 ^ 32"
    and unlocked: "\<forall>k < cnt. \<exists>t. find_transaction c (poi_blockIndex (oi_outputs e ! k)) (poi_transactionIndex (oi_outputs e ! k)) = Some t
     \<and> isTransactionSpendTimeUnlocked cur now (ti_unlockTime t) i [c] = Returns True"
  shows "\<exists>outs. getRandomOutsByAmount cur now rnd amt cnt i [c] = Returns outs
     \<and> mset outs = mset (map (\<lambda>k. oi_startIndex e + word_of_nat k) [0..<cnt])"
proof -
  let ?avail = "length (dropWhile (\<lambda>output. \<not> old_enough i output) (rev (oi_outputs e)))"
  have "?avail \<le> length (oi_outputs e)" by (rule order_trans [OF length_dropWhile_le]) simp
  then have dist: "min (unat (word_of_nat cnt :: u32)) (unat (word_of_nat ?avail :: u32)) = cnt"
    using avail by (simp add: unat_word_of_nat)
  obtain vs g where vs: "shuffle_draw (rnd 0) cnt (new_ShuffleGenerator cnt) = Some (vs, g)" "distinct vs" "set vs = {..<cnt}"
    using drawn_once [of "rnd 0" cnt, OF rnd] by blast
  have "collect_outs cur now i e c [] vs = Returns (map (\<lambda>k. oi_startIndex e + word_of_nat k) vs)"
    by (rule collect_outs_unlocked) (use unlocked vs(3) in auto)
  moreover have "mset vs = mset [0..<cnt]" by (rule set_eq_iff_mset_eq_distinct [THEN iffD1]) (simp_all add: vs atLeast0LessThan)
  then have "mset (map (\<lambda>k. oi_startIndex e + word_of_nat k) vs) = mset (map (\<lambda>k. oi_startIndex e + word_of_nat k) [0..<cnt])"
    by (simp only: mset_map)
  ultimately show ?thesis using e vs(1) by (simp add: Let_def dist del: mset_map)
qed


section \<open>Two look-ups\<close>

text \<open>A block with the timestamp is in the segment and is not found: the test of the first block is the wrong way round.\<close>

lemma timestamp_not_found:
  "getBlockHeightForTimestamp 30 [sample_segment] = Returns (False, 0)
   \<and> bi_timestamp (blockInfos sample_segment ! 1) = 30"
  by (simp add: sample_segment_def sample_info_def)

text \<open>Asking the root segment for a transaction it does not have dereferences a null pointer.\<close>

lemma unknown_hash_undefined: "\<not> hasTransaction c h \<Longrightarrow> getGlobalIndexes [h] [c] = Undefined"
  by (simp add: Let_def)

end
