(* ===== verification/TransactionPool.thy ===== *)
theory TransactionPool
  imports ValidateTransaction
begin

text \<open>
  The pool of pending transactions, \<open>src/cryptonotecore/TransactionPool.cpp\<close>, and the wrapper that expires transactions,
  \<open>TransactionPoolCleaner.cpp\<close>. Both implement \<open>ITransactionPool\<close>; the locale \<open>itransaction_pool\<close> states what the
  code above them relies on.

  \<^item> The container has three indices over the same elements: it is the list of elements in the order of the cost index. The
    comparator of that index is not a strict order (it is true of equal elements), so a new element goes in front of those it
    ties with.
  \<^item> A cached transaction carries its byte array and its hash. The code computes them on first use, and the first
    operation on a transaction that is to be pushed asks for the hash.
  \<^item> \<open>time(nullptr)\<close> and \<open>timeProvider->now()\<close> are arguments. Mutexes and log messages are left out.
\<close>

section \<open>Data\<close>

record CachedTx =
  ct_transaction :: Transaction
  ct_binaryArray :: bytes
  ct_hash :: hash

definition cached_transaction :: "(bytes \<Rightarrow> hash) \<Rightarrow> Transaction \<Rightarrow> exc + CachedTx" where
  "cached_transaction H tx =
     (case getTransactionBinaryArray tx of Inl e \<Rightarrow> Inl e
      | Inr ba \<Rightarrow> Inr \<lparr> ct_transaction = tx, ct_binaryArray = ba, ct_hash = H ba \<rparr>)"

record PendingTransactionInfo =
  pd_receiveTime :: u64
  pd_cachedTransaction :: CachedTx
  pd_paymentId :: "hash option"

definition pending_hash :: "PendingTransactionInfo \<Rightarrow> hash" where
  "pending_hash p = ct_hash (pd_cachedTransaction p)"

record TransactionPool =
  poolState :: "key_image set"
  transactions :: "PendingTransactionInfo list"

definition new_TransactionPool :: TransactionPool where
  "new_TransactionPool = \<lparr> poolState = {}, transactions = [] \<rparr>"


section \<open>The order of the pool\<close>

definition ct_fee :: "CachedTx \<Rightarrow> u64" where
  "ct_fee t = getTransactionFee (ct_transaction t)"

definition ct_size :: "CachedTx \<Rightarrow> u64" where
  "ct_size t = word_of_nat (length (ct_binaryArray t))"

text \<open>
  The ratio of inputs to outputs is a division of integers, converted to a \<open>double\<close> afterwards; without outputs it is the
  largest \<open>double\<close>, here \<open>None\<close>. The conversion is exact for counts below \<open>2 ^ 53\<close>.
\<close>

definition input_output_ratio :: "Transaction \<Rightarrow> nat option" where
  "input_output_ratio tx =
     (if outputs tx = [] then None else Some (length (inputs tx) div length (outputs tx)))"

fun ratio_greater :: "nat option \<Rightarrow> nat option \<Rightarrow> bool" where
  "ratio_greater l None = False"
| "ratio_greater None (Some r) = True"
| "ratio_greater (Some l) (Some r) = (l > r)"

definition TransactionPriorityComparator :: "PendingTransactionInfo \<Rightarrow> PendingTransactionInfo \<Rightarrow> bool" where
  "TransactionPriorityComparator lhs rhs =
     (let left = pd_cachedTransaction lhs; right = pd_cachedTransaction rhs;
          (lhs_lo, lhs_hi) = mul128 (ct_fee left) (ct_size right);
          (rhs_lo, rhs_hi) = mul128 (ct_fee right) (ct_size left);
          leftAmount = getTransactionAmount (ct_transaction left);
          rightAmount = getTransactionAmount (ct_transaction right);
          leftRatio = input_output_ratio (ct_transaction left);
          rightRatio = input_output_ratio (ct_transaction right)
      in if lhs_hi > rhs_hi \<or> (lhs_hi = rhs_hi \<and> lhs_lo > rhs_lo) then True
         else if rhs_hi > lhs_hi \<or> (lhs_hi = rhs_hi \<and> rhs_lo > lhs_lo) then False
         else if leftAmount > rightAmount then True
         else if rightAmount > leftAmount then False
         else if ratio_greater leftRatio rightRatio then True
         else if ratio_greater rightRatio leftRatio then False
         else if ct_size left < ct_size right then True
         else if ct_size right < ct_size left then False
         else if pd_receiveTime lhs < pd_receiveTime rhs then True
         else if pd_receiveTime rhs < pd_receiveTime lhs then False
         else True)"

fun insert_by_cost :: "PendingTransactionInfo \<Rightarrow> PendingTransactionInfo list \<Rightarrow> PendingTransactionInfo list" where
  "insert_by_cost p [] = [p]"
| "insert_by_cost p (q # qs) =
     (if TransactionPriorityComparator p q then p # q # qs else q # insert_by_cost p qs)"


section \<open>Operations of the pool\<close>

definition find_pending :: "TransactionPool \<Rightarrow> hash \<Rightarrow> PendingTransactionInfo option" where
  "find_pending pool h = List.find (\<lambda>p. pending_hash p = h) (transactions pool)"

definition checkIfTransactionPresent :: "TransactionPool \<Rightarrow> hash \<Rightarrow> bool" where
  "checkIfTransactionPresent pool h \<longleftrightarrow> find_pending pool h \<noteq> None"

definition pool_pushTransaction ::
  "u64 \<Rightarrow> CachedTx \<Rightarrow> key_image set \<Rightarrow> TransactionPool \<Rightarrow> bool \<times> TransactionPool" where
  "pool_pushTransaction now tx transactionState pool =
     (let pendingTx = \<lparr> pd_receiveTime = now, pd_cachedTransaction = tx,
                        pd_paymentId = getPaymentIdFromTxExtra (extra (ct_transaction tx)) \<rparr>
      in if checkIfTransactionPresent pool (pending_hash pendingTx) then (False, pool)
         else if hasIntersections (poolState pool) transactionState then (False, pool)
         else (True, pool\<lparr> poolState := mergeStates (poolState pool) transactionState,
                           transactions := insert_by_cost pendingTx (transactions pool) \<rparr>))"

definition tryGetTransaction :: "TransactionPool \<Rightarrow> hash \<Rightarrow> CachedTx option" where
  "tryGetTransaction pool h = map_option pd_cachedTransaction (find_pending pool h)"

definition pool_getTransaction :: "TransactionPool \<Rightarrow> hash \<Rightarrow> CachedTx outcome" where
  "pool_getTransaction pool h =
     (case find_pending pool h of None \<Rightarrow> Undefined | Some p \<Rightarrow> Returns (pd_cachedTransaction p))"

definition pool_removeTransaction :: "hash \<Rightarrow> TransactionPool \<Rightarrow> (bool \<times> TransactionPool) outcome" where
  "pool_removeTransaction h pool =
     (case find_pending pool h of
        None \<Rightarrow> Returns (False, pool)
      | Some p \<Rightarrow>
          (case excludeFromState (poolState pool) (ct_transaction (pd_cachedTransaction p)) of
             None \<Rightarrow> Undefined
           | Some state \<Rightarrow> Returns (True, pool\<lparr> poolState := state,
               transactions := erase_first (\<lambda>p. pending_hash p = h) (transactions pool) \<rparr>)))"

definition getFusionTransactionCount :: "TransactionPool \<Rightarrow> nat" where
  "getFusionTransactionCount pool =
     length (filter (\<lambda>p. ct_fee (pd_cachedTransaction p) = 0) (transactions pool))"

definition pool_getTransactionCount :: "TransactionPool \<Rightarrow> nat" where
  "pool_getTransactionCount pool = length (transactions pool)"

definition pool_getTransactionHashes :: "TransactionPool \<Rightarrow> hash list" where
  "pool_getTransactionHashes pool = map pending_hash (transactions pool)"

definition getPoolTransactions :: "TransactionPool \<Rightarrow> CachedTx list" where
  "getPoolTransactions pool = map pd_cachedTransaction (transactions pool)"

definition getPoolTransactionsForBlockTemplate :: "TransactionPool \<Rightarrow> CachedTx list \<times> CachedTx list" where
  "getPoolTransactionsForBlockTemplate pool =
     (filter (\<lambda>t. ct_fee t \<noteq> 0) (getPoolTransactions pool), filter (\<lambda>t. \<not> ct_fee t \<noteq> 0) (getPoolTransactions pool))"

definition getTransactionReceiveTime :: "TransactionPool \<Rightarrow> hash \<Rightarrow> u64 outcome" where
  "getTransactionReceiveTime pool h =
     (case find_pending pool h of None \<Rightarrow> Undefined | Some p \<Rightarrow> Returns (pd_receiveTime p))"

text \<open>The hashed index gives the hashes in no particular order: they are a set here.\<close>

definition pool_getTransactionHashesByPaymentId :: "TransactionPool \<Rightarrow> hash \<Rightarrow> hash set" where
  "pool_getTransactionHashesByPaymentId pool paymentId =
     pending_hash ` {p \<in> set (transactions pool). pd_paymentId p = Some paymentId}"

fun remove_all :: "hash list \<Rightarrow> TransactionPool \<Rightarrow> TransactionPool outcome" where
  "remove_all [] pool = Returns pool"
| "remove_all (h # hs) pool = bindO (pool_removeTransaction h pool) (\<lambda>(_, pool'). remove_all hs pool')"

definition flush :: "TransactionPool \<Rightarrow> TransactionPool outcome" where
  "flush pool = remove_all (pool_getTransactionHashes pool) pool"

section \<open>The wrapper that expires transactions\<close>

record TransactionPoolCleanWrapper =
  transactionPool :: TransactionPool
  recentlyDeletedTransactions :: "(hash \<times> u64) list"
  timeout :: u64

definition emplace :: "'k \<Rightarrow> 'v \<Rightarrow> ('k \<times> 'v) list \<Rightarrow> ('k \<times> 'v) list" where
  "emplace k v m = (if k \<in> set (keys m) then m else m @ [(k, v)])"

text \<open>The test compares the time of the deletion, not the time since, with the timeout.\<close>

definition isTransactionRecentlyDeleted :: "TransactionPoolCleanWrapper \<Rightarrow> hash \<Rightarrow> bool" where
  "isTransactionRecentlyDeleted w h =
     (case map_of (recentlyDeletedTransactions w) h of None \<Rightarrow> False | Some t \<Rightarrow> t \<ge> timeout w)"

definition cleanRecentlyDeletedTransactions ::
  "u64 \<Rightarrow> TransactionPoolCleanWrapper \<Rightarrow> TransactionPoolCleanWrapper" where
  "cleanRecentlyDeletedTransactions currentTime w =
     w\<lparr> recentlyDeletedTransactions :=
          filter (\<lambda>(_, t). \<not> currentTime - t \<ge> timeout w) (recentlyDeletedTransactions w) \<rparr>"

definition wrapper_pushTransaction ::
  "u64 \<Rightarrow> CachedTx \<Rightarrow> key_image set \<Rightarrow> TransactionPoolCleanWrapper \<Rightarrow> bool \<times> TransactionPoolCleanWrapper" where
  "wrapper_pushTransaction now tx transactionState w =
     (if isTransactionRecentlyDeleted w (ct_hash tx) then (False, w)
      else let (ok, pool) = pool_pushTransaction now tx transactionState (transactionPool w)
           in (ok, w\<lparr> transactionPool := pool \<rparr>))"

definition wrapper_removeTransaction ::
  "hash \<Rightarrow> TransactionPoolCleanWrapper \<Rightarrow> (bool \<times> TransactionPoolCleanWrapper) outcome" where
  "wrapper_removeTransaction h w =
     bindO (pool_removeTransaction h (transactionPool w)) (\<lambda>(ok, pool). Returns (ok, w\<lparr> transactionPool := pool \<rparr>))"

definition wrapper_flush :: "TransactionPoolCleanWrapper \<Rightarrow> TransactionPoolCleanWrapper outcome" where
  "wrapper_flush w = bindO (flush (transactionPool w)) (\<lambda>pool. Returns (w\<lparr> transactionPool := pool \<rparr>))"

text \<open>Deleting a transaction in \<open>clean\<close>: remember it, take it out of the pool.\<close>

definition expire :: "u64 \<Rightarrow> hash \<Rightarrow> TransactionPoolCleanWrapper \<Rightarrow> TransactionPoolCleanWrapper outcome" where
  "expire currentTime h w =
     bindO (wrapper_removeTransaction h
        (w\<lparr> recentlyDeletedTransactions := emplace h currentTime (recentlyDeletedTransactions w) \<rparr>))
       (\<lambda>(_, w'). Returns w')"

definition clean_step ::
  "(bytes \<Rightarrow> hash) \<Rightarrow> u32 \<Rightarrow> u64 \<Rightarrow> hash \<Rightarrow> hash list \<times> TransactionPoolCleanWrapper
     \<Rightarrow> (hash list \<times> TransactionPoolCleanWrapper) outcome" where
  "clean_step H height currentTime h = (\<lambda>(deleted, w).
     bindO (getTransactionReceiveTime (transactionPool w) h) (\<lambda>receiveTime.
     bindO (if currentTime - receiveTime \<ge> timeout w
            then bindO (expire currentTime h w) (\<lambda>w'. Returns (deleted @ [h], w')) else Returns (deleted, w)) (\<lambda>(deleted, w).
     bindO (pool_getTransaction (transactionPool w) h) (\<lambda>transaction.
     bindO (of_result (Mixins_validate H [ct_transaction transaction] (ucast height))) (\<lambda>error.
       case error of None \<Rightarrow> Returns (deleted, w)
       | Some _ \<Rightarrow> bindO (expire currentTime h w) (\<lambda>w'. Returns (deleted @ [h], w')))))))"

fun clean_loop ::
  "(bytes \<Rightarrow> hash) \<Rightarrow> u32 \<Rightarrow> u64 \<Rightarrow> hash list \<Rightarrow> hash list \<times> TransactionPoolCleanWrapper
     \<Rightarrow> (hash list \<times> TransactionPoolCleanWrapper) outcome" where
  "clean_loop H height currentTime [] st = Returns st"
| "clean_loop H height currentTime (h # hs) st =
     bindO (clean_step H height currentTime h st) (clean_loop H height currentTime hs)"

definition clean ::
  "(bytes \<Rightarrow> hash) \<Rightarrow> u32 \<Rightarrow> u64 \<Rightarrow> TransactionPoolCleanWrapper \<Rightarrow> (hash list \<times> TransactionPoolCleanWrapper) outcome" where
  "clean H height currentTime w =
     bindO (clean_loop H height currentTime (pool_getTransactionHashes (transactionPool w)) ([], w))
       (\<lambda>(deleted, w'). Returns (deleted, cleanRecentlyDeletedTransactions currentTime w'))"


section \<open>The interface\<close>

text \<open>
  What holds of a pool at any time: no two transactions have the same hash or spend the same key image, and the state of the
  pool is the set of the key images its transactions spend.
\<close>

definition key_images :: "CachedTx \<Rightarrow> key_image list" where
  "key_images t = map keyImage (inputs (ct_transaction t))"

definition spends_keys :: "CachedTx \<Rightarrow> bool" where
  "spends_keys t \<longleftrightarrow> list_all is_key_input (inputs (ct_transaction t))"

definition consistent :: "CachedTx list \<Rightarrow> key_image set \<Rightarrow> bool" where
  "consistent ts state \<longleftrightarrow> distinct (map ct_hash ts) \<and> distinct (concat (map key_images ts)) \<and> list_all spends_keys ts
     \<and> state = set (concat (map key_images ts))"

datatype pool_operation =
    Push u64 CachedTx
  | Remove hash

text \<open>A history of calls. A transaction is pushed with the key images it spends, which is what its validation leaves in the state.\<close>

fun pool_history ::
  "(u64 \<Rightarrow> CachedTx \<Rightarrow> key_image set \<Rightarrow> 'p \<Rightarrow> bool \<times> 'p) \<Rightarrow> (hash \<Rightarrow> 'p \<Rightarrow> (bool \<times> 'p) outcome)
     \<Rightarrow> pool_operation list \<Rightarrow> 'p \<Rightarrow> 'p outcome" where
  "pool_history push remove [] p = Returns p"
| "pool_history push remove (Push now t # ops) p =
     pool_history push remove ops (snd (push now t (set (key_images t)) p))"
| "pool_history push remove (Remove h # ops) p =
     bindO (remove h p) (\<lambda>(_, p'). pool_history push remove ops p')"

lemma mset_concat_map: "mset (concat (map f xs)) = (\<Sum>x \<in># mset xs. mset (f x))"
  by (induction xs) simp_all

lemma consistent_permute: "mset ts = mset us \<Longrightarrow> consistent ts state \<longleftrightarrow> consistent us state"
proof -
  assume eq: "mset ts = mset us"
  then have "mset (map ct_hash ts) = mset (map ct_hash us)" by simp
  then have "distinct (map ct_hash ts) = distinct (map ct_hash us)" by (rule mset_eq_imp_distinct_iff)
  moreover have "mset (concat (map key_images ts)) = mset (concat (map key_images us))"
    unfolding mset_concat_map eq ..
  then have "distinct (concat (map key_images ts)) = distinct (concat (map key_images us))"
    by (rule mset_eq_imp_distinct_iff)
  moreover have "set ts = set us" by (rule mset_eq_setD [OF eq])
  moreover have "set (concat (map key_images ts)) = set (concat (map key_images us))" using \<open>set ts = set us\<close> by simp
  ultimately show ?thesis
    unfolding consistent_def list_all_iff by simp
qed

lemma consistent_Cons:
  "consistent (t # ts) state \<longleftrightarrow>
     ct_hash t \<notin> ct_hash ` set ts \<and> spends_keys t \<and> distinct (key_images t)
     \<and> set (key_images t) \<subseteq> state \<and> consistent ts (state - set (key_images t))"
  by (auto simp: consistent_def)

lemma exclude_inputs_spent:
  "list_all is_key_input ins \<Longrightarrow> distinct (map keyImage ins) \<Longrightarrow> set (map keyImage ins) \<subseteq> state
     \<Longrightarrow> exclude_inputs state ins = Some (state - set (map keyImage ins))"
proof (induction ins arbitrary: state)
  case (Cons inp ins)
  then obtain amt idx k where inp: "inp = KeyInput amt idx k" by (cases inp) auto
  have "exclude_inputs (state - {k}) ins = Some (state - {k} - set (map keyImage ins))"
    using Cons.prems by (intro Cons.IH) (auto simp: inp)
  with Cons.prems show ?case by (auto simp: inp)
qed simp

lemma exclude_spent:
  "spends_keys t \<Longrightarrow> distinct (key_images t) \<Longrightarrow> set (key_images t) \<subseteq> state
     \<Longrightarrow> excludeFromState state (ct_transaction t) = Some (state - set (key_images t))"
  by (simp add: excludeFromState_def spends_keys_def key_images_def exclude_inputs_spent)

locale itransaction_pool =
  fixes txs :: "'p \<Rightarrow> CachedTx list"
    and state :: "'p \<Rightarrow> key_image set"
    and push :: "u64 \<Rightarrow> CachedTx \<Rightarrow> key_image set \<Rightarrow> 'p \<Rightarrow> bool \<times> 'p"
    and remove :: "hash \<Rightarrow> 'p \<Rightarrow> (bool \<times> 'p) outcome"
  assumes push_refused: "push now t st p = (False, p') \<Longrightarrow> p' = p"
    and push_accepted: "push now t st p = (True, p') \<Longrightarrow>
      ct_hash t \<notin> ct_hash ` set (txs p) \<and> state p \<inter> st = {}
      \<and> mset (txs p') = add_mset t (mset (txs p)) \<and> state p' = state p \<union> st"
    and remove_absent: "h \<notin> ct_hash ` set (txs p) \<Longrightarrow> remove h p = Returns (False, p)"
    and remove_present: "t \<in> set (txs p) \<Longrightarrow> distinct (map ct_hash (txs p))
      \<Longrightarrow> excludeFromState (state p) (ct_transaction t) = Some st
      \<Longrightarrow> \<exists>p'. remove (ct_hash t) p = Returns (True, p') \<and> state p' = st \<and> add_mset t (mset (txs p')) = mset (txs p)"
begin

lemma push_consistent:
  assumes "consistent (txs p) (state p)" and "spends_keys t" "distinct (key_images t)"
    and "push now t (set (key_images t)) p = (ok, p')"
  shows "consistent (txs p') (state p')"
proof (cases ok)
  case True
  with assms(4) have acc: "ct_hash t \<notin> ct_hash ` set (txs p)" "state p \<inter> set (key_images t) = {}"
    "mset (txs p') = mset (t # txs p)" "state p' = state p \<union> set (key_images t)"
    using push_accepted [of now t "set (key_images t)" p p'] by auto
  have "state p' - set (key_images t) = state p" using acc(2,4) by auto
  then have "consistent (t # txs p) (state p')"
    unfolding consistent_Cons using assms(1-3) acc(1,4) by auto
  then show ?thesis unfolding consistent_permute [OF acc(3)] .
next
  case False
  with assms(4) have "p' = p" by (intro push_refused) simp
  with assms(1) show ?thesis by simp
qed

lemma remove_consistent:
  assumes "consistent (txs p) (state p)"
  obtains ok p' where "remove h p = Returns (ok, p')" "consistent (txs p') (state p')"
    "mset (txs p') = filter_mset (\<lambda>t. ct_hash t \<noteq> h) (mset (txs p))"
proof (cases "h \<in> ct_hash ` set (txs p)")
  case True
  then obtain t where h: "h = ct_hash t" "t \<in> set (txs p)" by blast
  define ts where "ts = remove1 t (txs p)"
  have t: "h = ct_hash t" "t \<in> set (txs p)" "mset (txs p) = mset (t # ts)" using h by (simp_all add: ts_def)
  have ok: "consistent (t # ts) (state p)" using assms unfolding consistent_permute [OF t(3)] .
  then have excl: "excludeFromState (state p) (ct_transaction t) = Some (state p - set (key_images t))"
    unfolding consistent_Cons by (intro exclude_spent) auto
  have "distinct (map ct_hash (txs p))" using assms unfolding consistent_def by blast
  from remove_present [OF t(2) this excl] t(3) obtain p' where
    p': "remove h p = Returns (True, p')" "state p' = state p - set (key_images t)" "mset (txs p') = mset ts"
    unfolding t(1) by auto
  have "consistent (txs p') (state p')" using ok unfolding consistent_permute [OF p'(3)] p'(2) consistent_Cons by blast
  moreover have "filter_mset (\<lambda>t. ct_hash t \<noteq> h) (mset (txs p)) = mset ts"
  proof -
    have "\<forall>u \<in># mset ts. ct_hash u \<noteq> ct_hash t" using ok unfolding consistent_Cons by (metis image_eqI set_mset_mset)
    then show ?thesis unfolding t(3) by (simp add: t(1) filter_mset_eq_conv)
  qed
  ultimately show thesis using that p'(1,3) by metis
next
  case False
  then have "filter_mset (\<lambda>t. ct_hash t \<noteq> h) (mset (txs p)) = mset (txs p)"
    by (auto simp: filter_mset_eq_conv)
  with that remove_absent [OF False] assms show thesis by metis
qed

lemma history_consistent:
  "consistent (txs p) (state p) \<Longrightarrow> \<forall>now t. Push now t \<in> set ops \<longrightarrow> spends_keys t \<and> distinct (key_images t)
     \<Longrightarrow> \<exists>p'. pool_history push remove ops p = Returns p' \<and> consistent (txs p') (state p')"
proof (induction ops arbitrary: p)
  case (Cons op ops)
  show ?case
  proof (cases op)
    case (Push now t)
    have "consistent (txs q) (state q)" if "push now t (set (key_images t)) p = (ok, q)" for ok q
      by (rule push_consistent [OF Cons.prems(1) _ _ that]) (use Cons.prems(2) Push in auto)
    then have "consistent (txs (snd (push now t (set (key_images t)) p))) (state (snd (push now t (set (key_images t)) p)))"
      by (metis prod.collapse)
    with Cons.IH Cons.prems(2) show ?thesis by (auto simp: Push)
  next
    case (Remove h)
    obtain ok p' where "remove h p = Returns (ok, p')" "consistent (txs p') (state p')"
      by (rule remove_consistent [OF Cons.prems(1)])
    with Cons.IH Cons.prems(2) show ?thesis by (auto simp: Remove)
  qed
qed simp

end

lemma mset_insert_by_cost [simp]: "mset (insert_by_cost p qs) = add_mset p (mset qs)"
  by (induction qs) auto

lemma find_pending_None: "find_pending pool h = None \<longleftrightarrow> h \<notin> ct_hash ` set (getPoolTransactions pool)"
  by (auto simp: find_pending_def find_None_iff_all getPoolTransactions_def pending_hash_def)

lemma find_pending_the:
  assumes "t \<in> set (getPoolTransactions pool)" and "distinct (map ct_hash (getPoolTransactions pool))"
  obtains p where "find_pending pool (ct_hash t) = Some p" "pd_cachedTransaction p = t"
proof -
  have "find_pending pool (ct_hash t) \<noteq> None" using assms(1) by (auto simp: find_pending_None)
  then obtain p where p: "find_pending pool (ct_hash t) = Some p" by blast
  then have "pd_cachedTransaction p \<in> set (getPoolTransactions pool)" "ct_hash (pd_cachedTransaction p) = ct_hash t"
    by (auto simp: find_pending_def getPoolTransactions_def pending_hash_def dest: find_Some_in)
  with assms have "pd_cachedTransaction p = t" by (simp add: distinct_map inj_on_def)
  with p that show thesis by blast
qed

lemma getPoolTransactions_erase:
  assumes "find_pending pool h = Some p"
  shows "add_mset (pd_cachedTransaction p) (mset (map pd_cachedTransaction (erase_first (\<lambda>p. pending_hash p = h) (transactions pool))))
     = mset (getPoolTransactions pool)"
  using mset_erase_first [OF assms [unfolded find_pending_def]]
  by (metis getPoolTransactions_def image_mset_add_mset mset_map)

interpretation pool: itransaction_pool getPoolTransactions poolState pool_pushTransaction pool_removeTransaction
proof
  fix now t st p p' h
  show "pool_pushTransaction now t st p = (False, p') \<Longrightarrow> p' = p"
    by (simp add: pool_pushTransaction_def Let_def split: if_splits)
  show "h \<notin> ct_hash ` set (getPoolTransactions p) \<Longrightarrow> pool_removeTransaction h p = Returns (False, p)"
    by (simp add: pool_removeTransaction_def find_pending_None [symmetric])
  show "pool_pushTransaction now t st p = (True, p') \<Longrightarrow>
      ct_hash t \<notin> ct_hash ` set (getPoolTransactions p) \<and> poolState p \<inter> st = {}
      \<and> mset (getPoolTransactions p') = add_mset t (mset (getPoolTransactions p)) \<and> poolState p' = poolState p \<union> st"
    by (auto simp: pool_pushTransaction_def Let_def checkIfTransactionPresent_def find_pending_None pending_hash_def
        hasIntersections_def mergeStates_def getPoolTransactions_def split: if_splits)
  assume t: "t \<in> set (getPoolTransactions p)" "distinct (map ct_hash (getPoolTransactions p))"
    and excl: "excludeFromState (poolState p) (ct_transaction t) = Some st"
  obtain q where q: "find_pending p (ct_hash t) = Some q" "pd_cachedTransaction q = t"
    by (rule find_pending_the [OF t])
  then show "\<exists>p'. pool_removeTransaction (ct_hash t) p = Returns (True, p') \<and> poolState p' = st
      \<and> add_mset t (mset (getPoolTransactions p')) = mset (getPoolTransactions p)"
    using excl getPoolTransactions_erase [OF q(1)]
    by (simp add: pool_removeTransaction_def getPoolTransactions_def)
qed

definition wrapper_transactions :: "TransactionPoolCleanWrapper \<Rightarrow> CachedTx list" where
  "wrapper_transactions w = getPoolTransactions (transactionPool w)"

definition wrapper_state :: "TransactionPoolCleanWrapper \<Rightarrow> key_image set" where
  "wrapper_state w = poolState (transactionPool w)"

interpretation cleaned: itransaction_pool wrapper_transactions wrapper_state wrapper_pushTransaction wrapper_removeTransaction
proof
  fix now t st w w' h
  show "wrapper_pushTransaction now t st w = (False, w') \<Longrightarrow> w' = w"
    by (auto simp: wrapper_pushTransaction_def split: if_splits prod.splits dest: pool.push_refused)
  show "h \<notin> ct_hash ` set (wrapper_transactions w) \<Longrightarrow> wrapper_removeTransaction h w = Returns (False, w)"
    by (simp add: wrapper_removeTransaction_def wrapper_transactions_def pool.remove_absent)
  show "wrapper_pushTransaction now t st w = (True, w') \<Longrightarrow>
      ct_hash t \<notin> ct_hash ` set (wrapper_transactions w) \<and> wrapper_state w \<inter> st = {}
      \<and> mset (wrapper_transactions w') = add_mset t (mset (wrapper_transactions w)) \<and> wrapper_state w' = wrapper_state w \<union> st"
    unfolding wrapper_pushTransaction_def wrapper_transactions_def wrapper_state_def
    using pool.push_accepted [of now t st "transactionPool w"]
    by (auto split: if_splits prod.splits)
  assume "t \<in> set (wrapper_transactions w)" "distinct (map ct_hash (wrapper_transactions w))"
    and "excludeFromState (wrapper_state w) (ct_transaction t) = Some st"
  from pool.remove_present [OF this [unfolded wrapper_transactions_def wrapper_state_def]]
  show "\<exists>w'. wrapper_removeTransaction (ct_hash t) w = Returns (True, w') \<and> wrapper_state w' = st
      \<and> add_mset t (mset (wrapper_transactions w')) = mset (wrapper_transactions w)"
    by (auto simp: wrapper_removeTransaction_def wrapper_transactions_def wrapper_state_def)
qed

section \<open>The order of the cost index\<close>

text \<open>Fee per byte, compared without a division.\<close>

definition pays_at_least :: "CachedTx \<Rightarrow> CachedTx \<Rightarrow> bool" where
  "pays_at_least t u \<longleftrightarrow> unat (ct_fee u) * unat (ct_size t) \<le> unat (ct_fee t) * unat (ct_size u)"

lemma lexicographic_less:
  "l1 < B \<Longrightarrow> l2 < (B :: nat) \<Longrightarrow> h2 * B + l2 < h1 * B + l1 \<longleftrightarrow> h2 < h1 \<or> (h2 = h1 \<and> l2 < l1)"
  using nat_shift_less [of l2 B h2 h1] nat_shift_less [of l1 B h1 h2]
  by (cases h1 h2 rule: linorder_cases) (auto simp: mult.commute add.commute)

lemma wide_less_iff:
  assumes "unat (h1 :: u64) * 2 ^ 64 + unat (l1 :: u64) = x" and "unat (h2 :: u64) * 2 ^ 64 + unat (l2 :: u64) = y"
  shows "h1 > h2 \<or> (h1 = h2 \<and> l1 > l2) \<longleftrightarrow> y < x"
proof -
  have "unat l1 < 2 ^ 64" "unat l2 < 2 ^ 64" by simp_all
  then have "y < x \<longleftrightarrow> unat h2 < unat h1 \<or> (unat h2 = unat h1 \<and> unat l2 < unat l1)"
    unfolding assms [symmetric] by (rule lexicographic_less)
  then show ?thesis by (auto simp: word_less_nat_alt word_unat_eq_iff)
qed

lemma comparator_fee:
  "TransactionPriorityComparator p q \<Longrightarrow> pays_at_least (pd_cachedTransaction p) (pd_cachedTransaction q)"
  "\<not> TransactionPriorityComparator p q \<Longrightarrow> pays_at_least (pd_cachedTransaction q) (pd_cachedTransaction p)"
proof -
  let ?p = "pd_cachedTransaction p" and ?q = "pd_cachedTransaction q"
  obtain ll lh rl rh where mul: "mul128 (ct_fee ?p) (ct_size ?q) = (ll, lh)" "mul128 (ct_fee ?q) (ct_size ?p) = (rl, rh)"
    by fastforce
  have "unat lh * 2 ^ 64 + unat ll = unat (ct_fee ?p) * unat (ct_size ?q)"
    "unat rh * 2 ^ 64 + unat rl = unat (ct_fee ?q) * unat (ct_size ?p)"
    using mul128_exact [of "ct_fee ?p" "ct_size ?q"] mul128_exact [of "ct_fee ?q" "ct_size ?p"] by (simp_all add: mul)
  note less = wide_less_iff [OF this] wide_less_iff [OF this(2,1)]
  show "pays_at_least ?p ?q" if "TransactionPriorityComparator p q"
    using that less unfolding TransactionPriorityComparator_def pays_at_least_def Let_def mul
    by (auto simp: not_less split: if_splits)
  show "pays_at_least ?q ?p" if "\<not> TransactionPriorityComparator p q"
    using that less unfolding TransactionPriorityComparator_def pays_at_least_def Let_def mul
    by (auto simp: not_less split: if_splits)
qed

lemma pays_at_least_trans:
  assumes "pays_at_least a b" and "pays_at_least b c" and "ct_size b \<noteq> 0"
  shows "pays_at_least a c"
proof -
  let ?f = "\<lambda>t. unat (ct_fee t)" and ?s = "\<lambda>t. unat (ct_size t)"
  have "?f c * ?s a * ?s b \<le> ?f b * ?s c * ?s a" using assms(2) by (simp add: pays_at_least_def mult_le_mono1 algebra_simps)
  also have "\<dots> \<le> ?f a * ?s b * ?s c" using assms(1) by (simp add: pays_at_least_def mult_le_mono1 algebra_simps)
  finally have "?f c * ?s a * ?s b \<le> ?f a * ?s c * ?s b" by (simp add: algebra_simps)
  moreover have "0 < ?s b" using assms(3) by (simp add: unat_gt_0)
  ultimately show ?thesis by (simp add: pays_at_least_def)
qed

definition by_fee :: "PendingTransactionInfo list \<Rightarrow> bool" where
  "by_fee ps \<longleftrightarrow> sorted_wrt pays_at_least (map pd_cachedTransaction ps) \<and> (\<forall>p \<in> set ps. ct_size (pd_cachedTransaction p) \<noteq> 0)"

lemma set_insert_by_cost [simp]: "set (insert_by_cost p qs) = insert p (set qs)"
  by (metis mset_insert_by_cost set_mset_add_mset_insert set_mset_mset)

lemma insert_by_cost_sorted:
  "by_fee qs \<Longrightarrow> ct_size (pd_cachedTransaction p) \<noteq> 0 \<Longrightarrow> by_fee (insert_by_cost p qs)"
proof (induction qs)
  case (Cons q qs)
  show ?case
  proof (cases "TransactionPriorityComparator p q")
    case True
    have "pays_at_least (pd_cachedTransaction p) (pd_cachedTransaction r)" if "r \<in> set (q # qs)" for r
      using that Cons.prems comparator_fee(1) [OF True]
      by (auto simp: by_fee_def intro: pays_at_least_trans)
    with Cons.prems True show ?thesis by (auto simp: by_fee_def)
  next
    case False
    with Cons comparator_fee(2) [OF False] show ?thesis by (auto simp: by_fee_def)
  qed
qed (simp add: by_fee_def)

lemma by_fee_erase: "by_fee ps \<Longrightarrow> by_fee (erase_first P ps)"
proof (induction ps)
  case (Cons p ps)
  then show ?case using set_erase_first_subset [of P ps] by (auto simp: by_fee_def)
qed simp

lemma push_by_fee:
  "by_fee (transactions (transactionPool w)) \<Longrightarrow> ct_size t \<noteq> 0
     \<Longrightarrow> by_fee (transactions (transactionPool (snd (wrapper_pushTransaction now t st w))))"
  by (auto simp: wrapper_pushTransaction_def pool_pushTransaction_def Let_def insert_by_cost_sorted)

lemma remove_by_fee:
  "by_fee (transactions (transactionPool w)) \<Longrightarrow> wrapper_removeTransaction h w = Returns (ok, w')
     \<Longrightarrow> by_fee (transactions (transactionPool w'))"
  by (auto simp: wrapper_removeTransaction_def pool_removeTransaction_def by_fee_erase split: option.splits)

lemma history_by_fee:
  "by_fee (transactions (transactionPool w)) \<Longrightarrow> \<forall>now t. Push now t \<in> set ops \<longrightarrow> ct_size t \<noteq> 0
     \<Longrightarrow> pool_history wrapper_pushTransaction wrapper_removeTransaction ops w = Returns w'
     \<Longrightarrow> by_fee (transactions (transactionPool w'))"
proof (induction ops arbitrary: w)
  case (Cons op ops)
  show ?case
  proof (cases op)
    case (Push now t)
    have "by_fee (transactions (transactionPool (snd (wrapper_pushTransaction now t (set (key_images t)) w))))"
      by (rule push_by_fee) (use Cons.prems Push in auto)
    from Cons.IH [OF this] Cons.prems(2,3) show ?thesis by (auto simp: Push)
  next
    case (Remove h)
    from Cons.prems(3) obtain ok v where v: "wrapper_removeTransaction h w = Returns (ok, v)"
      "pool_history wrapper_pushTransaction wrapper_removeTransaction ops v = Returns w'"
      by (auto simp: Remove bindO_Returns)
    from Cons.IH [OF remove_by_fee [OF Cons.prems(1) v(1)] _ v(2)] Cons.prems(2) show ?thesis by auto
  qed
qed simp

definition empty_wrapper :: "u64 \<Rightarrow> TransactionPoolCleanWrapper" where
  "empty_wrapper limit = \<lparr> transactionPool = new_TransactionPool, recentlyDeletedTransactions = [], timeout = limit \<rparr>"

text \<open>
  C7: the pool under every history of calls. Starting empty, whatever transactions are pushed (each with the distinct key images
  it spends) and whatever hashes are removed, no assertion fails, no two transactions of the pool have the same hash
  or spend the same key image, the state of the pool is exactly the set of key images its transactions spend, and the
  transactions are listed by decreasing fee per byte.
\<close>

theorem pool_histories:
  assumes "\<forall>now t. Push now t \<in> set ops \<longrightarrow> spends_keys t \<and> distinct (key_images t) \<and> ct_size t \<noteq> 0"
  shows "\<exists>w. pool_history wrapper_pushTransaction wrapper_removeTransaction ops (empty_wrapper limit) = Returns w
    \<and> distinct (map ct_hash (wrapper_transactions w))
    \<and> distinct (concat (map key_images (wrapper_transactions w)))
    \<and> wrapper_state w = set (concat (map key_images (wrapper_transactions w)))
    \<and> sorted_wrt pays_at_least (wrapper_transactions w)"
proof -
  have "consistent (wrapper_transactions (empty_wrapper limit)) (wrapper_state (empty_wrapper limit))"
    by (simp add: consistent_def wrapper_transactions_def wrapper_state_def empty_wrapper_def new_TransactionPool_def
        getPoolTransactions_def)
  from cleaned.history_consistent [OF this, of ops] assms obtain w where
    w: "pool_history wrapper_pushTransaction wrapper_removeTransaction ops (empty_wrapper limit) = Returns w"
      "consistent (wrapper_transactions w) (wrapper_state w)" by blast
  have "by_fee (transactions (transactionPool w))"
    by (rule history_by_fee [OF _ _ w(1)]) (use assms in \<open>auto simp: empty_wrapper_def new_TransactionPool_def by_fee_def\<close>)
  then have "sorted_wrt pays_at_least (wrapper_transactions w)"
    by (simp add: by_fee_def wrapper_transactions_def getPoolTransactions_def)
  with w show ?thesis unfolding consistent_def by blast
qed

definition pool_tx :: "u32 list \<Rightarrow> u64 \<Rightarrow> u8 \<Rightarrow> CachedTx" where
  "pool_tx ring fee k = \<lparr> ct_transaction = \<lparr> version = 1, unlockTime = 0, inputs = [KeyInput (50 + fee) ring [k]],
     outputs = [\<lparr> out_amount = 50, target = KeyOutput [] \<rparr>], extra = [], signatures = [map (\<lambda>_. replicate 64 5) ring] \<rparr>,
     ct_binaryArray = [0, k], ct_hash = [k] \<rparr>"

definition pool_calls :: "pool_operation list" where
  "pool_calls = [Push 5 (pool_tx [1] 10 1), Push 6 (pool_tx [1] 30 2), Push 7 (pool_tx [1] 20 3), Push 8 (pool_tx [1] 40 2), Remove [3], Remove [9]]"

theorem pool_histories_witness:
  "\<exists>w. pool_history wrapper_pushTransaction wrapper_removeTransaction pool_calls (empty_wrapper 100) = Returns w
    \<and> map ct_hash (wrapper_transactions w) = [[2], [1]] \<and> wrapper_state w = {[1], [2]}
    \<and> sorted_wrt pays_at_least (wrapper_transactions w)"
proof -
  have "\<forall>now t. Push now t \<in> set pool_calls \<longrightarrow> spends_keys t \<and> distinct (key_images t) \<and> ct_size t \<noteq> 0"
    by (auto simp: pool_calls_def pool_tx_def spends_keys_def key_images_def ct_size_def)
  from pool_histories [OF this, of 100] obtain w where
    w: "pool_history wrapper_pushTransaction wrapper_removeTransaction pool_calls (empty_wrapper 100) = Returns w"
      "wrapper_state w = set (concat (map key_images (wrapper_transactions w)))"
      "sorted_wrt pays_at_least (wrapper_transactions w)" by blast
  have "(case pool_history wrapper_pushTransaction wrapper_removeTransaction pool_calls (empty_wrapper 100) of
      Returns w \<Rightarrow> map ct_hash (wrapper_transactions w) = [[2], [1]] \<and> map key_images (wrapper_transactions w) = [[[2]], [[1]]]
    | _ \<Rightarrow> False)" by code_simp
  with w show ?thesis by auto
qed

section \<open>Cleaning the pool\<close>

definition pool_ok :: "TransactionPoolCleanWrapper \<Rightarrow> bool" where
  "pool_ok w \<longleftrightarrow> consistent (wrapper_transactions w) (wrapper_state w)"

text \<open>The verdict on the mixin of a transaction, for a height.\<close>

definition mixin_invalid :: "(bytes \<Rightarrow> hash) \<Rightarrow> u32 \<Rightarrow> PendingTransactionInfo \<Rightarrow> bool" where
  "mixin_invalid H height p =
     (case Mixins_validate H [ct_transaction (pd_cachedTransaction p)] (ucast height) of Inr (Some _) \<Rightarrow> True | _ \<Rightarrow> False)"

definition mixin_judged :: "(bytes \<Rightarrow> hash) \<Rightarrow> u32 \<Rightarrow> PendingTransactionInfo \<Rightarrow> bool" where
  "mixin_judged H height p =
     (case Mixins_validate H [ct_transaction (pd_cachedTransaction p)] (ucast height) of Inl _ \<Rightarrow> False | Inr _ \<Rightarrow> True)"

lemma pool_ok_hashes: "pool_ok w \<Longrightarrow> distinct (map pending_hash (transactions (transactionPool w)))"
  by (simp add: pool_ok_def consistent_def wrapper_transactions_def getPoolTransactions_def comp_def pending_hash_def [abs_def])

lemma find_pending_in:
  "pool_ok w \<Longrightarrow> p \<in> set (transactions (transactionPool w)) \<Longrightarrow> find_pending (transactionPool w) (pending_hash p) = Some p"
  unfolding find_pending_def by (rule find_unique [OF pool_ok_hashes])

lemma expire_removes:
  assumes "pool_ok w" and "p \<in> set (transactions (transactionPool w))"
  shows "\<exists>w'. expire now (pending_hash p) w = Returns w' \<and> pool_ok w' \<and> timeout w' = timeout w
    \<and> transactions (transactionPool w') = filter (\<lambda>q. pending_hash q \<noteq> pending_hash p) (transactions (transactionPool w))"
proof -
  define v where "v = w\<lparr> recentlyDeletedTransactions := emplace (pending_hash p) now (recentlyDeletedTransactions w) \<rparr>"
  have v: "transactionPool v = transactionPool w" "pool_ok v" "timeout v = timeout w"
    using assms(1) by (simp_all add: v_def pool_ok_def wrapper_transactions_def wrapper_state_def)
  obtain ok w' where w': "wrapper_removeTransaction (pending_hash p) v = Returns (ok, w')" "pool_ok w'"
    using cleaned.remove_consistent [of v "pending_hash p"] v(2) unfolding pool_ok_def by metis
  then show ?thesis
    using find_pending_in [OF assms] pool_ok_hashes [OF assms(1)] v(1,3)
    by (auto simp: expire_def v_def [symmetric] wrapper_removeTransaction_def pool_removeTransaction_def
        erase_first_key_filter split: option.splits)
qed

lemma clean_step_fresh:
  assumes "pool_ok w" and p: "p \<in> set (transactions (transactionPool w))"
    and "now - pd_receiveTime p < timeout w" and "mixin_judged H height p"
  shows "\<exists>w'. clean_step H height now (pending_hash p) (deleted, w)
      = Returns (deleted @ (if mixin_invalid H height p then [pending_hash p] else []), w')
    \<and> pool_ok w' \<and> timeout w' = timeout w
    \<and> transactions (transactionPool w')
        = filter (\<lambda>q. \<not> (pending_hash q = pending_hash p \<and> mixin_invalid H height p)) (transactions (transactionPool w))"
proof (cases "Mixins_validate H [ct_transaction (pd_cachedTransaction p)] (ucast height)")
  case (Inr r)
  note found = find_pending_in [OF assms(1) p]
  have fresh: "(timeout w \<le> now - pd_receiveTime p) = False" using assms(3) by simp
  show ?thesis
  proof (cases r)
    case None
    with Inr assms(1) found show ?thesis
      by (simp add: clean_step_def getTransactionReceiveTime_def pool_getTransaction_def mixin_invalid_def fresh)
  next
    case (Some err)
    obtain w' where "expire now (pending_hash p) w = Returns w'" "pool_ok w'" "timeout w' = timeout w"
      "transactions (transactionPool w') = filter (\<lambda>q. pending_hash q \<noteq> pending_hash p) (transactions (transactionPool w))"
      using expire_removes [OF assms(1) p] by blast
    with Some Inr found show ?thesis
      by (simp add: clean_step_def getTransactionReceiveTime_def pool_getTransaction_def mixin_invalid_def fresh)
  qed
qed (use assms(4) in \<open>simp add: mixin_judged_def\<close>)

lemma clean_loop_fresh:
  "pool_ok w \<Longrightarrow> distinct (map pending_hash ps) \<Longrightarrow> set ps \<subseteq> set (transactions (transactionPool w))
     \<Longrightarrow> \<forall>p \<in> set ps. now - pd_receiveTime p < timeout w \<and> mixin_judged H height p
     \<Longrightarrow> \<exists>w'. clean_loop H height now (map pending_hash ps) (deleted, w)
           = Returns (deleted @ map pending_hash (filter (mixin_invalid H height) ps), w')
         \<and> pool_ok w' \<and> timeout w' = timeout w
         \<and> transactions (transactionPool w')
             = filter (\<lambda>q. \<not> (\<exists>p \<in> set ps. pending_hash q = pending_hash p \<and> mixin_invalid H height p)) (transactions (transactionPool w))"
proof (induction ps arbitrary: deleted w)
  case Nil
  then show ?case by simp
next
  case (Cons p ps)
  define d where "d = deleted @ (if mixin_invalid H height p then [pending_hash p] else [])"
  obtain v where v: "clean_step H height now (pending_hash p) (deleted, w) = Returns (d, v)" "pool_ok v" "timeout v = timeout w"
      "transactions (transactionPool v)
        = filter (\<lambda>q. \<not> (pending_hash q = pending_hash p \<and> mixin_invalid H height p)) (transactions (transactionPool w))"
    using clean_step_fresh [of w p now H height deleted] Cons.prems unfolding d_def by auto
  have "set ps \<subseteq> set (transactions (transactionPool v))"
    using Cons.prems(2,3) unfolding v(4) by (auto simp: image_iff)
  with Cons.IH [OF v(2), of d] Cons.prems v(3) obtain w' where
    w': "clean_loop H height now (map pending_hash ps) (d, v) = Returns (d @ map pending_hash (filter (mixin_invalid H height) ps), w')"
      "pool_ok w'" "timeout w' = timeout w"
      "transactions (transactionPool w')
         = filter (\<lambda>q. \<not> (\<exists>p \<in> set ps. pending_hash q = pending_hash p \<and> mixin_invalid H height p)) (transactions (transactionPool v))"
    by auto
  have "transactions (transactionPool w')
     = filter (\<lambda>q. \<not> (\<exists>p \<in> set (p # ps). pending_hash q = pending_hash p \<and> mixin_invalid H height p)) (transactions (transactionPool w))"
    unfolding w'(4) v(4) filter_filter by (rule filter_cong) auto
  with w'(1-3) v(1) show ?case by (auto simp: d_def)
qed

text \<open>
  C27: cleaning the pool. When no transaction has reached the timeout, \<open>clean\<close> fails no assertion, reports exactly the
  transactions whose mixin is not allowed at the height, in the order of the pool, and leaves the other ones in a pool that is
  consistent again.
\<close>

theorem clean_drops_invalid:
  assumes "pool_ok w"
    and "\<forall>p \<in> set (transactions (transactionPool w)). now - pd_receiveTime p < timeout w \<and> mixin_judged H height p"
  shows "\<exists>w'. clean H height now w
      = Returns (map pending_hash (filter (mixin_invalid H height) (transactions (transactionPool w))), w')
    \<and> pool_ok w'
    \<and> transactions (transactionPool w') = filter (\<lambda>p. \<not> mixin_invalid H height p) (transactions (transactionPool w))"
proof -
  let ?ps = "transactions (transactionPool w)"
  obtain v where v: "clean_loop H height now (map pending_hash ?ps) ([], w)
      = Returns (map pending_hash (filter (mixin_invalid H height) ?ps), v)" "pool_ok v"
      "transactions (transactionPool v)
        = filter (\<lambda>q. \<not> (\<exists>p \<in> set ?ps. pending_hash q = pending_hash p \<and> mixin_invalid H height p)) ?ps"
    using clean_loop_fresh [OF assms(1) pool_ok_hashes [OF assms(1)] order_refl assms(2), of "[]"] by auto
  have "transactions (transactionPool v) = filter (\<lambda>p. \<not> mixin_invalid H height p) ?ps"
    unfolding v(3) using pool_ok_hashes [OF assms(1)]
    by (intro filter_cong) (auto simp: distinct_map inj_on_def)
  moreover have "pool_ok (cleanRecentlyDeletedTransactions now v)"
    using v(2) by (simp add: pool_ok_def cleanRecentlyDeletedTransactions_def wrapper_transactions_def wrapper_state_def)
  ultimately show ?thesis using v(1)
    by (simp add: clean_def pool_getTransactionHashes_def cleanRecentlyDeletedTransactions_def)
qed

definition pending :: "u64 \<Rightarrow> CachedTx \<Rightarrow> PendingTransactionInfo" where
  "pending now t = \<lparr> pd_receiveTime = now, pd_cachedTransaction = t, pd_paymentId = None \<rparr>"

definition ring_pool :: TransactionPoolCleanWrapper where
  "ring_pool = \<lparr> transactionPool = \<lparr> poolState = {[1], [2], [3]}, transactions =
       [pending 6 (pool_tx [1, 2, 3, 4, 5] 30 2), pending 7 (pool_tx [1, 2] 20 3), pending 5 (pool_tx [1] 10 1)] \<rparr>,
     recentlyDeletedTransactions = [], timeout = 100 \<rparr>"

theorem clean_drops_invalid_witness:
  "\<exists>w. clean (\<lambda>_. replicate 32 0) 1500000 90 ring_pool = Returns ([[2]], w) \<and> pool_ok w
     \<and> map pending_hash (transactions (transactionPool w)) = [[3], [1]]"
proof -
  let ?H = "\<lambda>_. replicate 32 (0 :: u8)" and ?ps = "transactions (transactionPool ring_pool)"
  have "list_all (\<lambda>p. 90 - pd_receiveTime p < timeout ring_pool \<and> mixin_judged ?H 1500000 p) ?ps"
    and ok: "pool_ok ring_pool"
    and bad: "map pending_hash (filter (mixin_invalid ?H 1500000) ?ps) = [[2]]"
    and good: "map pending_hash (filter (\<lambda>p. \<not> mixin_invalid ?H 1500000 p) ?ps) = [[3], [1]]"
    by code_simp+
  then have "\<forall>p \<in> set ?ps. 90 - pd_receiveTime p < timeout ring_pool \<and> mixin_judged ?H 1500000 p"
    by (simp only: list_all_iff)
  from clean_drops_invalid [OF ok this] bad good show ?thesis by auto
qed

text \<open>
  A transaction that has reached the timeout is removed and then looked up again: the assertion of \<open>getTransaction\<close> fails.
\<close>

lemma clean_step_expired:
  assumes "pool_ok w" and "p \<in> set (transactions (transactionPool w))" and "timeout w \<le> now - pd_receiveTime p"
  shows "clean_step H height now (pending_hash p) (deleted, w) = Undefined"
proof -
  obtain w' where w': "expire now (pending_hash p) w = Returns w'"
    "transactions (transactionPool w') = filter (\<lambda>q. pending_hash q \<noteq> pending_hash p) (transactions (transactionPool w))"
    using expire_removes [OF assms(1,2)] by blast
  have "find_pending (transactionPool w') (pending_hash p) = None"
    by (simp add: find_pending_def w'(2) find_None_iff_all)
  with find_pending_in [OF assms(1,2)] assms(3) w'(1) show ?thesis
    by (simp add: clean_step_def getTransactionReceiveTime_def pool_getTransaction_def)
qed

lemma clean_expired_undefined: "clean (\<lambda>_. replicate 32 0) 100 200 ring_pool = Undefined"
proof -
  have "(case clean (\<lambda>_. replicate 32 0) 100 200 ring_pool of Undefined \<Rightarrow> True | _ \<Rightarrow> False)" by code_simp
  then show ?thesis by (auto split: outcome.splits)
qed

text \<open>Flushing empties a consistent pool.\<close>

lemma remove_all_consistent:
  "consistent (getPoolTransactions pool) (poolState pool)
     \<Longrightarrow> \<exists>pool'. remove_all hs pool = Returns pool'
       \<and> mset (getPoolTransactions pool') = filter_mset (\<lambda>t. ct_hash t \<notin> set hs) (mset (getPoolTransactions pool))"
proof (induction hs arbitrary: pool)
  case (Cons h hs)
  obtain ok q where q: "pool_removeTransaction h pool = Returns (ok, q)" "consistent (getPoolTransactions q) (poolState q)"
    "mset (getPoolTransactions q) = filter_mset (\<lambda>t. ct_hash t \<noteq> h) (mset (getPoolTransactions pool))"
    by (rule pool.remove_consistent [OF Cons.prems])
  from Cons.IH [OF q(2)] obtain r where r: "remove_all hs q = Returns r"
    "mset (getPoolTransactions r) = filter_mset (\<lambda>t. ct_hash t \<notin> set hs) (mset (getPoolTransactions q))" by blast
  have "mset (getPoolTransactions r) = filter_mset (\<lambda>t. ct_hash t \<notin> set (h # hs)) (mset (getPoolTransactions pool))"
    unfolding r(2) q(3) filter_filter_mset by (rule filter_mset_cong) auto
  with q(1) r(1) show ?case by simp
qed simp

lemma flush_empties:
  assumes "consistent (getPoolTransactions pool) (poolState pool)"
  shows "\<exists>pool'. flush pool = Returns pool' \<and> getPoolTransactions pool' = []"
proof -
  have hs: "set (pool_getTransactionHashes pool) = ct_hash ` set (getPoolTransactions pool)"
    by (auto simp: pool_getTransactionHashes_def getPoolTransactions_def pending_hash_def)
  obtain pool' where p: "flush pool = Returns pool'"
    "mset (getPoolTransactions pool') = filter_mset (\<lambda>t. ct_hash t \<notin> ct_hash ` set (getPoolTransactions pool)) (mset (getPoolTransactions pool))"
    using remove_all_consistent [OF assms, of "pool_getTransactionHashes pool"] unfolding flush_def hs by blast
  have "mset (getPoolTransactions pool') = {#}" unfolding p(2) by (simp add: filter_mset_False [symmetric] cong: filter_mset_cong)
  with p(1) show ?thesis by simp
qed

end
