(* ===== verification/BlockValidation.thy ===== *)
theory BlockValidation
  imports ChainQueries TransactionPool
begin

text \<open>
  What \<open>Core\<close> checks before a block is added (\<open>src/cryptonotecore/Core.cpp\<close>): \<open>extractTransactions\<close>,
  \<open>validateTransaction\<close>, \<open>validateBlock\<close> and the checks of \<open>addBlock\<close> up to the point where the chain changes, with
  \<open>medianValue\<close> of \<open>common/Math.h\<close> and \<open>is_unique\<close> of \<open>utilities/Container.h\<close>.

  The segment that holds the previous block is \<open>c\<close>, its ancestors are \<open>ps\<close>. The members of \<open>Core\<close> the checks only read,
  the clock and the thread schedule are a record. A successful check has no error code here; the code's
  \<open>VALIDATION_SUCCESS\<close> is the error code with value zero.
\<close>

section \<open>Data\<close>

datatype BlockValidationError =
    WRONG_VERSION | PARENT_BLOCK_SIZE_TOO_BIG | PARENT_BLOCK_WRONG_VERSION | TIMESTAMP_TOO_FAR_IN_FUTURE
  | TIMESTAMP_TOO_FAR_IN_PAST | CUMULATIVE_BLOCK_SIZE_TOO_BIG | DIFFICULTY_OVERHEAD | BLOCK_REWARD_MISMATCH
  | CHECKPOINT_BLOCK_HASH_MISMATCH | PROOF_OF_WORK_TOO_WEAK | TRANSACTION_ABSENT_IN_POOL | TRANSACTION_DUPLICATES
  | TRANSACTION_INCONSISTENCY

datatype AddBlockErrorCode =
    ADDED_TO_MAIN | ADDED_TO_ALTERNATIVE | ADDED_TO_ALTERNATIVE_AND_SWITCHED | ALREADY_EXISTS
  | REJECTED_AS_ORPHANED | DESERIALIZATION_FAILED

datatype error_code =
    BlockError BlockValidationError
  | TransactionError TransactionValidationError
  | AddBlockCode AddBlockErrorCode

definition BLOCK_BLOB_SHUFFLE_CHECK_HEIGHT :: u64 where
  [config]: "BLOCK_BLOB_SHUFFLE_CHECK_HEIGHT = 1800000"

record core_context =
  co_crypto :: crypto_functions
  co_slow_hash :: "u8 \<Rightarrow> (bytes \<Rightarrow> hash) option"
  co_currency :: Currency
  co_checkpoints :: checkpoints
  co_upgradeManager :: UpgradeManager
  co_genesisBlockHash :: hash
  co_blockMedianSize :: u64
  co_time :: u64
  co_sched :: scheduler

text \<open>What the checks of \<open>addBlock\<close> hand to \<open>pushBlock\<close>.\<close>

record accepted_block =
  ab_transactions :: "Transaction list"
  ab_spent :: "key_image set"
  ab_blockSize :: u64
  ab_emissionChange :: u64
  ab_difficulty :: u64
  ab_previousIndex :: u32


section \<open>Helpers\<close>

definition medianValue :: "u64 list \<Rightarrow> u64" where
  "medianValue v =
     (if v = [] then 0
      else if length v = 1 then hd v
      else let n = length v div 2; s = sort v
           in if odd (length v) then s ! n else (s ! (n - 1) + s ! n) div 2)"

fun unique_loop :: "hash set \<Rightarrow> hash list \<Rightarrow> bool" where
  "unique_loop seen [] = True"
| "unique_loop seen (h # hs) = (if h \<in> seen then False else unique_loop (insert h seen) hs)"

definition is_unique :: "hash list \<Rightarrow> bool" where
  "is_unique hs = unique_loop {} hs"

text \<open>\<open>None\<close> when a transaction is too big or does not parse.\<close>

fun extractTransactions :: "Currency \<Rightarrow> bytes list \<Rightarrow> u64 \<Rightarrow> (Transaction list \<times> u64) option" where
  "extractTransactions cur [] cumulativeSize = Some ([], cumulativeSize)"
| "extractTransactions cur (raw # raws) cumulativeSize =
     (if word_of_nat (length raw) > m_maxTxSize cur then None
      else case CachedTransaction raw of Inl _ \<Rightarrow> None
           | Inr tx \<Rightarrow> map_option (\<lambda>(txs, s). (tx # txs, s))
               (extractTransactions cur raws (cumulativeSize + word_of_nat (length raw))))"

text \<open>The segment as \<open>ValidateTransaction\<close> asks it.\<close>

definition segment_queries :: "core_context \<Rightarrow> chain \<Rightarrow> chain_queries" where
  "segment_queries co ch = \<lparr> checkIfSpent = (\<lambda>k i. checkIfSpent_at k i ch),
     extractKeyOutputKeys = (\<lambda>amt i gs. extractKeyOutputKeys_at (co_currency co) (co_time co) amt i gs ch) \<rparr>"

definition transaction_context :: "core_context \<Rightarrow> Transaction \<Rightarrow> chain \<Rightarrow> u32 \<Rightarrow> bool \<Rightarrow> validation_context" where
  "transaction_context co tx ch blockHeight isPool = \<lparr> vc_crypto = co_crypto co, vc_transaction = tx, vc_currency = co_currency co,
     vc_checkpoints = co_checkpoints co, vc_chain = segment_queries co ch, vc_blockHeight = ucast blockHeight,
     vc_blockSizeMedian = co_blockMedianSize co, vc_isPoolTransaction = isPool \<rparr>"

text \<open>
  The state is a reference: it also grows when the transaction is rejected. The error code that is returned is zero only
  for \<open>VALIDATION_SUCCESS\<close>; a code that was never set would count as success too.
\<close>

definition core_validateTransaction ::
  "core_context \<Rightarrow> Transaction \<Rightarrow> key_image set \<Rightarrow> chain \<Rightarrow> u32 \<Rightarrow> bool
     \<Rightarrow> (TransactionValidationError option \<times> key_image set \<times> u64) outcome" where
  "core_validateTransaction co tx state ch blockHeight isPool =
     bindO (validate (co_sched co) (transaction_context co tx ch blockHeight isPool) (new_validator state)) (\<lambda>v.
       let result = v_result v
       in Returns (if r_errorCode result = Some VALIDATION_SUCCESS then None else r_errorCode result,
                   v_spentKeyImages v, r_fee result))"


section \<open>The block itself\<close>

definition futureTimeLimit :: "u32 \<Rightarrow> u64" where
  "futureTimeLimit previousBlockIndex =
     (if ucast (previousBlockIndex + 1) \<ge> DIFFICULTY_TARGET_V3_HEIGHT then DIFFICULTY_TARGET_V3 * 6
      else if ucast (previousBlockIndex + 1) \<ge> DIFFICULTY_TARGET_V2_HEIGHT then DIFFICULTY_TARGET * 6
      else DIFFICULTY_TARGET_V2 * 6)"

definition expectedUnlockTime :: "u32 \<Rightarrow> u64" where
  "expectedUnlockTime previousBlockIndex =
     (if ucast (previousBlockIndex + 1) \<ge> CRYPTONOTE_MINED_MONEY_UNLOCK_WINDOW_V2_HEIGHT
      then ucast (previousBlockIndex + 1 + CRYPTONOTE_MINED_MONEY_UNLOCK_WINDOW_V2)
      else ucast (previousBlockIndex + 1 + CRYPTONOTE_MINED_MONEY_UNLOCK_WINDOW))"

text \<open>The loop over the outputs of the coinbase transaction: an error or the sum of the amounts.\<close>

fun miner_reward :: "(public_key \<Rightarrow> bool) \<Rightarrow> u64 \<Rightarrow> TransactionOutput list \<Rightarrow> TransactionValidationError + u64" where
  "miner_reward check_key minerReward [] = Inr minerReward"
| "miner_reward check_key minerReward (out # outs) =
     (if out_amount out = 0 then Inl OUTPUT_ZERO_AMOUNT
      else case target out of KeyOutput k \<Rightarrow>
        if \<not> check_key k then Inl OUTPUT_INVALID_KEY
        else if -1 - out_amount out < minerReward then Inl OUTPUTS_AMOUNT_OVERFLOW
        else miner_reward check_key (minerReward + out_amount out) outs)"

definition check_base_transaction ::
  "(public_key \<Rightarrow> bool) \<Rightarrow> BlockTemplate \<Rightarrow> u32 \<Rightarrow> TransactionValidationError + u64" where
  "check_base_transaction check_key b previousBlockIndex =
     (let base = baseTransaction b
      in case inputs base of
           [BaseInput i] \<Rightarrow>
             if i \<noteq> previousBlockIndex + 1 then Inl BASE_INPUT_WRONG_BLOCK_INDEX
             else if unlockTime base \<noteq> expectedUnlockTime previousBlockIndex then Inl WRONG_TRANSACTION_UNLOCK_TIME
             else if ucast (getBlockIndex b) \<ge> TRANSACTION_SIGNATURE_COUNT_VALIDATION_HEIGHT \<and> signatures base \<noteq> []
             then Inl BASE_INVALID_SIGNATURES_COUNT
             else miner_reward check_key 0 (outputs base)
         | [KeyInput _ _ _] \<Rightarrow> Inl INPUT_UNEXPECTED_TYPE
         | _ \<Rightarrow> Inl INPUT_WRONG_COUNT)"

definition timestamp_too_old :: "Currency \<Rightarrow> BlockTemplate \<Rightarrow> u64 list \<Rightarrow> bool" where
  "timestamp_too_old cur b timestamps \<longleftrightarrow>
     length timestamps \<ge> unat (m_timestampCheckWindow cur) \<and> timestamp b < medianValue timestamps"

definition validateBlock ::
  "core_context \<Rightarrow> BlockTemplate \<Rightarrow> BlockchainCache \<Rightarrow> chain \<Rightarrow> (error_code + u64) outcome" where
  "validateBlock co b c ps =
     bindO (getBlockIndex_of c (previousBlockHash b)) (\<lambda>previousBlockIndex.
     if getBlockMajorVersion (co_upgradeManager co) (getBlockIndex b) \<noteq> majorVersion b
     then Returns (Inl (BlockError WRONG_VERSION))
     else if majorVersion b = BLOCK_MAJOR_VERSION_2 \<and> pb_majorVersion (parentBlock b) > BLOCK_MAJOR_VERSION_1
     then Returns (Inl (BlockError PARENT_BLOCK_WRONG_VERSION))
     else bindO (if majorVersion b \<ge> BLOCK_MAJOR_VERSION_2
                 then of_result (getParentBlockBinaryArray (cf_cn_fast_hash (co_crypto co)) False b) else Returns []) (\<lambda>parent.
     if length parent > 2048 then Returns (Inl (BlockError PARENT_BLOCK_SIZE_TOO_BIG))
     else if timestamp b > co_time co + futureTimeLimit previousBlockIndex
     then Returns (Inl (BlockError TIMESTAMP_TOO_FAR_IN_FUTURE))
     else bindO (getLastTimestamps_at (unat (m_timestampCheckWindow (co_currency co))) previousBlockIndex True (c # ps)) (\<lambda>timestamps.
     if timestamp_too_old (co_currency co) b timestamps then Returns (Inl (BlockError TIMESTAMP_TOO_FAR_IN_PAST))
     else Returns (case check_base_transaction (cf_check_key (co_crypto co)) b previousBlockIndex of
         Inl e \<Rightarrow> Inl (TransactionError e) | Inr minerReward \<Rightarrow> Inr minerReward))))"


section \<open>The checks of \<open>addBlock\<close>\<close>

text \<open>From a height on the hashes the block lists must be the hashes of its transactions.\<close>

definition check_hashes :: "(bytes \<Rightarrow> hash) \<Rightarrow> BlockTemplate \<Rightarrow> Transaction list \<Rightarrow> BlockValidationError option outcome" where
  "check_hashes H b txs =
     (if ucast (getBlockIndex b) \<ge> BLOCK_BLOB_SHUFFLE_CHECK_HEIGHT
      then if \<not> is_unique (transactionHashes b) then Returns (Some TRANSACTION_DUPLICATES)
           else bindO (mapO (\<lambda>tx. of_result (getTransactionHash H tx)) txs) (\<lambda>hs.
             Returns (if \<not> is_unique hs then Some TRANSACTION_DUPLICATES
                      else if list_ex (\<lambda>h. h \<notin> set (transactionHashes b)) hs then Some TRANSACTION_INCONSISTENCY
                      else if transactionHashes b \<noteq> hs then Some TRANSACTION_INCONSISTENCY else None))
      else Returns None)"

text \<open>The transactions in turn over one state: the first one rejected with its error, or the state and the fees.\<close>

fun check_transactions ::
  "core_context \<Rightarrow> chain \<Rightarrow> u32 \<Rightarrow> Transaction list \<Rightarrow> key_image set \<Rightarrow> u64
     \<Rightarrow> ((TransactionValidationError \<times> Transaction) + (key_image set \<times> u64)) outcome" where
  "check_transactions co ch previousBlockIndex [] state cumulativeFee = Returns (Inr (state, cumulativeFee))"
| "check_transactions co ch previousBlockIndex (tx # txs) state cumulativeFee =
     bindO (core_validateTransaction co tx state ch previousBlockIndex False) (\<lambda>(error, state', fee).
       case error of Some e \<Rightarrow> Returns (Inl (e, tx))
       | None \<Rightarrow> check_transactions co ch previousBlockIndex txs state' (cumulativeFee + fee))"

definition check_reward ::
  "core_context \<Rightarrow> BlockTemplate \<Rightarrow> u32 \<Rightarrow> u64 \<Rightarrow> u64 \<Rightarrow> u64 \<Rightarrow> chain \<Rightarrow> (BlockValidationError + u64) outcome" where
  "check_reward co b previousBlockIndex cumulativeBlockSize cumulativeFee minerReward ch =
     bindO (getAlreadyGeneratedCoins previousBlockIndex ch) (\<lambda>alreadyGeneratedCoins.
     bindO (getLastBlocksSizes_at (unat (m_rewardBlocksWindow (co_currency co))) previousBlockIndex True ch) (\<lambda>lastBlocksSizes.
       case getBlockReward (co_currency co) (majorVersion b) (medianValue lastBlocksSizes) cumulativeBlockSize
              alreadyGeneratedCoins cumulativeFee (ucast (getBlockIndex b)) of
         None \<Rightarrow> Undefined
       | Some None \<Rightarrow> Returns (Inl CUMULATIVE_BLOCK_SIZE_TOO_BIG)
       | Some (Some (reward, emissionChange)) \<Rightarrow>
           Returns (if minerReward \<noteq> reward then Inl BLOCK_REWARD_MISMATCH else Inr emissionChange)))"

definition check_work :: "core_context \<Rightarrow> BlockTemplate \<Rightarrow> hash \<Rightarrow> u64 \<Rightarrow> BlockValidationError option outcome" where
  "check_work co b blockHash currentDifficulty =
     (if isInCheckpointZone (co_checkpoints co) (getBlockIndex b)
      then Returns (if fst (checkBlock (co_checkpoints co) (getBlockIndex b) blockHash) then None
                    else Some CHECKPOINT_BLOCK_HASH_MISMATCH)
      else bindO (of_result (checkProofOfWork (cf_cn_fast_hash (co_crypto co)) (co_slow_hash co) (co_genesisBlockHash co) b
                               currentDifficulty)) (\<lambda>ok.
             Returns (if ok then None else Some PROOF_OF_WORK_TOO_WEAK)))"

type_synonym verdict = "((error_code \<times> Transaction option) + accepted_block) outcome"

definition refuse :: "error_code \<Rightarrow> verdict" where
  "refuse e = Returns (Inl (e, None))"

text \<open>
  From the extraction of the transactions to the proof of work. A rejected transaction is part of the answer, since the
  caller then drops it from the pool.
\<close>

definition check_content ::
  "core_context \<Rightarrow> BlockTemplate \<Rightarrow> hash \<Rightarrow> Transaction list \<Rightarrow> u64 \<Rightarrow> u32 \<Rightarrow> u64 \<Rightarrow> u64 \<Rightarrow> chain \<Rightarrow> verdict" where
  "check_content co b blockHash txs cumulativeBlockSize previousBlockIndex minerReward currentDifficulty ch =
     bindO (check_hashes (cf_cn_fast_hash (co_crypto co)) b txs) (\<lambda>r.
     case r of Some e \<Rightarrow> refuse (BlockError e) | None \<Rightarrow>
     bindO (check_transactions co ch previousBlockIndex txs {} 0) (\<lambda>r.
     case r of Inl (e, tx) \<Rightarrow> Returns (Inl (TransactionError e, Some tx)) | Inr (state, cumulativeFee) \<Rightarrow>
     bindO (check_reward co b previousBlockIndex cumulativeBlockSize cumulativeFee minerReward ch) (\<lambda>r.
     case r of Inl e \<Rightarrow> refuse (BlockError e) | Inr emissionChange \<Rightarrow>
     bindO (check_work co b blockHash currentDifficulty) (\<lambda>r.
     case r of Some e \<Rightarrow> refuse (BlockError e) | None \<Rightarrow>
       Returns (Inr \<lparr> ab_transactions = txs, ab_spent = state, ab_blockSize = cumulativeBlockSize,
         ab_emissionChange = emissionChange, ab_difficulty = currentDifficulty, ab_previousIndex = previousBlockIndex \<rparr>)))))"

definition addBlock_checks ::
  "core_context \<Rightarrow> BlockTemplate \<Rightarrow> hash \<Rightarrow> RawBlock \<Rightarrow> BlockchainCache \<Rightarrow> chain \<Rightarrow> verdict" where
  "addBlock_checks co b blockHash rawBlock c ps =
     (if length (raw_transactions rawBlock) \<noteq> length (transactionHashes b) then Undefined
      else case extractTransactions (co_currency co) (raw_transactions rawBlock) 0 of
        None \<Rightarrow> refuse (AddBlockCode DESERIALIZATION_FAILED)
      | Some (txs, cumulativeSize) \<Rightarrow>
          (let coinbaseTransactionSize = getObjectBinarySize_tx (baseTransaction b);
               cumulativeBlockSize = coinbaseTransactionSize + cumulativeSize
           in if \<not> coinbaseTransactionSize < -1 then Undefined
              else bindO (getBlockIndex_of c (previousBlockHash b)) (\<lambda>previousBlockIndex.
              case maxBlockCumulativeSize (co_currency co) (ucast (previousBlockIndex + 1)) of
                None \<Rightarrow> Undefined
              | Some limit \<Rightarrow>
                  if cumulativeBlockSize > limit then refuse (BlockError CUMULATIVE_BLOCK_SIZE_TOO_BIG)
                  else bindO (validateBlock co b c ps) (\<lambda>r.
                  case r of Inl e \<Rightarrow> refuse e | Inr minerReward \<Rightarrow>
                  bindO (getDifficultyForNextBlock_at (co_currency co) previousBlockIndex (c # ps)) (\<lambda>currentDifficulty.
                    if currentDifficulty = 0 then refuse (BlockError DIFFICULTY_OVERHEAD)
                    else check_content co b blockHash txs cumulativeBlockSize previousBlockIndex minerReward
                           currentDifficulty (c # ps))))))"

section \<open>What an accepted transaction has passed\<close>

text \<open>A rule that rejects leaves an error code.\<close>

definition reports :: "(validator \<Rightarrow> (bool \<times> validator) outcome) \<Rightarrow> bool" where
  "reports rule \<longleftrightarrow> (\<forall>v w. rule v = Returns (False, w) \<longrightarrow>
     (\<exists>e. r_errorCode (v_result w) = Some e \<and> e \<noteq> VALIDATION_SUCCESS))"

text \<open>The schedule picks one of the errors that the threads report.\<close>

definition picks :: "scheduler \<Rightarrow> bool" where
  "picks sched \<longleftrightarrow> (\<forall>errs. errs \<noteq> [] \<longrightarrow> sched errs \<in> set errs)"

lemma reject_code: "r_errorCode (v_result (snd (reject code msg v))) = Some code"
  by (simp add: reject_def setTransactionValidationResult_def)

lemma rejects: "reject code msg v = (False, w) \<Longrightarrow> code \<noteq> VALIDATION_SUCCESS \<Longrightarrow>
    \<exists>e. r_errorCode (v_result w) = Some e \<and> e \<noteq> VALIDATION_SUCCESS"
  by (metis reject_code snd_conv)

lemma inputs_loop_reports:
  "inputs_loop cf ki s ins v = (False, w) \<Longrightarrow> \<exists>e. r_errorCode (v_result w) = Some e \<and> e \<noteq> VALIDATION_SUCCESS"
  by (induction cf ki s ins v rule: inputs_loop.induct)
    (auto simp: Let_def reject_def setTransactionValidationResult_def split: if_splits)

lemma outputs_loop_reports:
  "outputs_loop cf s outs v = (False, w) \<Longrightarrow> \<exists>e. r_errorCode (v_result w) = Some e \<and> e \<noteq> VALIDATION_SUCCESS"
  by (induction cf s outs v rule: outputs_loop.induct)
    (auto simp: reject_def setTransactionValidationResult_def split: if_splits TransactionOutputTarget.splits)

lemma check_inputs_errors:
  "check_inputs cx h i ins = Returns errs \<Longrightarrow> err \<in> set errs \<Longrightarrow> fst err \<noteq> VALIDATION_SUCCESS"
proof (induction cx h i ins arbitrary: errs rule: check_inputs.induct)
  case (2 cx h i inp ins)
  then obtain r es where r: "check_input cx h i inp = Returns r" "check_inputs cx h (Suc i) ins = Returns es"
    "errs = (case r of None \<Rightarrow> es | Some e \<Rightarrow> e # es)"
    by (auto simp: bindO_Returns)
  have "fst e \<noteq> VALIDATION_SUCCESS" if "r = Some e" for e
    using r(1) that by (auto simp: check_input_def bindO_Returns split: TransactionInput.splits if_splits)
  with r 2 show ?case by (cases r) auto
qed simp

lemma rules_report:
  "reports (validateTransactionSize cx)" "reports (validateTransactionInputs cx)" "reports (validateTransactionOutputs cx)"
  "reports (validateTransactionFee cx)" "reports (validateTransactionExtra cx)" "reports (validateTransactionMixin cx)"
  "reports (validateTransactionPoW cx)" "picks sched \<Longrightarrow> reports (validateTransactionInputsExpensive sched cx)"
proof -
  show "reports (validateTransactionSize cx)"
    by (auto simp: reports_def validateTransactionSize_def bindO_Returns Let_def dest: rejects split: if_splits)
  show "reports (validateTransactionInputs cx)"
    by (auto simp: reports_def validateTransactionInputs_def dest: rejects inputs_loop_reports split: if_splits)
  show "reports (validateTransactionOutputs cx)"
    by (auto simp: reports_def validateTransactionOutputs_def dest: outputs_loop_reports)
  show "reports (validateTransactionFee cx)"
    by (auto simp: reports_def validateTransactionFee_def bindO_Returns Let_def dest: rejects split: if_splits option.splits)
  show "reports (validateTransactionExtra cx)"
    by (auto simp: reports_def validateTransactionExtra_def Let_def dest: rejects split: if_splits)
  show "reports (validateTransactionMixin cx)"
    by (auto simp: reports_def validateTransactionMixin_def bindO_Returns dest: rejects split: option.splits if_splits)
  show "reports (validateTransactionPoW cx)"
    by (auto simp: reports_def validateTransactionPoW_def bindO_Returns dest: rejects split: if_splits)
  assume p: "picks sched"
  have "fst (sched errs) \<noteq> VALIDATION_SUCCESS"
    if "check_inputs cx h 0 ins = Returns errs" "errs \<noteq> []" for h ins errs
    using p that(2) check_inputs_errors [OF that(1), of "sched errs"] by (simp add: picks_def)
  then show "reports (validateTransactionInputsExpensive sched cx)"
    by (auto simp: reports_def validateTransactionInputsExpensive_def bindO_Returns Let_def dest: rejects split: if_splits)
qed

lemma required_rules_verdict:
  assumes "foldr require rules accept v = Returns v'" and "\<forall>rule \<in> set rules. reports rule"
    and "r_errorCode (v_result v') \<in> {None, Some VALIDATION_SUCCESS}"
  shows "r_valid (v_result v')"
  using assms
proof (induction rules arbitrary: v)
  case Nil
  then show ?case by (auto simp: accept_def setTransactionValidationResult_def)
next
  case (Cons rule rules)
  define continue where "continue = foldr require rules accept"
  have "require rule continue v = Returns v'" using Cons.prems(1) by (simp add: continue_def)
  then obtain ok w where w: "rule v = Returns (ok, w)" "(if ok then continue w else Returns w) = Returns v'"
    by (auto simp: require_def bindO_Returns)
  have "ok"
  proof (rule ccontr)
    assume "\<not> ok"
    then have "rule v = Returns (False, v')" using w by simp
    then obtain e where "r_errorCode (v_result v') = Some e" "e \<noteq> VALIDATION_SUCCESS"
      using Cons.prems(2) unfolding reports_def by (metis list.set_intros(1))
    with Cons.prems(3) show False by auto
  qed
  with Cons w show ?case by (simp add: continue_def)
qed

definition tx_images :: "Transaction \<Rightarrow> key_image list" where
  "tx_images tx = map keyImage (inputs tx)"

definition tx_fee :: "Transaction \<Rightarrow> u64" where
  "tx_fee tx = sum_list (map input_amount (inputs tx)) - sum_list (map out_amount (outputs tx))"

text \<open>What the money of an accepted transaction does.\<close>

definition conserves :: "Transaction \<Rightarrow> bool" where
  "conserves tx \<longleftrightarrow> total (map input_amount (inputs tx)) < 2 ^ 64
     \<and> total (map input_amount (inputs tx)) = total (map out_amount (outputs tx)) + unat (tx_fee tx)"

lemma ucast_back [simp]: "(ucast (ucast (i :: u32) :: u64) :: u32) = i"
proof -
  have "unat (ucast i :: u64) = unat i" by (rule unat_ucast_up) simp
  then show ?thesis unfolding word_unat_eq_iff unat_ucast [of "ucast i :: u64"] by simp
qed

lemma core_validated:
  assumes "core_validateTransaction co tx state ch i pool = Returns (None, state', fee)" and "picks (co_sched co)"
  shows "list_all is_key_input (inputs tx) \<and> distinct (tx_images tx) \<and> set (tx_images tx) \<inter> state = {}
    \<and> state' = state \<union> set (tx_images tx) \<and> fee = tx_fee tx \<and> conserves tx
    \<and> (\<not> isInCheckpointZone (co_checkpoints co) (ucast (ucast i + 1 :: u64))
        \<longrightarrow> (\<forall>k \<in> set (tx_images tx). checkIfSpent_at k i ch = Returns False))"
proof -
  define cx where "cx = transaction_context co tx ch i pool"
  have cx: "vc_transaction cx = tx" "vc_blockHeight cx = ucast i" "vc_checkpoints cx = co_checkpoints co"
    "vc_chain cx = segment_queries co ch"
    by (simp_all add: cx_def transaction_context_def)
  from assms(1) obtain v where v: "validate (co_sched co) cx (new_validator state) = Returns v"
    "r_errorCode (v_result v) \<in> {None, Some VALIDATION_SUCCESS}" "state' = v_spentKeyImages v" "fee = r_fee (v_result v)"
    unfolding core_validateTransaction_def cx_def by (auto simp: bindO_Returns Let_def split: if_splits)
  let ?rules = "[validateTransactionSize cx, validateTransactionInputs cx, validateTransactionOutputs cx,
    validateTransactionFee cx, validateTransactionExtra cx, validateTransactionMixin cx, validateTransactionPoW cx,
    validateTransactionInputsExpensive (co_sched co) cx]"
  have "foldr require ?rules accept (new_validator state) = Returns v" using v(1) by (simp add: validate_def)
  moreover have "\<forall>rule \<in> set ?rules. reports rule" using rules_report assms(2) by simp
  ultimately have "r_valid (v_result v)" by (rule required_rules_verdict) (rule v(2))
  from validate_passed [OF v(1) this] obtain v1 v2 v3 where
    p: "validateTransactionInputs cx (new_validator state) = Returns (True, v1)"
      "validateTransactionOutputs cx v1 = Returns (True, v2)" "validateTransactionFee cx v2 = Returns (True, v3)"
      "validateTransactionInputsExpensive (co_sched co) cx v3 = Returns (True, v3)" "accept v3 = Returns v" .
  note pi = pass_inputs [OF p(1), unfolded cx(1)] and po = pass_outputs [OF p(2), unfolded cx(1)] and pf = pass_fee [OF p(3)]
  have images: "list_all is_key_input (inputs tx)" "distinct (tx_images tx)" "set (tx_images tx) \<inter> state = {}"
    using pi by (simp_all add: tx_images_def new_validator_def)
  have state: "state' = state \<union> set (tx_images tx)"
    using p(5) pi po pf v(3) by (auto simp: accept_def setTransactionValidationResult_def new_validator_def tx_images_def)
  have fee: "fee = tx_fee tx"
    using p(5) pi po pf v(4) by (auto simp: accept_def setTransactionValidationResult_def tx_fee_def)
  have le: "sum_list (map out_amount (outputs tx)) \<le> sum_list (map input_amount (inputs tx))" using pi po pf by auto
  have tot: "total (map input_amount (inputs tx)) < 2 ^ 64" "total (map out_amount (outputs tx)) < 2 ^ 64"
    using pi po by blast+
  have "conserves tx"
    using unat_sub_ge [OF le] le tot(1) unfolding conserves_def tx_fee_def word_le_nat_alt unat_sum_list [OF tot(1)] unat_sum_list [OF tot(2)]
    by linarith
  moreover have "checkIfSpent_at k i ch = Returns False"
    if zone: "\<not> isInCheckpointZone (co_checkpoints co) (ucast (ucast i + 1 :: u64))" and k: "k \<in> set (tx_images tx)" for k
  proof -
    obtain j where j: "j < length (inputs tx)" "k = keyImage (inputs tx ! j)"
      using k by (auto simp: tx_images_def in_set_conv_nth)
    have "ring_checked cx j" by (rule pass_expensive [OF p(4)]) (use zone j in \<open>simp_all add: cx\<close>)
    with j show ?thesis
      by (auto simp: ring_checked_def cx segment_queries_def split: TransactionInput.splits)
  qed
  ultimately show ?thesis using images state fee by blast
qed

lemma check_transactions_accepted:
  assumes "check_transactions co ch i txs state fee = Returns (Inr (state', fee'))" and "picks (co_sched co)"
  shows "distinct (concat (map tx_images txs)) \<and> set (concat (map tx_images txs)) \<inter> state = {}
    \<and> state' = state \<union> set (concat (map tx_images txs)) \<and> fee' = fee + sum_list (map tx_fee txs)
    \<and> (\<forall>tx \<in> set txs. list_all is_key_input (inputs tx) \<and> conserves tx)
    \<and> (\<not> isInCheckpointZone (co_checkpoints co) (ucast (ucast i + 1 :: u64))
        \<longrightarrow> (\<forall>k \<in> set (concat (map tx_images txs)). checkIfSpent_at k i ch = Returns False))"
  using assms(1)
proof (induction txs arbitrary: state fee)
  case (Cons tx txs)
  from Cons.prems obtain s f where s: "core_validateTransaction co tx state ch i False = Returns (None, s, f)"
    "check_transactions co ch i txs s (fee + f) = Returns (Inr (state', fee'))"
    by (auto simp: bindO_Returns split: option.splits)
  from core_validated [OF s(1) assms(2)] Cons.IH [OF s(2)] show ?case
    by (auto simp: add.assoc)
qed simp

section \<open>What an accepted block has passed\<close>

lemma getBlockIndex_of_flat:
  assumes "wf_chain (c # ps)" and "getBlockIndex_of c h = Returns i"
  shows "startIndex c \<le> i" and "unat i < end_index (c # ps)" and "bi_blockHash (chain_blocks (c # ps) ! unat i) = h"
proof -
  define n where "n = length (takeWhile (\<lambda>b. bi_blockHash b \<noteq> h) (blockInfos c))"
  have has: "\<exists>b \<in> set (blockInfos c). bi_blockHash b = h" and i: "i = word_of_nat n + startIndex c"
    using assms(2) by (auto simp: getBlockIndex_of_def hasBlock_def n_def split: if_splits)
  have n: "n < length (blockInfos c)" "bi_blockHash (blockInfos c ! n) = h"
  proof -
    show "n < length (blockInfos c)" using has unfolding n_def
      by (metis (mono_tags, lifting) length_takeWhile_le le_neq_implies_less takeWhile_eq_all_conv takeWhile_eq_take take_all_iff order_refl)
    then show "bi_blockHash (blockInfos c ! n) = h" unfolding n_def using nth_length_takeWhile by blast
  qed
  have b: "blocks_ok c ps" by (rule wf_blocks_ok [OF assms(1)])
  then have fits: "n + unat (startIndex c) < 2 ^ 32" using n(1) by (simp add: blocks_ok_def)
  then have u: "unat i = n + unat (startIndex c)"
    unfolding i by (subst unat_add_lem [THEN iffD1]) (simp_all add: unat_word_of_nat)
  show le: "startIndex c \<le> i" unfolding word_le_nat_alt u by simp
  show lt: "unat i < end_index (c # ps)" using n(1) u by simp
  have "unat (i - startIndex c) = n" using unat_sub_ge [OF le] u by simp
  with segment_nth(1) [OF assms(1) le lt] n(2) show "bi_blockHash (chain_blocks (c # ps) ! unat i) = h" by simp
qed

lemma miner_reward_total:
  "miner_reward check_key s outs = Inr r \<Longrightarrow> unat r = unat s + total (map out_amount outs)"
proof (induction check_key s outs rule: miner_reward.induct)
  case (2 check_key s out outs)
  obtain k where k: "target out = KeyOutput k" by (cases "target out")
  have g: "\<not> -1 - out_amount out < s" and rec: "miner_reward check_key (s + out_amount out) outs = Inr r"
    using "2.prems" by (auto simp: k split: if_splits)
  have "unat s + unat (out_amount out) < 2 ^ 64" using g unfolding sum_overflow_iff by simp
  then have "unat (s + out_amount out) = unat s + unat (out_amount out)" by (rule unat_add_fits)
  moreover have "unat r = unat (s + out_amount out) + total (map out_amount outs)"
    by (rule "2.IH") (use "2.prems" rec k g in \<open>auto split: if_splits\<close>)
  ultimately show ?case by simp
qed simp

lemma validateBlock_accepted:
  assumes "validateBlock co b c ps = Returns (Inr minerReward)"
  obtains i timestamps where "getBlockIndex_of c (previousBlockHash b) = Returns i"
    "getBlockMajorVersion (co_upgradeManager co) (getBlockIndex b) = majorVersion b"
    "timestamp b \<le> co_time co + futureTimeLimit i"
    "getLastTimestamps_at (unat (m_timestampCheckWindow (co_currency co))) i True (c # ps) = Returns timestamps"
    "\<not> timestamp_too_old (co_currency co) b timestamps"
    "check_base_transaction (cf_check_key (co_crypto co)) b i = Inr minerReward"
  using assms unfolding validateBlock_def bindO_Returns
  by (auto simp: bindO_Returns not_less simp del: getLastUnits.simps split: if_splits sum.splits)

lemma base_transaction_accepted:
  assumes "check_base_transaction check_key b i = Inr r"
  shows "inputs (baseTransaction b) = [BaseInput (i + 1)] \<and> getBlockIndex b = i + 1
    \<and> unlockTime (baseTransaction b) = expectedUnlockTime i
    \<and> total (map out_amount (outputs (baseTransaction b))) = unat r"
  using assms miner_reward_total [of check_key 0 "outputs (baseTransaction b)" r]
  by (auto simp: check_base_transaction_def Let_def getBlockIndex_def split: list.splits TransactionInput.splits if_splits)

lemma check_reward_accepted:
  assumes "check_reward co b i sz fee minerReward ch = Returns (Inr emissionChange)"
  obtains g szs where "getAlreadyGeneratedCoins i ch = Returns g"
    "getLastBlocksSizes_at (unat (m_rewardBlocksWindow (co_currency co))) i True ch = Returns szs"
    "getBlockReward (co_currency co) (majorVersion b) (medianValue szs) sz g fee (ucast (getBlockIndex b))
       = Some (Some (minerReward, emissionChange))"
proof -
  from assms obtain g szs where "getAlreadyGeneratedCoins i ch = Returns g"
    "getLastBlocksSizes_at (unat (m_rewardBlocksWindow (co_currency co))) i True ch = Returns szs"
    and r: "(case getBlockReward (co_currency co) (majorVersion b) (medianValue szs) sz g fee (ucast (getBlockIndex b)) of
        None \<Rightarrow> Undefined | Some None \<Rightarrow> Returns (Inl CUMULATIVE_BLOCK_SIZE_TOO_BIG)
      | Some (Some (reward, em)) \<Rightarrow> Returns (if minerReward \<noteq> reward then Inl BLOCK_REWARD_MISMATCH else Inr em))
      = Returns (Inr emissionChange)"
    unfolding check_reward_def bindO_Returns by blast
  moreover from r have "getBlockReward (co_currency co) (majorVersion b) (medianValue szs) sz g fee (ucast (getBlockIndex b))
      = Some (Some (minerReward, emissionChange))"
    by (cases "getBlockReward (co_currency co) (majorVersion b) (medianValue szs) sz g fee (ucast (getBlockIndex b))")
      (auto split: option.split_asm if_splits)
  ultimately show thesis using that by blast
qed

definition work_done :: "core_context \<Rightarrow> BlockTemplate \<Rightarrow> hash \<Rightarrow> u64 \<Rightarrow> bool" where
  "work_done co b h d \<longleftrightarrow>
     (if isInCheckpointZone (co_checkpoints co) (getBlockIndex b)
      then fst (checkBlock (co_checkpoints co) (getBlockIndex b) h)
      else checkProofOfWork (cf_cn_fast_hash (co_crypto co)) (co_slow_hash co) (co_genesisBlockHash co) b d = Inr True)"

lemma check_work_accepted: "check_work co b h d = Returns None \<Longrightarrow> work_done co b h d"
  unfolding check_work_def work_done_def
  by (cases "checkProofOfWork (cf_cn_fast_hash (co_crypto co)) (co_slow_hash co) (co_genesisBlockHash co) b d")
    (auto split: if_splits)

text \<open>A check that is passed, one for each shape of the answer.\<close>

lemma passed_check:
  "bindO m (\<lambda>r. case r of None \<Rightarrow> k | Some e \<Rightarrow> refuse (f e)) = Returns (Inr a) \<longleftrightarrow> m = Returns None \<and> k = Returns (Inr a)"
  "bindO m' (\<lambda>r. case r of Inl e \<Rightarrow> refuse (g e) | Inr x \<Rightarrow> k' x) = Returns (Inr a) \<longleftrightarrow>
     (\<exists>x. m' = Returns (Inr x) \<and> k' x = Returns (Inr a))"
  "bindO n (\<lambda>r. case r of Inl (e, tx) \<Rightarrow> Returns (Inl (g' e, Some tx)) | Inr (s, fee) \<Rightarrow> k'' s fee) = Returns (Inr a) \<longleftrightarrow>
     (\<exists>s fee. n = Returns (Inr (s, fee)) \<and> k'' s fee = Returns (Inr a))"
  by (auto simp: bindO_Returns refuse_def split: option.split_asm sum.split_asm prod.split_asm)

lemma check_content_accepted:
  assumes "check_content co b h txs sz i minerReward d ch = Returns (Inr a)"
  obtains fee where "check_transactions co ch i txs {} 0 = Returns (Inr (ab_spent a, fee))"
    "check_reward co b i sz fee minerReward ch = Returns (Inr (ab_emissionChange a))" "work_done co b h d"
    "check_hashes (cf_cn_fast_hash (co_crypto co)) b txs = Returns None"
    "ab_transactions a = txs" "ab_blockSize a = sz" "ab_difficulty a = d" "ab_previousIndex a = i"
  using assms check_work_accepted unfolding check_content_def passed_check by fastforce

lemma addBlock_accepted:
  assumes "addBlock_checks co b h raw c ps = Returns (Inr a)"
  obtains sz minerReward where "extractTransactions (co_currency co) (raw_transactions raw) 0 = Some (ab_transactions a, sz)"
    "getBlockIndex_of c (previousBlockHash b) = Returns (ab_previousIndex a)"
    "validateBlock co b c ps = Returns (Inr minerReward)"
    "ab_difficulty a \<noteq> 0" "ab_blockSize a = getObjectBinarySize_tx (baseTransaction b) + sz"
    "getDifficultyForNextBlock_at (co_currency co) (ab_previousIndex a) (c # ps) = Returns (ab_difficulty a)"
    "check_content co b h (ab_transactions a) (ab_blockSize a) (ab_previousIndex a) minerReward (ab_difficulty a) (c # ps) = Returns (Inr a)"
proof -
  obtain txs sz where e: "extractTransactions (co_currency co) (raw_transactions raw) 0 = Some (txs, sz)"
    using assms by (cases "extractTransactions (co_currency co) (raw_transactions raw) 0")
      (auto simp: addBlock_checks_def refuse_def split: if_split_asm)
  define n where "n = getObjectBinarySize_tx (baseTransaction b) + sz"
  from assms obtain i where i: "getBlockIndex_of c (previousBlockHash b) = Returns i"
    and rest: "(case maxBlockCumulativeSize (co_currency co) (ucast (i + 1)) of None \<Rightarrow> Undefined
      | Some limit \<Rightarrow> if n > limit then refuse (BlockError CUMULATIVE_BLOCK_SIZE_TOO_BIG)
          else bindO (validateBlock co b c ps) (\<lambda>r. case r of Inl e \<Rightarrow> refuse e | Inr minerReward \<Rightarrow>
            bindO (getDifficultyForNextBlock_at (co_currency co) i (c # ps)) (\<lambda>d.
              if d = 0 then refuse (BlockError DIFFICULTY_OVERHEAD)
              else check_content co b h txs n i minerReward d (c # ps)))) = Returns (Inr a)"
    unfolding n_def by (auto simp: addBlock_checks_def e Let_def bindO_Returns split: if_split_asm)
  from rest have "bindO (validateBlock co b c ps) (\<lambda>r. case r of Inl e \<Rightarrow> refuse e | Inr minerReward \<Rightarrow>
            bindO (getDifficultyForNextBlock_at (co_currency co) i (c # ps)) (\<lambda>d.
              if d = 0 then refuse (BlockError DIFFICULTY_OVERHEAD)
              else check_content co b h txs n i minerReward d (c # ps))) = Returns (Inr a)"
    by (cases "maxBlockCumulativeSize (co_currency co) (ucast (i + 1))") (auto simp: refuse_def split: if_split_asm)
  then obtain minerReward d where v: "validateBlock co b c ps = Returns (Inr minerReward)"
    "getDifficultyForNextBlock_at (co_currency co) i (c # ps) = Returns d" "d \<noteq> 0"
    "check_content co b h txs n i minerReward d (c # ps) = Returns (Inr a)"
    unfolding passed_check by (auto simp: bindO_Returns refuse_def split: if_split_asm)
  from check_content_accepted [OF v(4)] have "ab_transactions a = txs" "ab_blockSize a = n" "ab_difficulty a = d" "ab_previousIndex a = i"
    by metis+
  with e i v show thesis using that by (simp add: n_def)
qed

lemma check_transactions_unspent:
  assumes "full (c # ps)" and "checkIfSpent_at k i (c # ps) = Returns False" and "s \<in> set (chain_spent (c # ps))" "ski_keyImage s = k"
  shows "i < ski_blockIndex s"
proof -
  have "wf_chain (c # ps)" using assms(1) unfolding full_Cons by blast
  from checkIfSpent_flat [OF this, of k i] assms(2-4) show ?thesis
    by (auto simp del: checkIfSpent_at.simps chain_spent.simps wf_chain.simps simp: not_le [symmetric])
qed


section \<open>An accepted block extends the chain\<close>

text \<open>
  What the checks leave open: that hashes do not collide with those of the segment, and that positions still fit the
  width they are stored in.
\<close>

definition block_fits :: "core_context \<Rightarrow> BlockTemplate \<Rightarrow> accepted_block \<Rightarrow> hash \<Rightarrow> hash list \<Rightarrow> BlockchainCache \<Rightarrow> chain \<Rightarrow> bool" where
  "block_fits co b a h hs c ps \<longleftrightarrow>
     getBlockHash (cf_cn_fast_hash (co_crypto co)) b = Inr h \<and> \<not> hasBlock c h
     \<and> list_all2 (\<lambda>tx h. getTransactionHash (cf_cn_fast_hash (co_crypto co)) tx = Inr h) (baseTransaction b # ab_transactions a) hs
     \<and> distinct hs \<and> (\<forall>h \<in> set hs. \<not> hasTransaction c h)
     \<and> length (ab_transactions a) \<le> 65535
     \<and> (\<forall>tx \<in> set (baseTransaction b # ab_transactions a). length (outputs tx) \<le> 65535)
     \<and> end_index (c # ps) + 1 < 2 ^ 32 \<and> 0 < ab_blockSize a
     \<and> (\<forall>amt. length (chain_outputs amt (c # ps))
          + length (block_outputs (getBlockIndex b) 0 amt (baseTransaction b # ab_transactions a)) < 2 ^ 32)"

lemma accepted_block_ready:
  assumes full: "full (c # ps)" and acc: "addBlock_checks co b h raw c ps = Returns (Inr a)" and "picks (co_sched co)"
    and top: "unat (ab_previousIndex a) + 1 = end_index (c # ps)" and fits: "block_fits co b a h hs c ps"
    and zone: "\<not> isInCheckpointZone (co_checkpoints co) (ucast (ucast (ab_previousIndex a) + 1 :: u64))"
    and images: "distinct images" "set images = ab_spent a"
  shows "push_ready (cf_cn_fast_hash (co_crypto co)) b (ab_transactions a) images h hs c ps"
proof -
  obtain sz r where a: "getBlockIndex_of c (previousBlockHash b) = Returns (ab_previousIndex a)"
      "validateBlock co b c ps = Returns (Inr r)"
      "check_content co b h (ab_transactions a) (ab_blockSize a) (ab_previousIndex a) r (ab_difficulty a) (c # ps) = Returns (Inr a)"
    by (rule addBlock_accepted [OF acc])
  obtain i where "getBlockIndex_of c (previousBlockHash b) = Returns i"
      "check_base_transaction (cf_check_key (co_crypto co)) b i = Inr r"
    by (rule validateBlock_accepted [OF a(2)])
  then have index: "getBlockIndex b = ab_previousIndex a + 1" using base_transaction_accepted a(1) by fastforce
  have wf: "wf_chain (c # ps)" using full unfolding full_Cons by blast
  have small: "end_index (c # ps) + 1 < 2 ^ 32" using fits unfolding block_fits_def by blast
  with top have "unat (ab_previousIndex a) + 1 < 2 ^ 32" by simp
  then have place: "unat (getBlockIndex b) = end_index (c # ps)"
    unfolding index using top by (simp add: unat_add_lem [THEN iffD1] del: end_index_simps)
  obtain fee where "check_transactions co (c # ps) (ab_previousIndex a) (ab_transactions a) {} 0 = Returns (Inr (ab_spent a, fee))"
    by (rule check_content_accepted [OF a(3)])
  from check_transactions_accepted [OF this assms(3)] zone
  have unspent: "\<forall>k \<in> ab_spent a. checkIfSpent_at k (ab_previousIndex a) (c # ps) = Returns False" by simp
  have "set images \<inter> ski_keyImage ` set (chain_spent (c # ps)) = {}"
  proof -
    have "ab_previousIndex a < ski_blockIndex s" if "s \<in> set (chain_spent (c # ps))" "ski_keyImage s \<in> ab_spent a" for s
      by (rule check_transactions_unspent [OF full _ that(1) refl]) (use unspent that(2) in blast)
    moreover have "unat (ski_blockIndex s) < end_index (c # ps)" if "s \<in> set (chain_spent (c # ps))" for s
      using chain_spent_below [OF wf that] .
    ultimately show ?thesis unfolding images(2) word_less_nat_alt using top
      by (fastforce simp del: chain_spent.simps end_index_simps)
  qed
  with wf place images(1) fits show ?thesis unfolding push_ready_def block_fits_def by blast
qed

lemma accepted_block_money:
  assumes full: "full (c # ps)" and acc: "addBlock_checks co b h raw c ps = Returns (Inr a)" and "picks (co_sched co)"
    and top: "unat (ab_previousIndex a) + 1 = end_index (c # ps)"
  obtains median r where "total (map out_amount (outputs (baseTransaction b))) = unat r" "ab_difficulty a \<noteq> 0"
    "getBlockReward (co_currency co) (majorVersion b) median (ab_blockSize a) (bi_alreadyGeneratedCoins (last (chain_blocks (c # ps))))
       (sum_list (map tx_fee (ab_transactions a))) (ucast (getBlockIndex b)) = Some (Some (r, ab_emissionChange a))"
proof -
  have wf: "wf_chain (c # ps)" using full unfolding full_Cons by blast
  obtain sz r where a: "ab_difficulty a \<noteq> 0" "validateBlock co b c ps = Returns (Inr r)"
      "check_content co b h (ab_transactions a) (ab_blockSize a) (ab_previousIndex a) r (ab_difficulty a) (c # ps) = Returns (Inr a)"
    by (rule addBlock_accepted [OF acc])
  obtain fee where content: "check_transactions co (c # ps) (ab_previousIndex a) (ab_transactions a) {} 0 = Returns (Inr (ab_spent a, fee))"
      "check_reward co b (ab_previousIndex a) (ab_blockSize a) fee r (c # ps) = Returns (Inr (ab_emissionChange a))"
    by (rule check_content_accepted [OF a(3)])
  have fee: "fee = sum_list (map tx_fee (ab_transactions a))"
    using check_transactions_accepted [OF content(1) assms(3)] by simp
  obtain g szs where g: "getAlreadyGeneratedCoins (ab_previousIndex a) (c # ps) = Returns g"
      "getBlockReward (co_currency co) (majorVersion b) (medianValue szs) (ab_blockSize a) g fee (ucast (getBlockIndex b))
         = Some (Some (r, ab_emissionChange a))"
    by (rule check_reward_accepted [OF content(2)])
  have "unat (ab_previousIndex a) = length (chain_blocks (c # ps)) - 1" using top length_chain_blocks [OF wf] by linarith
  then have "chain_blocks (c # ps) ! unat (ab_previousIndex a) = last (chain_blocks (c # ps))"
    using last_conv_nth [OF chain_blocks_nonempty [OF full]] by simp
  moreover have "unat (ab_previousIndex a) < end_index (c # ps)" using top by linarith
  ultimately have gen: "g = bi_alreadyGeneratedCoins (last (chain_blocks (c # ps)))"
    using g(1) getAlreadyGeneratedCoins_flat [OF wf, of "ab_previousIndex a"] by simp
  obtain i where "check_base_transaction (cf_check_key (co_crypto co)) b i = Inr r"
    by (rule validateBlock_accepted [OF a(2)])
  then have "total (map out_amount (outputs (baseTransaction b))) = unat r" by (simp add: base_transaction_accepted)
  from that [OF this a(1) g(2) [unfolded gen fee]] show thesis .
qed



section \<open>A block that is accepted\<close>

definition spend_tx :: Transaction where
  "spend_tx = \<lparr> version = 1, unlockTime = 0,
     inputs = map (\<lambda>k. KeyInput 5 [word_of_nat k] (replicate 32 (word_of_nat (20 + k)))) [0, 1, 2],
     outputs = [\<lparr> out_amount = 5, target = KeyOutput (replicate 32 3) \<rparr>], extra = [],
     signatures = replicate 3 [replicate 64 5] \<rparr>"

definition mined_tx :: Transaction where
  "mined_tx = \<lparr> version = 1, unlockTime = 123, inputs = [BaseInput 3],
     outputs = [\<lparr> out_amount = 1192092905, target = KeyOutput (replicate 32 1) \<rparr>], extra = [], signatures = [] \<rparr>"

definition mined_block :: BlockTemplate where
  "mined_block = \<lparr> majorVersion = 1, minorVersion = 0, nonce = 70, timestamp = 100, previousBlockHash = [2],
     parentBlock = empty_ParentBlock, baseTransaction = mined_tx, transactionHashes = [replicate 32 7] \<rparr>"

definition spend_raw :: RawBlock where
  "spend_raw = \<lparr> block = [], raw_transactions = (case getTransactionBinaryArray spend_tx of Inr ba \<Rightarrow> [ba] | _ \<Rightarrow> []) \<rparr>"

definition sample_hash :: "bytes \<Rightarrow> hash" where
  "sample_hash ba = word_of_nat (length ba) # replicate 31 7"

definition sample_core :: core_context where
  "sample_core = \<lparr> co_crypto = \<lparr> cf_scalarmultKey = (\<lambda>_ _. key_image_I), cf_check_key = (\<lambda>_. True), cf_cn_fast_hash = sample_hash,
       cf_cn_turtle_lite_slow_hash_v2 = (\<lambda>_. replicate 32 0), cf_checkRingSignature = (\<lambda>_ _ _ _. True) \<rparr>,
     co_slow_hash = (\<lambda>_. Some (\<lambda>_. replicate 32 0)), co_currency = CurrencyBuilder, co_checkpoints = [], co_upgradeManager = [],
     co_genesisBlockHash = [], co_blockMedianSize = 100000, co_time = 1000, co_sched = hd \<rparr>"

lemma mined_block_accepted:
  obtains a where "addBlock_checks sample_core mined_block (42 # replicate 31 7) spend_raw sample_segment [] = Returns (Inr a)"
    "ab_previousIndex a = 2" "ab_transactions a = [spend_tx]" "ab_blockSize a \<noteq> 0"
    "ab_spent a = set [replicate 32 20, replicate 32 21, replicate 32 22]"
proof -
  have "(case addBlock_checks sample_core mined_block (42 # replicate 31 7) spend_raw sample_segment [] of
      Returns (Inr a) \<Rightarrow> ab_previousIndex a = 2 \<and> ab_transactions a = [spend_tx] \<and> ab_blockSize a \<noteq> 0
        \<and> ab_spent a = set [replicate 32 20, replicate 32 21, replicate 32 22] | _ \<Rightarrow> False)"
    by code_simp
  then show thesis using that by (auto split: outcome.splits sum.splits)
qed


lemma mined_block_fits:
  assumes "ab_transactions a = [spend_tx]" and "ab_blockSize a \<noteq> 0"
  shows "block_fits sample_core mined_block a (42 # replicate 31 7) [45 # replicate 31 7, 83 # replicate 31 7] sample_segment []"
proof -
  have H: "cf_cn_fast_hash (co_crypto sample_core) = sample_hash" by (simp add: sample_core_def)
  have "getBlockHash sample_hash mined_block = Inr (42 # replicate 31 7)"
    "getTransactionHash sample_hash mined_tx = Inr (45 # replicate 31 7)"
    "getTransactionHash sample_hash spend_tx = Inr (83 # replicate 31 7)" "getBlockIndex mined_block = 3"
    by code_simp+
  moreover have "\<not> hasBlock sample_segment (42 # replicate 31 7)"
    "\<not> hasTransaction sample_segment (45 # replicate 31 7)" "\<not> hasTransaction sample_segment (83 # replicate 31 7)"
    by (simp_all add: hasBlock_def hasTransaction_def sample_segment_def sample_info_def sample_tx_def)
  moreover have "length (chain_outputs amt [sample_segment]) + length (block_outputs 3 0 amt [mined_tx, spend_tx]) < 2 ^ 32" for amt
    by (simp add: sample_segment_def own_outputs_def mined_tx_def spend_tx_def)
  moreover have "baseTransaction mined_block = mined_tx" "length (outputs mined_tx) \<le> 65535" "length (outputs spend_tx) \<le> 65535"
    by (simp_all add: mined_block_def mined_tx_def spend_tx_def)
  moreover have "end_index [sample_segment] + 1 < 2 ^ 32" by (simp add: sample_segment_def)
  ultimately show ?thesis using assms
    unfolding block_fits_def H by (simp add: word_neq_0_conv [symmetric] del: end_index_simps chain_outputs.simps block_outputs.simps)
qed


end
