(* ===== verification/Spec2Isabelle.thy ===== *)
theory Spec2Isabelle
  imports Blocks ValidateParameters Synchronization BlockValidation
begin

text \<open>
  \<^bold>\<open>DeroGold: consensus core and wallet container.\<close>

  DeroGold is a CryptoNote currency in C++. A daemon keeps a block chain, validates the transactions and blocks it is sent, and
  holds a pool of transactions that are not in a block yet; wallets follow the chain, keep the inputs they can spend and
  choose among them. This development models the code that decides what is valid and what belongs to whom, and proves
  it correct; the network, the files and the user interfaces around it are left out.

  \<^bold>\<open>Conventions.\<close> Integers are words of their width, so that wrap-around is the one of the code; hashes, keys and
  key images are lists of bytes; \<open>std::string\<close> is \<open>string\<close>. A function that can throw has a result
  \<open>exc + 'a\<close>. Where undefined behaviour, a failed assertion or a thread may occur as well, the result is an \<open>'a outcome\<close>:
  \<open>Undefined\<close>, \<open>Throws e\<close> or \<open>Returns x\<close>, sequenced by \<open>bindO\<close>; \<open>option\<close> serves where only one kind of failure exists.
  Unordered maps are association lists, sets of key images are sets, multi-index containers are lists in their
  primary order. Hash and curve functions, the clock, random sources and the order in which worker threads report
  are arguments of the definitions that use them; what a theorem needs of them is one of its hypotheses.

  \<^bold>\<open>Foundations.\<close>
  \<^item> \<open>Prelude\<close>: word types, exceptions, and the facts on lists, association lists, sums and words used throughout.
  \<^item> \<open>Config\<close>: the parameters of \<open>src/config\<close> the modelled code reads.
  \<^item> \<open>IntUtil\<close>: \<open>src/common/int-util.h\<close>, \<open>check_hash\<close> and \<open>getPenalizedAmount\<close>. The 128-bit products, quotients
    and carries are exact: a hash passes iff hash times difficulty is below \<open>2\<^sup>2\<^sup>5\<^sup>6\<close>, and the penalty is the quotient it should be.
  \<^item> \<open>Varint\<close>, \<open>Strings\<close>, \<open>Decimal\<close>, \<open>Streams\<close>: \<open>src/common\<close> and the binary serializers of \<open>src/serialization\<close>. Only canonical
    varints are accepted; hexadecimal and integers are read back as written.
  \<^item> \<open>Base58\<close>, \<open>Addresses\<close>: \<open>src/common/Base58.cpp\<close>, \<open>src/utilities/Addresses.cpp\<close>. Encoding and decoding are inverse bijections,
    an accepted address is the only text for its data, and standard and integrated addresses pass the validation and give their keys back.
  \<^item> \<open>ShuffleGenerator\<close>: \<open>src/common/ShuffleGenerator.h\<close>; a full run is a permutation.

  \<^bold>\<open>Data of the chain.\<close>
  \<^item> \<open>Transactions\<close>, \<open>TxExtra\<close>, \<open>Blocks\<close>: the types of \<open>include/CryptoNote.h\<close>, their binary form
    (\<open>src/serialization/CryptoNoteSerialization.cpp\<close>), \<open>TransactionExtra.cpp\<close> and \<open>CachedBlock.cpp\<close>. A byte array is accepted as
    a transaction exactly when it is the one written for it; blocks and extra fields survive the round trip; the
    hashing array of a block determines its header, its Merkle root and the number of transactions.
  \<^item> \<open>TreeHash\<close>: \<open>src/crypto/tree-hash.c\<close>; the branch of the first leaf leads to the root.
  \<^item> \<open>FormatUtils\<close>, \<open>FusionAmounts\<close>: fees, relative offsets, decomposition and fusion (\<open>CryptoNoteFormatUtils.cpp\<close>,
    \<open>Currency.cpp\<close>).

  \<^bold>\<open>Consensus.\<close>
  \<^item> \<open>Difficulty\<close>, \<open>Currency\<close>, \<open>ProofOfWork\<close>: \<open>src/cryptonotecore/Difficulty.cpp\<close> and \<open>Currency.cpp\<close>. The next difficulty stays between 67
    and 150 per cent of the last one; \<open>constructMinerTx\<close> pays the reward exactly; one parent block proves the work of one block only.
  \<^item> \<open>Checkpoints\<close>, \<open>ValidateTransaction\<close>: \<open>Checkpoints.cpp\<close>, \<open>ValidateTransaction.cpp\<close>, \<open>Mixins.h\<close>. A transaction that
    \<open>validate\<close> accepts conserves money, spends fresh and distinct key images, and outside the checkpoints has a valid ring signature for each input.
  \<^item> \<open>TransactionPool\<close>: \<open>TransactionPool.cpp\<close>, \<open>TransactionPoolCleaner.cpp\<close>. The locale \<open>itransaction_pool\<close> is the contract of
    \<open>ITransactionPool\<close>; the pool and its wrapper are its interpretations. After every history of pushes and removals no two
    transactions share a hash or a key image and the order is the one by fee.
  \<^item> \<open>BlockchainCache\<close>: the segments of \<open>BlockchainCache.cpp\<close> and their storage; a chain is the list of a segment and its ancestors.
    \<open>ChainView\<close> reads such a list as flat sequences of blocks, raw blocks, transactions, spent key images and outputs and shows that each query
    is a query on them. \<open>ChainSplit\<close> shows that \<open>split\<close> leaves every answer as it was, \<open>ChainPush\<close> that \<open>doPushBlock\<close> appends one block
    and keeps the invariant, \<open>ChainQueries\<close> treats block versions and the choice of outputs.
  \<^item> \<open>BlockValidation\<close>: the checks of \<open>Core::addBlock\<close> with \<open>validateBlock\<close>, \<open>validateTransaction\<close> and \<open>extractTransactions\<close>. It composes the theories above:
    an accepted block spends nothing twice, pays its reward exactly and has the work done, and pushing it keeps the invariant and the money supply.

  \<^bold>\<open>Wallets.\<close>
  \<^item> \<open>Errors\<close>, \<open>Utilities\<close>, \<open>ValidateParameters\<close>: \<open>src/errors\<close>, \<open>src/utilities\<close>; a request that passes is covered by the balance.
  \<^item> \<open>SubWallet\<close>, \<open>SubWallets\<close>: \<open>src/subwallets\<close>. The inputs of an address refine a ledger from key images to states; a fork
    undoes the spends above it; the choice of inputs succeeds exactly when the money is there.
  \<^item> \<open>Synchronization\<close>: \<open>src/transfers/SynchronizationState.cpp\<close>, \<open>BlockchainSynchronizer.cpp\<close> and
    \<open>src/walletbackend/SynchronizationStatus.cpp\<close>: how a wallet adopts an interval of blocks and describes the chain it knows.

  \<^bold>\<open>Termination and bounds.\<close> Every loop is a total function, structurally or by a measure, except \<open>short_history_loop\<close>, whose
  step doubles and wraps around: it is shown to return for chains of up to \<open>2\<^sup>3\<^sup>1\<close> blocks. No definition takes fuel. The conditions under
  which sums or indices do not wrap are hypotheses of the theorems (\<open>full\<close>, \<open>block_fits\<close>, \<open>push_ready\<close>), each with a
  witness in which they hold.

  \<^bold>\<open>Not modelled.\<close>
  \<^item> The rest of \<open>Core.cpp\<close>: the tree of alternative chains, the block template and the queries of the RPC layer. The checks of a block
    are stated for one chain of segments, whichever leaf it ends in.
  \<^item> Hash functions, curve arithmetic and ring signatures: parameters with the interface their callers use.
  \<^item> Databases, files, mutexes, threads, coroutines, sockets, the peer-to-peer protocol, RPC and the programs with their
    user interface: input and output, or scheduling outside of the sources. The in-memory segments carry the contract of the databases.
  \<^item> JSON and key-value serializers, boost serialization, logging and display texts: no decision modelled here depends on them.
  \<^item> \<open>WalletGreen\<close> and its transfer containers: the older wallet, driven by a dispatcher of coroutines.
\<close>

end
